(* ===== verification/Prelude.thy ===== *)
theory Prelude
  imports Main "HOL-Library.Word" "HOL-Library.Char_ord" "HOL-Library.List_Lexorder"
    "HOL-Library.Sublist"
begin

text \<open>
  Shared vocabulary of the development: Go's byte strings, the error values and the result
  type of fallible functions, and the part of Go's standard library that several
  components use (\<^verbatim>\<open>fmt\<close>'s \<^verbatim>\<open>%d\<close>, \<^verbatim>\<open>strconv.ParseInt\<close>, \<^verbatim>\<open>strings.Split\<close>,
  \<^verbatim>\<open>encoding/binary\<close>'s little-endian words), each with the lemmas the components need.
\<close>

section \<open>Collections of lemmas\<close>

named_theorems go_split_defs "definitions unfolded when a Go control path is followed"
named_theorems go_laws "round trips and laws of the standard library functions"

section \<open>Strings, errors, results\<close>

text \<open>A Go string, and a \<^verbatim>\<open>[]byte\<close>, is a list of bytes; Isabelle's \<open>char\<close> is one byte.\<close>

type_synonym bytes = string

text \<open>
  The sentinel errors of the repository, and what the program meets from outside. The
  constructors stand for the root cause that \<^verbatim>\<open>errors.Is\<close> finds: \<^verbatim>\<open>fmt.Errorf\<close> with
  \<^verbatim>\<open>%w\<close> adds text only, so wrapping is not recorded.
\<close>

datatype go_error =
    ErrInvalidKey | ErrTxnNil
  | ErrUnknownOperation
  | ErrPartitionAlreadyExists | ErrRestoredDBTooOld | ErrPartitionNotFound
  | ErrBackupNotFound | ErrRemoteOffsetLower
  | ErrPartitionMismatch | ErrNameBadChars | ErrClientClosed | ErrPollFetches
  | ErrNoRemotePartitions
  | ErrHighStatusCode
  | DeadlineExceeded
  | JSONError
  | AddrError
  | External string

text \<open>
  What a Go function with an \<^verbatim>\<open>error\<close> result does: return a value, return an error, or
  panic.
\<close>

datatype 'a go = Ok 'a | Err go_error | Panic

fun bind_go :: "'a go \<Rightarrow> ('a \<Rightarrow> 'b go) \<Rightarrow> 'b go" where
  "bind_go (Ok x) f = f x"
| "bind_go (Err e) f = Err e"
| "bind_go Panic f = Panic"

lemma bind_go_Ok_iff: "bind_go r f = Ok y \<longleftrightarrow> (\<exists>x. r = Ok x \<and> f x = Ok y)"
  by (cases r) auto

section \<open>Machine integers\<close>

text \<open>
  \<^verbatim>\<open>int64\<close> and \<^verbatim>\<open>int32\<close> values are kept as integers in range; \<open>wrap64\<close> is the wrap-around
  of an \<^verbatim>\<open>int64\<close> operation, \<open>uint64\<close> the conversion \<^verbatim>\<open>uint64(x)\<close>.
\<close>

definition wrap64 :: "int \<Rightarrow> int" where
  "wrap64 x = (x + 2 ^ 63) mod 2 ^ 64 - 2 ^ 63"

definition int64_range :: "int \<Rightarrow> bool" where
  "int64_range x \<longleftrightarrow> - (2 ^ 63) \<le> x \<and> x < 2 ^ 63"

definition uint64 :: "int \<Rightarrow> int" where
  "uint64 x = x mod 2 ^ 64"

lemma wrap64_id [simp]: "int64_range x \<Longrightarrow> wrap64 x = x"
  by (simp add: int64_range_def wrap64_def)

lemma wrap64_range [simp]: "int64_range (wrap64 x)"
  using pos_mod_bound [of "2 ^ 64 :: int" "x + 2 ^ 63"]
    pos_mod_sign [of "2 ^ 64 :: int" "x + 2 ^ 63"]
  by (simp add: int64_range_def wrap64_def)

lemma wrap64_uint64 [simp]: "wrap64 (uint64 x) = wrap64 x"
  by (simp add: wrap64_def uint64_def mod_simps)

section \<open>Little-endian words of \<^verbatim>\<open>encoding/binary\<close>\<close>

text \<open>\<^verbatim>\<open>binary.LittleEndian.PutUint64\<close> writes the low byte first; \<open>le_enc n\<close> writes \<open>n\<close> bytes.\<close>

fun le_enc :: "nat \<Rightarrow> int \<Rightarrow> bytes" where
  "le_enc 0 x = []"
| "le_enc (Suc n) x = char_of (x mod 256) # le_enc n (x div 256)"

fun le_dec :: "bytes \<Rightarrow> int" where
  "le_dec [] = 0"
| "le_dec (c # cs) = of_char c + 256 * le_dec cs"

lemma length_le_enc [simp]: "length (le_enc n x) = n"
  by (induction n arbitrary: x) auto

lemma le_dec_enc [go_laws]: "le_dec (le_enc n x) = x mod 256 ^ n"
proof (induction n arbitrary: x)
  case 0
  then show ?case by simp
next
  case (Suc n)
  with Suc show ?case
    by (simp add: zmod_zmult2_eq)
qed

definition PutUint64 :: "int \<Rightarrow> bytes" where
  "PutUint64 x = le_enc 8 x"

text \<open>\<^verbatim>\<open>Uint64\<close> reads the first 8 bytes and panics on a shorter slice.\<close>

definition Uint64 :: "bytes \<Rightarrow> int go" where
  "Uint64 b = (if length b < 8 then Panic else Ok (le_dec (take 8 b)))"

lemma Uint64_PutUint64 [go_laws]: "Uint64 (PutUint64 x) = Ok (uint64 x)"
  by (simp add: Uint64_def PutUint64_def le_dec_enc uint64_def)

section \<open>Decimal numbers\<close>

definition digit :: "nat \<Rightarrow> char" where
  "digit d = char_of (48 + d)"

definition digit_val :: "char \<Rightarrow> nat option" where
  "digit_val c = (let n = of_char c in if 48 \<le> n \<and> n \<le> 57 then Some (n - 48) else None)"

lemma digit_val_digit [simp]: "d < 10 \<Longrightarrow> digit_val (digit d) = Some d"
  by (simp add: digit_val_def digit_def Let_def)

fun nat_str :: "nat \<Rightarrow> string" where
  "nat_str n = (if n < 10 then [digit n] else nat_str (n div 10) @ [digit (n mod 10)])"

declare nat_str.simps [simp del]

text \<open>\<^verbatim>\<open>fmt.Sprintf("%d", i)\<close>\<close>

definition int_str :: "int \<Rightarrow> string" where
  "int_str i = (if i < 0 then CHR ''-'' # nat_str (nat (- i)) else nat_str (nat i))"

fun digits_acc :: "nat \<Rightarrow> string \<Rightarrow> nat option" where
  "digits_acc a [] = Some a"
| "digits_acc a (c # cs) =
     (case digit_val c of None \<Rightarrow> None | Some d \<Rightarrow> digits_acc (10 * a + d) cs)"

text \<open>
  \<^verbatim>\<open>strconv.ParseInt(s, 10, 64)\<close>: an optional sign, then at least one digit; a value out of
  range is an error (\<open>None\<close>).
\<close>

definition parse_sign :: "string \<Rightarrow> bool \<times> string" where
  "parse_sign s = (case s of
       [] \<Rightarrow> (False, [])
     | c # cs \<Rightarrow> if c = CHR ''-'' then (True, cs)
                else if c = CHR ''+'' then (False, cs) else (False, s))"

definition ParseInt :: "string \<Rightarrow> int option" where
  "ParseInt s = (case parse_sign s of (neg, ds) \<Rightarrow>
     if ds = [] then None
     else case digits_acc 0 ds of
       None \<Rightarrow> None
     | Some n \<Rightarrow>
         (let i = (if neg then - int n else int n)
          in if int64_range i then Some i else None))"

lemma nat_str_nonempty [simp]: "nat_str n \<noteq> []"
  by (subst nat_str.simps) simp

lemma digits_acc_append:
  "digits_acc a (xs @ ys) = (case digits_acc a xs of None \<Rightarrow> None | Some b \<Rightarrow> digits_acc b ys)"
  by (induction xs arbitrary: a) (auto split: option.splits)

lemma digits_acc_nat_str [go_laws]: "digits_acc 0 (nat_str n) = Some n"
proof (induction n rule: nat_str.induct)
  case (1 n)
  show ?case
  proof (cases "n < 10")
    case True
    then show ?thesis by (subst nat_str.simps) simp
  next
    case False
    with 1 have "digits_acc 0 (nat_str (n div 10)) = Some (n div 10)" by simp
    with False show ?thesis by (subst nat_str.simps) (simp add: digits_acc_append)
  qed
qed

lemma digit_chars: "d < 10 \<Longrightarrow> (of_char (digit d) :: nat) \<in> {48..57}"
  by (simp add: digit_def)

lemma nat_str_chars: "c \<in> set (nat_str n) \<Longrightarrow> (of_char c :: nat) \<in> {48..57}"
proof (induction n rule: nat_str.induct)
  case (1 n)
  show ?case
  proof (cases "n < 10")
    case True
    with 1 have "c = digit n" by (subst (asm) nat_str.simps) simp
    with True digit_chars show ?thesis by blast
  next
    case False
    with 1 have "c \<in> set (nat_str (n div 10)) \<or> c = digit (n mod 10)"
      by (subst (asm) (2) nat_str.simps) auto
    with False 1 digit_chars [of "n mod 10"] show ?thesis by auto
  qed
qed

lemma nat_str_notin [simp]:
  "CHR ''-'' \<notin> set (nat_str n)" "CHR ''.'' \<notin> set (nat_str n)" "CHR ''/'' \<notin> set (nat_str n)"
  "CHR ''+'' \<notin> set (nat_str n)"
  by (auto dest!: nat_str_chars)

lemma nat_str_inj: "nat_str m = nat_str n \<Longrightarrow> m = n"
  by (metis digits_acc_nat_str option.inject)

lemma parse_sign_nat_str [simp]: "parse_sign (nat_str n) = (False, nat_str n)"
proof (cases "nat_str n")
  case Nil
  then show ?thesis by simp
next
  case (Cons c cs)
  then have "c \<in> set (nat_str n)" by simp
  then have "c \<noteq> CHR ''-''" "c \<noteq> CHR ''+''" using nat_str_notin by metis+
  with Cons show ?thesis by (simp add: parse_sign_def)
qed

lemma ParseInt_int_str [go_laws]: "int64_range i \<Longrightarrow> ParseInt (int_str i) = Some i"
  by (auto simp: ParseInt_def int_str_def go_laws Let_def parse_sign_def [of "CHR ''-'' # _"])

lemma int_str_inj: "int_str i = int_str j \<Longrightarrow> i = j"
proof -
  have neq: "CHR ''-'' # nat_str a \<noteq> nat_str b" for a b
    using nat_str_notin(1) [of b] by (metis list.set_intros(1))
  assume "int_str i = int_str j"
  then show ?thesis
    by (auto simp: int_str_def neq neq [symmetric] split: if_splits dest!: nat_str_inj)
qed

section \<open>\<^verbatim>\<open>strings.Split\<close>\<close>

text \<open>\<open>cut sep s\<close> splits at the first occurrence of \<open>sep\<close>, as \<^verbatim>\<open>strings.Cut\<close> does.\<close>

fun cut :: "string \<Rightarrow> string \<Rightarrow> (string \<times> string) option" where
  "cut sep [] = (if sep = [] then Some ([], []) else None)"
| "cut sep (c # cs) =
     (if prefix sep (c # cs) then Some ([], drop (length sep) (c # cs))
      else map_option (\<lambda>(a, b). (c # a, b)) (cut sep cs))"

lemma cut_Some: "cut sep s = Some (a, b) \<Longrightarrow> s = a @ sep @ b"
proof (induction s arbitrary: a b)
  case Nil
  then show ?case by (simp split: if_splits)
next
  case (Cons c cs)
  then show ?case
    by (fastforce split: if_splits simp: prefix_def)
qed

function split_str :: "string \<Rightarrow> string \<Rightarrow> string list" where
  "split_str sep s =
     (if sep = [] then [s]
      else case cut sep s of None \<Rightarrow> [s] | Some (a, b) \<Rightarrow> a # split_str sep b)"
  by pat_completeness auto
termination
  by (relation "measure (\<lambda>(sep, s). length s)") (auto dest!: cut_Some)

declare split_str.simps [simp del]

lemma cut_byte_None: "c \<notin> set s \<Longrightarrow> cut [c] s = None"
  by (induction s) auto

lemma cut_byte_Some: "c \<notin> set s \<Longrightarrow> cut [c] (s @ c # t) = Some (s, t)"
  by (induction s) auto

lemma split_str_byte_none: "c \<notin> set s \<Longrightarrow> split_str [c] s = [s]"
  by (subst split_str.simps) (simp add: cut_byte_None)

lemma split_str_byte_some: "c \<notin> set s \<Longrightarrow> split_str [c] (s @ c # t) = s # split_str [c] t"
  by (subst split_str.simps) (simp add: cut_byte_Some)

lemma cut_byte_in: "c \<in> set s \<Longrightarrow> \<exists>a b. cut [c] s = Some (a, b)"
  by (induction s) auto

lemma length_split_byte: "length (split_str [c] s) = Suc (count_list s c)"
proof (induction s rule: length_induct)
  case (1 s)
  show ?case
  proof (cases "c \<in> set s")
    case False
    then show ?thesis by (simp add: split_str_byte_none count_list_0_iff)
  next
    case True
    then obtain a b where s: "s = a @ c # b" "c \<notin> set a"
      by (meson split_list_first)
    with 1 have "length (split_str [c] b) = Suc (count_list b c)" by simp
    with s show ?thesis by (simp add: split_str_byte_some count_list_0_iff)
  qed
qed

end
