(* ===== verification/Records.thy ===== *)
theory Records
  imports Prelude "HOL-Library.AList"
begin

text \<open>
  \<^verbatim>\<open>partitions/record.go\<close>, \<^verbatim>\<open>partitions/operation.go\<close> and \<^verbatim>\<open>partitions/if.go\<close>: the record
  types, their JSON forms, and the \<^verbatim>\<open>if\<close> statements. A JSON text is represented by the
  document it denotes; the struct-level behaviour of \<^verbatim>\<open>encoding/json\<close> that the code relies on
  (field names and tags, \<^verbatim>\<open>null\<close>, missing fields, type mismatches) is written out.
\<close>

section \<open>JSON documents\<close>

text \<open>
  \<open>JInt i\<close> is an integer literal, \<open>JDec m e\<close> a literal with a fraction or an exponent (the
  number \<open>m * 10 ^ e\<close>), \<open>JFloat m e\<close> the literal that \<^verbatim>\<open>encoding/json\<close> writes for the
  \<^verbatim>\<open>float64\<close> \<open>m * 2 ^ e\<close>, which is read back as the same \<^verbatim>\<open>float64\<close>. \<open>JTime t\<close> is the string
  that \<^verbatim>\<open>time.Time\<close>'s \<^verbatim>\<open>MarshalJSON\<close> writes for the instant \<open>t\<close> (Unix milliseconds: every time
  the program stores comes from \<^verbatim>\<open>time.UnixMilli\<close>). A \<open>wire\<close> value is what is stored in the
  database or sent through the log: a text that denotes a document, or other bytes.
\<close>

datatype json =
    JNull | JBool bool | JInt int | JDec int int | JFloat int int | JStr string | JTime int
  | JArr "json list" | JObj "(string \<times> json) list"

datatype wire = Doc json | Raw bytes

text \<open>A Go \<^verbatim>\<open>map[string]any\<close>: \<open>None\<close> is the nil map.\<close>

type_synonym data = "(string \<times> json) list option"

text \<open>The key of an object member selects a field by its name, ignoring case.\<close>

definition lower :: "char \<Rightarrow> char" where
  "lower c = (let n = of_char c :: nat in if 65 \<le> n \<and> n \<le> 90 then char_of (n + 32) else c)"

definition same_key :: "string \<Rightarrow> string \<Rightarrow> bool" where
  "same_key a b \<longleftrightarrow> map lower a = map lower b"

text \<open>
  Decoding one JSON value into a field that already holds a value: \<^verbatim>\<open>null\<close> leaves a string,
  a number or a time alone and makes a map or a pointer nil; an object is merged into a map.
\<close>

fun dec_string :: "json \<Rightarrow> string \<Rightarrow> string go" where
  "dec_string (JStr s) _ = Ok s"
| "dec_string JNull old = Ok old"
| "dec_string _ _ = Err JSONError"

fun dec_string_ptr :: "json \<Rightarrow> string option \<Rightarrow> string option go" where
  "dec_string_ptr (JStr s) _ = Ok (Some s)"
| "dec_string_ptr JNull _ = Ok None"
| "dec_string_ptr _ _ = Err JSONError"

fun dec_int64 :: "json \<Rightarrow> int \<Rightarrow> int go" where
  "dec_int64 (JInt i) _ = (if int64_range i then Ok i else Err JSONError)"
| "dec_int64 (JFloat m e) _ =
     (let n = (if 0 \<le> e then m * 2 ^ nat e else m div 2 ^ nat (- e))
      in if (0 \<le> e \<or> n * 2 ^ nat (- e) = m) \<and> int64_range n then Ok n else Err JSONError)"
| "dec_int64 JNull old = Ok old"
| "dec_int64 _ _ = Err JSONError"

fun dec_time :: "json \<Rightarrow> int \<Rightarrow> int go" where
  "dec_time (JTime t) _ = Ok t"
| "dec_time JNull old = Ok old"
| "dec_time _ _ = Err JSONError"

text \<open>
  In a \<^verbatim>\<open>map[string]any\<close> every number is a \<^verbatim>\<open>float64\<close>: the one nearest to the literal, an even
  significand deciding a tie; a literal that is too large is an error. \<open>float64 p q\<close> is this
  for the number \<open>p / q\<close>: 53 bits of significand, and no exponent below that of the smallest
  subnormal number.
\<close>

fun bitlen :: "nat \<Rightarrow> nat" where
  "bitlen n = (if n = 0 then 0 else Suc (bitlen (n div 2)))"

declare bitlen.simps [simp del]

definition div_even :: "nat \<Rightarrow> nat \<Rightarrow> nat" where
  "div_even p q = (let k = p div q; r = p mod q in if q < 2 * r \<or> (2 * r = q \<and> odd k) then k + 1 else k)"

definition float64 :: "nat \<Rightarrow> nat \<Rightarrow> (nat \<times> int) option" where
  "float64 p q =
     (if p = 0 then Some (0, 0)
      else
        (let k = int (bitlen p) - int (bitlen q);
             log = (if (if 0 \<le> k then q * 2 ^ nat k \<le> p else q \<le> p * 2 ^ nat (- k)) then k else k - 1);
             e = max (log - 52) (- 1074);
             m = (if 0 \<le> e then div_even p (q * 2 ^ nat e) else div_even (p * 2 ^ nat (- e)) q)
         in if 0 \<le> e \<and> 2 ^ 1024 \<le> m * 2 ^ nat e then None else Some (m, e)))"

definition dec_number :: "int \<Rightarrow> int \<Rightarrow> json go" where
  "dec_number m e =
     (case (if 0 \<le> e then float64 (nat \<bar>m\<bar> * 10 ^ nat e) 1 else float64 (nat \<bar>m\<bar>) (10 ^ nat (- e))) of
        None \<Rightarrow> Err JSONError
      | Some (n, k) \<Rightarrow> Ok (JFloat (if m < 0 then - int n else int n) k))"

text \<open>
  Decoding a value of any type. Of two members of an object with the same key the later one
  stays.
\<close>

fun dec_any :: "json \<Rightarrow> json go"
  and dec_anys :: "json list \<Rightarrow> json list go"
  and dec_anymap :: "(string \<times> json) list \<Rightarrow> (string \<times> json) list \<Rightarrow> (string \<times> json) list go" where
  "dec_any (JInt i) = dec_number i 0"
| "dec_any (JDec m e) = dec_number m e"
| "dec_any (JArr js) = bind_go (dec_anys js) (\<lambda>js. Ok (JArr js))"
| "dec_any (JObj kvs) = bind_go (dec_anymap kvs []) (\<lambda>m. Ok (JObj m))"
| "dec_any JNull = Ok JNull"
| "dec_any (JBool b) = Ok (JBool b)"
| "dec_any (JFloat m e) = Ok (JFloat m e)"
| "dec_any (JStr s) = Ok (JStr s)"
| "dec_any (JTime t) = Ok (JTime t)"
| "dec_anys [] = Ok []"
| "dec_anys (j # js) = bind_go (dec_any j) (\<lambda>j. bind_go (dec_anys js) (\<lambda>js. Ok (j # js)))"
| "dec_anymap [] m = Ok m"
| "dec_anymap ((k, v) # kvs) m = bind_go (dec_any v) (\<lambda>v. dec_anymap kvs (AList.update k v m))"

fun dec_data :: "json \<Rightarrow> data \<Rightarrow> data go" where
  "dec_data (JObj kvs) old =
     bind_go (dec_anymap kvs (case old of None \<Rightarrow> [] | Some m \<Rightarrow> m)) (\<lambda>m. Ok (Some m))"
| "dec_data JNull _ = Ok None"
| "dec_data _ _ = Err JSONError"

fun enc_data :: "data \<Rightarrow> json" where
  "enc_data None = JNull"
| "enc_data (Some kvs) = JObj kvs"

text \<open>
  The members of an object are decoded in order by the function \<open>field\<close>, which knows the
  struct; a \<^verbatim>\<open>null\<close> document leaves the struct as it is.
\<close>

fun dec_members :: "(string \<Rightarrow> json \<Rightarrow> 'a \<Rightarrow> 'a go) \<Rightarrow> (string \<times> json) list \<Rightarrow> 'a \<Rightarrow> 'a go" where
  "dec_members field [] x = Ok x"
| "dec_members field ((k, v) # kvs) x = bind_go (field k v x) (dec_members field kvs)"

fun dec_struct :: "(string \<Rightarrow> json \<Rightarrow> 'a \<Rightarrow> 'a go) \<Rightarrow> wire \<Rightarrow> 'a \<Rightarrow> 'a go" where
  "dec_struct field (Doc (JObj kvs)) x = dec_members field kvs x"
| "dec_struct field (Doc JNull) x = Ok x"
| "dec_struct field _ x = Err JSONError"

section \<open>Record types\<close>

record RecordKey =
  Pk :: string
  Sk :: string

record StoredRecord =
  Data :: data
  CreatedAt :: int
  UpdatedAt :: int

record Record =
  r_Pk :: string
  r_Sk :: string
  r_Data :: data
  r_CreatedAt :: int
  r_UpdatedAt :: int

record RecordMutation =
  m_Pk :: string
  m_Sk :: string
  m_Data :: data
  m_TsMs :: int
  m_Mutation :: string
  m_If :: "string option"

record RecordWithError =
  e_Pk :: string
  e_Sk :: string
  e_Data :: data
  e_CreatedAt :: int
  e_UpdatedAt :: int
  e_Error :: string

text \<open>The zero values; the zero \<^verbatim>\<open>time.Time\<close> is 1 January of the year 1.\<close>

definition zero_time :: int where "zero_time = - 62135596800000"

definition zero_StoredRecord :: StoredRecord where
  "zero_StoredRecord = \<lparr>Data = None, CreatedAt = zero_time, UpdatedAt = zero_time\<rparr>"

definition zero_RecordMutation :: RecordMutation where
  "zero_RecordMutation = \<lparr>m_Pk = [], m_Sk = [], m_Data = None, m_TsMs = 0, m_Mutation = [], m_If = None\<rparr>"

definition OperationPut :: string where "OperationPut = ''put''"
definition OperationGet :: string where "OperationGet = ''get''"
definition OperationDelete :: string where "OperationDelete = ''delete''"
definition OperationList :: string where "OperationList = ''list''"
definition OperationBatch :: string where "OperationBatch = ''batch''"

lemmas operation_defs = OperationPut_def OperationGet_def OperationDelete_def
  OperationList_def OperationBatch_def

definition Record_of :: "StoredRecord \<Rightarrow> string \<Rightarrow> string \<Rightarrow> Record" where
  "Record_of sr pk sk = \<lparr>r_Pk = pk, r_Sk = sk, r_Data = Data sr,
     r_CreatedAt = CreatedAt sr, r_UpdatedAt = UpdatedAt sr\<rparr>"

definition StoredRecord_of :: "Record \<Rightarrow> StoredRecord" where
  "StoredRecord_of r = \<lparr>Data = r_Data r, CreatedAt = r_CreatedAt r, UpdatedAt = r_UpdatedAt r\<rparr>"

definition WithErr :: "Record \<Rightarrow> string option \<Rightarrow> RecordWithError" where
  "WithErr r err = \<lparr>e_Pk = r_Pk r, e_Sk = r_Sk r, e_Data = r_Data r,
     e_CreatedAt = r_CreatedAt r, e_UpdatedAt = r_UpdatedAt r,
     e_Error = (case err of None \<Rightarrow> [] | Some s \<Rightarrow> s)\<rparr>"

section \<open>Serialisation\<close>

text \<open>
  \<^verbatim>\<open>json.Marshal\<close> of a \<^verbatim>\<open>time.Time\<close> fails for a year outside 0 .. 9999 (in UTC here), and
  \<^verbatim>\<open>MustSerialize\<close> turns the failure into a panic.
\<close>

definition time_ok :: "int \<Rightarrow> bool" where
  "time_ok t \<longleftrightarrow> - 62167219200000 \<le> t \<and> t \<le> 253402300799999"

definition marshal_StoredRecord :: "StoredRecord \<Rightarrow> wire go" where
  "marshal_StoredRecord sr =
     (if time_ok (CreatedAt sr) \<and> time_ok (UpdatedAt sr)
      then Ok (Doc (JObj [(''Data'', enc_data (Data sr)),
                          (''CreatedAt'', JTime (CreatedAt sr)),
                          (''UpdatedAt'', JTime (UpdatedAt sr))]))
      else Err JSONError)"

definition MustSerialize :: "StoredRecord \<Rightarrow> wire go" where
  "MustSerialize sr = (case marshal_StoredRecord sr of Err _ \<Rightarrow> Panic | r \<Rightarrow> r)"

definition StoredRecord_field :: "string \<Rightarrow> json \<Rightarrow> StoredRecord \<Rightarrow> StoredRecord go" where
  "StoredRecord_field k v sr =
     (if same_key k ''Data'' then bind_go (dec_data v (Data sr)) (\<lambda>d. Ok (sr\<lparr>Data := d\<rparr>))
      else if same_key k ''CreatedAt''
        then bind_go (dec_time v (CreatedAt sr)) (\<lambda>t. Ok (sr\<lparr>CreatedAt := t\<rparr>))
      else if same_key k ''UpdatedAt''
        then bind_go (dec_time v (UpdatedAt sr)) (\<lambda>t. Ok (sr\<lparr>UpdatedAt := t\<rparr>))
      else Ok sr)"

definition unmarshal_StoredRecord :: "wire \<Rightarrow> StoredRecord \<Rightarrow> StoredRecord go" where
  "unmarshal_StoredRecord w sr = dec_struct StoredRecord_field w sr"

definition marshal_RecordMutation :: "RecordMutation \<Rightarrow> wire" where
  "marshal_RecordMutation m =
     Doc (JObj [(''pk'', JStr (m_Pk m)), (''sk'', JStr (m_Sk m)), (''data'', enc_data (m_Data m)),
                (''ts_ms'', JInt (m_TsMs m)), (''mutation'', JStr (m_Mutation m)),
                (''if'', (case m_If m of None \<Rightarrow> JNull | Some s \<Rightarrow> JStr s))])"

definition RecordMutation_field :: "string \<Rightarrow> json \<Rightarrow> RecordMutation \<Rightarrow> RecordMutation go" where
  "RecordMutation_field k v m =
     (if same_key k ''pk'' then bind_go (dec_string v (m_Pk m)) (\<lambda>x. Ok (m\<lparr>m_Pk := x\<rparr>))
      else if same_key k ''sk'' then bind_go (dec_string v (m_Sk m)) (\<lambda>x. Ok (m\<lparr>m_Sk := x\<rparr>))
      else if same_key k ''data'' then bind_go (dec_data v (m_Data m)) (\<lambda>x. Ok (m\<lparr>m_Data := x\<rparr>))
      else if same_key k ''ts_ms'' then bind_go (dec_int64 v (m_TsMs m)) (\<lambda>x. Ok (m\<lparr>m_TsMs := x\<rparr>))
      else if same_key k ''mutation''
        then bind_go (dec_string v (m_Mutation m)) (\<lambda>x. Ok (m\<lparr>m_Mutation := x\<rparr>))
      else if same_key k ''if'' then bind_go (dec_string_ptr v (m_If m)) (\<lambda>x. Ok (m\<lparr>m_If := x\<rparr>))
      else Ok m)"

definition unmarshal_RecordMutation :: "wire \<Rightarrow> RecordMutation \<Rightarrow> RecordMutation go" where
  "unmarshal_RecordMutation w m = dec_struct RecordMutation_field w m"

section \<open>The \<^verbatim>\<open>if\<close> statements\<close>

text \<open>
  The expression library (\<^verbatim>\<open>antonmedv/expr\<close>) is a parameter: \<open>ex_compile\<close> is \<^verbatim>\<open>expr.Compile\<close>,
  \<open>ex_run\<close> is \<^verbatim>\<open>expr.Run\<close>. The options give the variables with the types of the example values
  (\<open>CInt\<close> is a Go \<^verbatim>\<open>int\<close>), allow others, and ask for a boolean. A \<^verbatim>\<open>compareRecord\<close> is the map of the
  five keys; a program's output is any Go value, of which only the boolean ones pass the
  assertion \<^verbatim>\<open>output.(bool)\<close>.
\<close>

datatype cval = CString string | CData data | CInt64 int | CInt int

type_synonym compareRecord = "(string \<times> cval) list"

datatype go_value = OBool bool | OOther json

datatype expr_option = Env compareRecord | AllowUndefinedVariables | AsBool

record 'prog expr_lib =
  ex_compile :: "string \<Rightarrow> expr_option list \<Rightarrow> go_error + 'prog"
  ex_run :: "'prog \<Rightarrow> compareRecord \<Rightarrow> go_error + go_value"

definition testExprEnv :: expr_option where
  "testExprEnv = Env [(''pk'', CString []), (''sk'', CString []), (''data'', CData (Some [])),
     (''_updated_at'', CInt 0), (''_created_at'', CInt 0)]"

definition exprOpts :: "expr_option list" where
  "exprOpts = [testExprEnv, AllowUndefinedVariables, AsBool]"

definition ToCompareRecord :: "StoredRecord \<Rightarrow> string \<Rightarrow> string \<Rightarrow> compareRecord" where
  "ToCompareRecord sr pk sk =
     [(''pk'', CString pk), (''sk'', CString sk), (''data'', CData (Data sr)),
      (''_created_at'', CInt64 (CreatedAt sr)), (''_updated_at'', CInt64 (UpdatedAt sr))]"

definition VerifyIfStatement :: "'prog expr_lib \<Rightarrow> string \<Rightarrow> go_error option" where
  "VerifyIfStatement X statement =
     (case ex_compile X statement exprOpts of Inl e \<Rightarrow> Some e | Inr _ \<Rightarrow> None)"

definition CompareIfStatement :: "'prog expr_lib \<Rightarrow> string \<Rightarrow> compareRecord \<Rightarrow> bool go" where
  "CompareIfStatement X statement cmpr =
     (case ex_compile X statement exprOpts of
        Inl e \<Rightarrow> Err e
      | Inr program \<Rightarrow>
          (case ex_run X program cmpr of
             Inl e \<Rightarrow> Err e
           | Inr (OBool b) \<Rightarrow> Ok b
           | Inr (OOther _) \<Rightarrow> Panic))"

text \<open>The variables that a statement is compiled with are the keys of every record it runs on.\<close>

lemma testExprEnv_keys:
  "testExprEnv = Env vars \<Longrightarrow> set (map fst (ToCompareRecord sr pk sk)) = set (map fst vars)"
  by (auto simp: testExprEnv_def ToCompareRecord_def)

text \<open>A statement that is absent always applies.\<close>

definition check_if :: "'prog expr_lib \<Rightarrow> string option \<Rightarrow> compareRecord \<Rightarrow> bool go" where
  "check_if X ifStmt cmpr =
     (case ifStmt of None \<Rightarrow> Ok True | Some s \<Rightarrow> CompareIfStatement X s cmpr)"

section \<open>Round trips\<close>

text \<open>
  What a decoded value looks like: its objects have no duplicate keys, its numbers are
  \<^verbatim>\<open>float64\<close>s. Decoding leaves such a value as it is.
\<close>

fun any_ok :: "json \<Rightarrow> bool" where
  "any_ok (JInt i) = False"
| "any_ok (JDec m e) = False"
| "any_ok (JArr js) = (\<forall>j \<in> set js. any_ok j)"
| "any_ok (JObj kvs) = (distinct (map fst kvs) \<and> (\<forall>kv \<in> set kvs. any_ok (snd kv)))"
| "any_ok _ = True"

definition data_ok :: "data \<Rightarrow> bool" where
  "data_ok d \<longleftrightarrow> (case d of None \<Rightarrow> True | Some m \<Rightarrow> any_ok (JObj m))"

lemma update_fresh: "k \<notin> fst ` set m \<Longrightarrow> AList.update k v m = m @ [(k, v)]"
  by (induction m) auto

lemma dec_any_id:
  "any_ok j \<Longrightarrow> dec_any j = Ok j"
  "\<forall>j \<in> set js. any_ok j \<Longrightarrow> dec_anys js = Ok js"
  "distinct (map fst (m @ kvs)) \<Longrightarrow> \<forall>kv \<in> set kvs. any_ok (snd kv) \<Longrightarrow> dec_anymap kvs m = Ok (m @ kvs)"
  by (induction j and js and kvs m rule: dec_any_dec_anys_dec_anymap.induct)
    (auto simp: update_fresh)

lemma AList_update_set: "set (AList.update k v m) \<subseteq> insert (k, v) (set m)"
  by (induction m) auto

lemma dec_number_ok: "dec_number m e = Ok j \<Longrightarrow> any_ok j"
  by (auto simp: dec_number_def split: option.splits prod.splits)

lemma dec_any_ok:
  "dec_any j = Ok j' \<Longrightarrow> any_ok j'"
  "dec_anys js = Ok js' \<Longrightarrow> \<forall>j \<in> set js'. any_ok j"
  "dec_anymap kvs m = Ok m' \<Longrightarrow> any_ok (JObj m) \<Longrightarrow> any_ok (JObj m')"
proof (induction j and js and kvs m arbitrary: j' and js' and m' rule: dec_any_dec_anys_dec_anymap.induct)
  case (13 k v kvs m)
  from 13(3) obtain v' where v': "dec_any v = Ok v'" "dec_anymap kvs (AList.update k v' m) = Ok m'"
    by (auto simp: bind_go_Ok_iff)
  have "any_ok (JObj (AList.update k v' m))"
    using 13(4) 13(1) [OF v'(1)] AList_update_set [of k v' m] by (auto simp: distinct_update)
  with 13(2) [OF v'(2)] show ?case by blast
qed (auto simp: bind_go_Ok_iff dest: dec_number_ok)

lemma dec_enc_data [go_laws]: "data_ok d \<Longrightarrow> dec_data (enc_data d) None = Ok d"
  by (cases d) (auto simp: data_ok_def dec_any_id(3) [of "[]", simplified])

lemma data_ok_dec: "dec_data v d = Ok d' \<Longrightarrow> data_ok d \<Longrightarrow> data_ok d'"
proof (cases v)
  case (JObj kvs)
  assume "dec_data v d = Ok d'" and d: "data_ok d"
  with JObj obtain m where m: "dec_anymap kvs (case d of None \<Rightarrow> [] | Some m \<Rightarrow> m) = Ok m" "d' = Some m"
    by (auto simp: bind_go_Ok_iff)
  moreover have "any_ok (JObj (case d of None \<Rightarrow> [] | Some m \<Rightarrow> m))"
    using d by (auto simp: data_ok_def split: option.splits)
  ultimately show ?thesis using dec_any_ok(3) by (simp add: data_ok_def del: any_ok.simps)
qed (auto simp: data_ok_def)

lemma same_keys [simp]:
  "same_key ''Data'' ''Data''" "same_key ''CreatedAt'' ''CreatedAt''"
  "same_key ''UpdatedAt'' ''UpdatedAt''"
  "\<not> same_key ''CreatedAt'' ''Data''" "\<not> same_key ''UpdatedAt'' ''Data''"
  "\<not> same_key ''UpdatedAt'' ''CreatedAt''"
  by (simp_all add: same_key_def lower_def Let_def)

lemma unmarshal_marshal_StoredRecord [go_laws]:
  assumes "marshal_StoredRecord sr = Ok w" and "data_ok (Data sr)"
  shows "unmarshal_StoredRecord w zero_StoredRecord = Ok sr"
  using assms
  by (auto simp: marshal_StoredRecord_def unmarshal_StoredRecord_def StoredRecord_field_def
      zero_StoredRecord_def go_laws split: if_splits)

lemma same_keys_mutation [simp]:
  "same_key ''pk'' ''pk''" "same_key ''sk'' ''sk''" "same_key ''data'' ''data''"
  "same_key ''ts_ms'' ''ts_ms''" "same_key ''mutation'' ''mutation''" "same_key ''if'' ''if''"
  "\<not> same_key ''sk'' ''pk''" "\<not> same_key ''data'' ''pk''" "\<not> same_key ''ts_ms'' ''pk''"
  "\<not> same_key ''mutation'' ''pk''" "\<not> same_key ''if'' ''pk''"
  "\<not> same_key ''data'' ''sk''" "\<not> same_key ''ts_ms'' ''sk''" "\<not> same_key ''mutation'' ''sk''"
  "\<not> same_key ''if'' ''sk''"
  "\<not> same_key ''ts_ms'' ''data''" "\<not> same_key ''mutation'' ''data''" "\<not> same_key ''if'' ''data''"
  "\<not> same_key ''mutation'' ''ts_ms''" "\<not> same_key ''if'' ''ts_ms''"
  "\<not> same_key ''if'' ''mutation''"
  by (simp_all add: same_key_def lower_def Let_def)

lemma unmarshal_marshal_RecordMutation [go_laws]:
  assumes "data_ok (m_Data m)" and "int64_range (m_TsMs m)"
  shows "unmarshal_RecordMutation (marshal_RecordMutation m) zero_RecordMutation = Ok m"
  using assms
  by (auto simp: marshal_RecordMutation_def unmarshal_RecordMutation_def RecordMutation_field_def
      zero_RecordMutation_def go_laws split: option.splits)

text \<open>What every field keeps holds of a decoded struct.\<close>

lemma dec_members_keeps:
  assumes "\<And>k v x y. field k v x = Ok y \<Longrightarrow> P x \<Longrightarrow> P y"
  shows "dec_members field kvs x = Ok y \<Longrightarrow> P x \<Longrightarrow> P y"
proof (induction kvs arbitrary: x)
  case (Cons kv kvs)
  then show ?case using assms by (cases kv) (fastforce simp: bind_go_Ok_iff)
qed simp

lemma dec_struct_keeps:
  assumes "\<And>k v x y. field k v x = Ok y \<Longrightarrow> P x \<Longrightarrow> P y" and "dec_struct field w x = Ok y" and "P x"
  shows "P y"
  using assms(2,3) dec_members_keeps [of field P, OF assms(1)]
  by (cases "(field, w, x)" rule: dec_struct.cases) auto

lemma RecordMutation_field_data:
  "RecordMutation_field k v m = Ok m' \<Longrightarrow> data_ok (m_Data m) \<Longrightarrow> data_ok (m_Data m')"
  by (auto simp: RecordMutation_field_def bind_go_Ok_iff split: if_splits dest: data_ok_dec)

lemma StoredRecord_of_Record [simp]: "StoredRecord_of (Record_of sr pk sk) = sr"
  by (simp add: StoredRecord_of_def Record_of_def)

lemma Record_of_inject: "Record_of a p s = Record_of b p' s' \<longleftrightarrow> a = b \<and> p = p' \<and> s = s'"
  by (cases a; cases b) (auto simp: Record_of_def)

lemma marshal_StoredRecord_cases:
  "time_ok (CreatedAt sr) \<Longrightarrow> time_ok (UpdatedAt sr) \<Longrightarrow> \<exists>w. MustSerialize sr = Ok w \<and> marshal_StoredRecord sr = Ok w"
  by (simp add: MustSerialize_def marshal_StoredRecord_def)

end
