(* ===== verification/Badger.thy ===== *)
theory Badger
  imports Records
begin

text \<open>
  The interface of the embedded store (\<^verbatim>\<open>dgraph-io/badger\<close>) as the partitions use it. The
  store is a parameter of the model: a record of the calls the code makes. The locale
  \<open>badger\<close> states the documented behaviour of the calls that succeed, \<open>badger_reliable\<close> that
  none fails. A reference store (an association list) shows that the laws can hold.
\<close>

section \<open>The calls\<close>

text \<open>
  \<^verbatim>\<open>txn.Get\<close> finds no key, fails, or returns an item whose \<^verbatim>\<open>ValueCopy\<close> may fail in turn.
\<close>

datatype item = NotFound | GetErr go_error | Item "go_error + wire"

text \<open>
  \<open>b_begin\<close> is the start of \<^verbatim>\<open>DB.View\<close> and \<^verbatim>\<open>DB.Update\<close> (which may refuse, or hand over a
  nil transaction: the code tests for it), \<open>b_seek txn key\<close> lists what an iterator visits
  from \<^verbatim>\<open>it.Seek(key)\<close> to the end, \<open>b_commit\<close> is the commit that ends \<^verbatim>\<open>DB.Update\<close>.
\<close>

record ('db, 'txn) badger_api =
  b_begin :: "'db \<Rightarrow> go_error + 'txn option"
  b_get :: "'txn \<Rightarrow> bytes \<Rightarrow> item"
  b_set :: "'txn \<Rightarrow> bytes \<Rightarrow> wire \<Rightarrow> go_error + 'txn"
  b_delete :: "'txn \<Rightarrow> bytes \<Rightarrow> go_error + 'txn"
  b_seek :: "'txn \<Rightarrow> bytes \<Rightarrow> (bytes \<times> (go_error + wire)) list"
  b_commit :: "'db \<Rightarrow> 'txn \<Rightarrow> go_error + 'db"

section \<open>The documented behaviour\<close>

locale badger =
  fixes B :: "('db, 'txn) badger_api"
    and db_map :: "'db \<Rightarrow> bytes \<Rightarrow> wire option"
    and txn_map :: "'txn \<Rightarrow> bytes \<Rightarrow> wire option"
  assumes finite_txn: "finite (dom (txn_map t))"
    and begin_map: "b_begin B d = Inr (Some t) \<Longrightarrow> txn_map t = db_map d"
    and get_missing: "b_get B t k = NotFound \<Longrightarrow> txn_map t k = None"
    and get_found: "b_get B t k = Item (Inr v) \<Longrightarrow> txn_map t k = Some v"
    and set_map: "b_set B t k v = Inr t' \<Longrightarrow> txn_map t' = (txn_map t)(k \<mapsto> v)"
    and delete_map: "b_delete B t k = Inr t' \<Longrightarrow> txn_map t' = (txn_map t)(k := None)"
    and seek_keys: "map fst (b_seek B t k) = sorted_list_of_set {k' \<in> dom (txn_map t). k \<le> k'}"
    and seek_value: "(k', Inr v) \<in> set (b_seek B t k) \<Longrightarrow> txn_map t k' = Some v"
    and commit_map: "b_begin B d = Inr (Some t0) \<Longrightarrow> b_commit B d t = Inr d' \<Longrightarrow> db_map d' = txn_map t"

locale badger_reliable = badger +
  assumes begin_ok: "\<exists>t. b_begin B d = Inr (Some t)"
    and get_ok: "b_get B t k = NotFound \<or> (\<exists>v. b_get B t k = Item (Inr v))"
    and set_ok: "\<exists>t'. b_set B t k v = Inr t'"
    and delete_ok: "\<exists>t'. b_delete B t k = Inr t'"
    and seek_ok: "(k', r) \<in> set (b_seek B t k) \<Longrightarrow> \<exists>v. r = Inr v"
    and commit_ok: "b_begin B d = Inr (Some t0) \<Longrightarrow> \<exists>d'. b_commit B d t = Inr d'"
begin

lemma get_eq: "b_get B t k = (case txn_map t k of None \<Rightarrow> NotFound | Some v \<Rightarrow> Item (Inr v))"
  using get_ok [of t k] get_missing get_found by (force split: option.splits)

lemma begin_cases:
  obtains t where "b_begin B d = Inr (Some t)" and "txn_map t = db_map d"
  using begin_ok begin_map by blast

lemma set_cases:
  obtains t' where "b_set B t k v = Inr t'" and "txn_map t' = (txn_map t)(k \<mapsto> v)"
  using set_ok set_map by blast

lemma delete_cases:
  obtains t' where "b_delete B t k = Inr t'" and "txn_map t' = (txn_map t)(k := None)"
  using delete_ok delete_map by blast

lemma commit_cases:
  assumes "b_begin B d = Inr (Some t0)"
  obtains d' where "b_commit B d t = Inr d'" and "db_map d' = txn_map t"
  using commit_ok [OF assms] commit_map [OF assms] by blast

lemma seek_eq:
  "b_seek B t k =
     map (\<lambda>k'. (k', Inr (the (txn_map t k')))) (sorted_list_of_set {k' \<in> dom (txn_map t). k \<le> k'})"
    (is "_ = map ?f ?ks")
proof (rule nth_equalityI)
  have len: "length (b_seek B t k) = length ?ks"
    using arg_cong [OF seek_keys [of t k], of length] by simp
  then show "length (b_seek B t k) = length (map ?f ?ks)" by simp
  fix i assume i: "i < length (b_seek B t k)"
  obtain k' r where kr: "b_seek B t k ! i = (k', r)" by fastforce
  with i have mem: "(k', r) \<in> set (b_seek B t k)" by (metis nth_mem)
  then obtain v where r: "r = Inr v" using seek_ok by blast
  with mem have "txn_map t k' = Some v" by (blast intro: seek_value)
  moreover have "k' = ?ks ! i"
    using arg_cong [OF seek_keys [of t k], of "\<lambda>xs. xs ! i"] i kr by simp
  ultimately show "b_seek B t k ! i = map ?f ?ks ! i"
    using i len kr r by simp
qed

end

section \<open>A reference store\<close>

type_synonym mem = "(bytes \<times> wire) list"

definition mem_seek :: "mem \<Rightarrow> bytes \<Rightarrow> (bytes \<times> (go_error + wire)) list" where
  "mem_seek m k = map (\<lambda>k'. (k', Inr (the (map_of m k'))))
     (sort (remdups (filter (\<lambda>k'. k \<le> k') (map fst m))))"

definition mem_badger :: "(mem, mem) badger_api" where
  "mem_badger = \<lparr>
     b_begin = (\<lambda>d. Inr (Some d)),
     b_get = (\<lambda>t k. case map_of t k of None \<Rightarrow> NotFound | Some v \<Rightarrow> Item (Inr v)),
     b_set = (\<lambda>t k v. Inr (AList.update k v t)),
     b_delete = (\<lambda>t k. Inr (AList.delete k t)),
     b_seek = mem_seek,
     b_commit = (\<lambda>d t. Inr t)\<rparr>"

lemma mem_badger_simps [simp]:
  "b_begin mem_badger d = Inr (Some d)"
  "b_get mem_badger t k = (case map_of t k of None \<Rightarrow> NotFound | Some v \<Rightarrow> Item (Inr v))"
  "b_set mem_badger t k v = Inr (AList.update k v t)"
  "b_delete mem_badger t k = Inr (AList.delete k t)"
  "b_seek mem_badger = mem_seek"
  "b_commit mem_badger d t = Inr t"
  by (simp_all add: mem_badger_def)

lemma mem_seek_keys:
  "map fst (mem_seek m k) = sorted_list_of_set {k' \<in> dom (map_of m). k \<le> k'}"
proof -
  have "map fst (mem_seek m k) = sort (remdups (filter (\<lambda>k'. k \<le> k') (map fst m)))"
    by (simp add: mem_seek_def o_def)
  also have "\<dots> = sorted_list_of_set (set (filter (\<lambda>k'. k \<le> k') (map fst m)))"
    by (rule sorted_list_of_set_sort_remdups [symmetric])
  also have "set (filter (\<lambda>k'. k \<le> k') (map fst m)) = {k' \<in> dom (map_of m). k \<le> k'}"
    by (auto simp: dom_map_of_conv_image_fst)
  finally show ?thesis .
qed

lemma mem_seek_value: "(k', Inr v) \<in> set (mem_seek m k) \<Longrightarrow> map_of m k' = Some v"
proof -
  assume "(k', Inr v) \<in> set (mem_seek m k)"
  then have "k' \<in> fst ` set m" and "v = the (map_of m k')"
    by (auto simp: mem_seek_def)
  then show ?thesis by (metis domD dom_map_of_conv_image_fst option.sel)
qed

lemma mem_seek_ok: "(k', r) \<in> set (mem_seek m k) \<Longrightarrow> \<exists>v. r = Inr v"
  by (auto simp: mem_seek_def)

interpretation mem: badger_reliable mem_badger map_of map_of
proof (unfold_locales, goal_cases)
  case (7 t k)
  then show ?case by (simp add: mem_seek_keys)
next
  case (8 k' v t k)
  then show ?case by (simp add: mem_seek_value)
next
  case (14 k' r t k)
  then show ?case by (simp add: mem_seek_ok)
qed (auto simp: finite_dom_map_of update_conv' delete_conv' split: option.splits)

end
