(* ===== verification/Keys.thy ===== *)
theory Keys
  imports Prelude
begin

text \<open>
  The storage keys of \<^verbatim>\<open>partitions/partition.go\<close> (\<^verbatim>\<open>pkToStorageKey\<close>, \<^verbatim>\<open>pkFromStorageKey\<close>,
  \<^verbatim>\<open>formatRecordKey\<close>, \<^verbatim>\<open>splitRecordKey\<close>), and the interface a range scan needs from them.
\<close>

section \<open>The key functions\<close>

definition KeyPrefix :: bytes where "KeyPrefix = ''~''"

definition LastOffsetKey :: bytes where "LastOffsetKey = ''last_offset''"

definition NUL :: char where "NUL = CHR 0x00"

definition pkToStorageKey :: "string \<Rightarrow> string" where
  "pkToStorageKey pk = KeyPrefix @ pk"

text \<open>\<^verbatim>\<open>storagePK[len(KeyPrefix):]\<close> panics on a string shorter than the prefix.\<close>

definition pkFromStorageKey :: "string \<Rightarrow> string go" where
  "pkFromStorageKey s = (if length s < length KeyPrefix then Panic else Ok (drop (length KeyPrefix) s))"

definition formatRecordKey :: "string \<Rightarrow> string \<Rightarrow> bytes" where
  "formatRecordKey pk sk = pkToStorageKey pk @ [NUL] @ sk"

definition splitRecordKey :: "bytes \<Rightarrow> (string \<times> string) go" where
  "splitRecordKey recordKey =
     (let parts = split_str [NUL] recordKey
      in if length parts \<noteq> 2 then Err ErrInvalidKey
         else bind_go (pkFromStorageKey (parts ! 0)) (\<lambda>pk. Ok (pk, parts ! 1)))"

definition no_nul :: "string \<Rightarrow> bool" where
  "no_nul s \<longleftrightarrow> NUL \<notin> set s"

lemmas key_defs = formatRecordKey_def pkToStorageKey_def KeyPrefix_def

section \<open>Lexicographic order and prefixes\<close>

lemma prefix_le: "prefix p k \<Longrightarrow> p \<le> k" for p k :: "'a::linorder list"
proof (induction p arbitrary: k)
  case (Cons a p)
  then show ?case by (cases k) auto
qed simp

lemma prefix_between:
  "p \<le> k \<Longrightarrow> k \<le> k' \<Longrightarrow> prefix p k' \<Longrightarrow> prefix p k" for p k k' :: "'a::linorder list"
proof (induction p arbitrary: k k')
  case (Cons a p)
  then show ?case by (cases k; cases k') (auto simp: order.order_iff_strict)
qed simp

lemma takeWhile_prefix_sorted:
  "sorted ks \<Longrightarrow> (\<And>k. k \<in> set ks \<Longrightarrow> p \<le> k) \<Longrightarrow> takeWhile (prefix p) ks = filter (prefix p) ks"
  for ks :: "'a::linorder list list"
proof (induction ks)
  case (Cons k ks)
  then have IH: "takeWhile (prefix p) ks = filter (prefix p) ks" by simp
  show ?case
  proof (cases "prefix p k")
    case False
    with Cons.prems have "\<not> prefix p k'" if "k' \<in> set ks" for k'
      using that prefix_between [of p k k'] by auto
    then have "filter (prefix p) ks = []" by (simp add: filter_empty_conv)
    with False show ?thesis by simp
  qed (simp add: IH)
qed simp

lemma filter_sorted_list_of_set:
  "finite A \<Longrightarrow> filter P (sorted_list_of_set A) = sorted_list_of_set {x \<in> A. P x}"
  by (rule sorted_distinct_set_unique) (auto intro: sorted_wrt_filter)

lemma map_sorted_list_of_set:
  assumes "finite A" and mono: "\<And>x y. x \<in> A \<Longrightarrow> y \<in> A \<Longrightarrow> f x \<le> f y \<longleftrightarrow> x \<le> y"
  shows "map f (sorted_list_of_set A) = sorted_list_of_set (f ` A)"
proof (rule sorted_distinct_set_unique)
  show "sorted (map f (sorted_list_of_set A))"
    using assms by (auto simp: sorted_map intro!: sorted_wrt_mono_rel [OF _ sorted_sorted_list_of_set])
  have "inj_on f A" by (rule inj_onI) (metis mono order.antisym order.refl)
  then show "distinct (map f (sorted_list_of_set A))"
    using assms(1) by (simp add: distinct_map)
qed (use assms(1) in auto)

section \<open>The interface of a range scan\<close>

text \<open>
  A scan from \<open>fmt pk p\<close> that stops at the first key without that prefix visits, in order,
  the sort keys of \<open>pk\<close> that start with \<open>p\<close>: the laws are that prefixes of keys are prefixes
  of the sort key under the same partition key, and that the order of keys is the order of
  sort keys.
\<close>

locale range_keys =
  fixes fmt :: "string \<Rightarrow> string \<Rightarrow> bytes" and pk_ok :: "string \<Rightarrow> bool"
  assumes fmt_prefix: "pk_ok pk \<Longrightarrow> pk_ok pk' \<Longrightarrow> prefix (fmt pk p) (fmt pk' sk) \<longleftrightarrow> pk = pk' \<and> prefix p sk"
    and fmt_mono: "fmt pk a \<le> fmt pk b \<longleftrightarrow> a \<le> b"
begin

lemma fmt_inject: "pk_ok pk \<Longrightarrow> pk_ok pk' \<Longrightarrow> fmt pk sk = fmt pk' sk' \<longleftrightarrow> pk = pk' \<and> sk = sk'"
  by (metis fmt_prefix prefix_order.antisym prefix_order.refl)

lemma scan:
  assumes fin: "finite D" and pk: "pk_ok pk"
    and user: "\<And>k. k \<in> D \<Longrightarrow> prefix (fmt pk p) k \<Longrightarrow> \<exists>pk' sk. pk_ok pk' \<and> k = fmt pk' sk"
  shows "takeWhile (prefix (fmt pk p)) (sorted_list_of_set {k \<in> D. fmt pk p \<le> k}) =
    map (fmt pk) (sorted_list_of_set {sk. fmt pk sk \<in> D \<and> prefix p sk})"
proof -
  let ?P = "prefix (fmt pk p)"
  let ?S = "{sk. fmt pk sk \<in> D \<and> prefix p sk}"
  have inj: "inj_on (fmt pk) ?S" using pk by (auto simp: inj_on_def fmt_inject)
  have S: "fmt pk ` ?S = {k \<in> D. ?P k}"
    using user pk fmt_prefix by fastforce
  then have "finite (fmt pk ` ?S)" using fin by simp
  then have finS: "finite ?S" using inj by (rule finite_imageD)
  have "takeWhile ?P (sorted_list_of_set {k \<in> D. fmt pk p \<le> k}) =
      filter ?P (sorted_list_of_set {k \<in> D. fmt pk p \<le> k})"
    by (rule takeWhile_prefix_sorted) (use fin in auto)
  also have "\<dots> = sorted_list_of_set {k \<in> D. ?P k}"
    using fin by (auto simp: filter_sorted_list_of_set dest: prefix_le intro: arg_cong [where f = sorted_list_of_set])
  also have "\<dots> = map (fmt pk) (sorted_list_of_set ?S)"
    using map_sorted_list_of_set [OF finS, of "fmt pk"] S fmt_mono by simp
  finally show ?thesis .
qed

end

section \<open>The key functions provide it\<close>

lemma eq_at_first:
  "x \<notin> set xs \<Longrightarrow> x \<notin> set ys \<Longrightarrow> xs @ x # as = ys @ x # bs \<longleftrightarrow> xs = ys \<and> as = bs"
proof (induction xs arbitrary: ys)
  case Nil
  then show ?case by (cases ys) auto
next
  case (Cons a xs)
  then show ?case by (cases ys) auto
qed

lemma formatRecordKey_inject:
  "no_nul pk \<Longrightarrow> no_nul pk' \<Longrightarrow> formatRecordKey pk sk = formatRecordKey pk' sk' \<longleftrightarrow> pk = pk' \<and> sk = sk'"
  by (auto simp: key_defs no_nul_def eq_at_first)

lemma formatRecordKey_prefix:
  assumes "no_nul pk" and "no_nul pk'"
  shows "prefix (formatRecordKey pk p) (formatRecordKey pk' sk) \<longleftrightarrow> pk = pk' \<and> prefix p sk"
proof
  assume "prefix (formatRecordKey pk p) (formatRecordKey pk' sk)"
  then obtain r where "formatRecordKey pk (p @ r) = formatRecordKey pk' sk"
    by (auto simp: prefix_def key_defs)
  with assms show "pk = pk' \<and> prefix p sk" by (auto simp: formatRecordKey_inject)
qed (auto simp: key_defs)

lemma append_le_iff: "xs @ a \<le> xs @ b \<longleftrightarrow> a \<le> b" for a b :: "'a::linorder list"
  by (induction xs) auto

interpretation keys: range_keys formatRecordKey no_nul
  by unfold_locales (simp_all add: formatRecordKey_prefix, simp add: key_defs append_le_iff)

lemma splitRecordKey_format:
  "splitRecordKey (formatRecordKey pk sk) =
     (if no_nul pk \<and> no_nul sk then Ok (pk, sk) else Err ErrInvalidKey)"
proof (cases "no_nul pk \<and> no_nul sk")
  case True
  then have "split_str [NUL] (formatRecordKey pk sk) = [pkToStorageKey pk, sk]"
    using split_str_byte_some [of NUL "pkToStorageKey pk" sk]
    by (simp add: formatRecordKey_def split_str_byte_none no_nul_def
        pkToStorageKey_def KeyPrefix_def NUL_def)
  with True show ?thesis
    by (simp add: splitRecordKey_def pkFromStorageKey_def pkToStorageKey_def)
next
  case False
  then have "count_list (formatRecordKey pk sk) NUL \<noteq> 1"
    by (auto simp: formatRecordKey_def no_nul_def pkToStorageKey_def count_list_0_iff)
  with False show ?thesis by (simp add: splitRecordKey_def length_split_byte Let_def)
qed

lemma LastOffsetKey_no_prefix [simp]: "\<not> prefix (formatRecordKey pk sk) LastOffsetKey"
  by (simp add: key_defs LastOffsetKey_def)

lemma LastOffsetKey_neq [simp]:
  "formatRecordKey pk sk \<noteq> LastOffsetKey" "LastOffsetKey \<noteq> formatRecordKey pk sk"
  by (simp_all add: key_defs LastOffsetKey_def)

end
