(* ===== verification/Partition.thy ===== *)
theory Partition
  imports Badger Keys
begin

text \<open>
  \<^verbatim>\<open>partitions/partition.go\<close>: a partition's data operations (\<^verbatim>\<open>ReadRecords\<close>, \<^verbatim>\<open>ListRecords\<close>,
  \<^verbatim>\<open>HandleMutation\<close> with \<^verbatim>\<open>handlePut\<close>, \<^verbatim>\<open>handleDelete\<close> and \<^verbatim>\<open>updateOffsetInTx\<close>), their abstract
  specification over a map of records, and the refinement between the two. The store is the
  parameter \<open>B\<close>, the expression library the parameter \<open>X\<close>.
\<close>

section \<open>State\<close>

record 'db Partition =
  ID :: int
  DB :: 'db
  LastOffset :: "int option"
  Namespace :: string

text \<open>
  \<^verbatim>\<open>DB.View\<close> runs a function on a transaction; \<^verbatim>\<open>DB.Update\<close> also commits it when the
  function returns no error, and drops it otherwise. The function may write the partition's
  fields: those writes stay.
\<close>

definition db_View :: "('db, 'txn) badger_api \<Rightarrow> 'db \<Rightarrow> ('txn option \<Rightarrow> 'a go) \<Rightarrow> 'a go" where
  "db_View B d f = (case b_begin B d of Inl e \<Rightarrow> Err e | Inr txn \<Rightarrow> f txn)"

definition db_Update :: "('db, 'txn) badger_api \<Rightarrow> 'db Partition \<Rightarrow>
    ('txn option \<Rightarrow> 'txn go \<times> 'db Partition) \<Rightarrow> unit go \<times> 'db Partition" where
  "db_Update B p f =
     (case b_begin B (DB p) of
        Inl e \<Rightarrow> (Err e, p)
      | Inr txn \<Rightarrow>
          (case f txn of
             (Err e, p') \<Rightarrow> (Err e, p')
           | (Panic, p') \<Rightarrow> (Panic, p')
           | (Ok txn', p') \<Rightarrow>
               (case b_commit B (DB p) txn' of
                  Inl e \<Rightarrow> (Err e, p')
                | Inr d \<Rightarrow> (Ok (), p'\<lparr>DB := d\<rparr>))))"

definition of_sum :: "go_error + 'a \<Rightarrow> 'a go" where
  "of_sum r = (case r of Inl e \<Rightarrow> Err e | Inr x \<Rightarrow> Ok x)"

section \<open>\<^verbatim>\<open>ReadRecords\<close>\<close>

fun read_loop :: "('db, 'txn) badger_api \<Rightarrow> 'txn option \<Rightarrow> RecordKey list \<Rightarrow> Record list \<Rightarrow> Record list go" where
  "read_loop B txn [] records = Ok records"
| "read_loop B txn (key # keys) records =
     (case txn of
        None \<Rightarrow> Err ErrTxnNil
      | Some t \<Rightarrow>
          (case b_get B t (formatRecordKey (Pk key) (Sk key)) of
             NotFound \<Rightarrow> read_loop B txn keys records
           | GetErr e \<Rightarrow> Err e
           | Item (Inl e) \<Rightarrow> Err e
           | Item (Inr b) \<Rightarrow>
               bind_go (unmarshal_StoredRecord b zero_StoredRecord) (\<lambda>sr.
                 read_loop B txn keys (records @ [Record_of sr (Pk key) (Sk key)]))))"

definition ReadRecords :: "('db, 'txn) badger_api \<Rightarrow> 'db Partition \<Rightarrow> RecordKey list \<Rightarrow> Record list go" where
  "ReadRecords B p keys = db_View B (DB p) (\<lambda>txn. read_loop B txn keys [])"

section \<open>\<^verbatim>\<open>ListRecords\<close>\<close>

text \<open>
  The loop \<^verbatim>\<open>for it.Seek(prefix); it.ValidForPrefix(prefix) && (limit == 0 || read < limit)\<close>
  over what the iterator visits.
\<close>

fun list_loop :: "'prog expr_lib \<Rightarrow> bytes \<Rightarrow> string \<Rightarrow> int \<Rightarrow> string option \<Rightarrow> bool \<Rightarrow>
    (bytes \<times> (go_error + wire)) list \<Rightarrow> int \<Rightarrow> Record list \<Rightarrow> Record list go" where
  "list_loop X pfx skPrefix limit ifStmt ifStop [] read records = Ok records"
| "list_loop X pfx skPrefix limit ifStmt ifStop ((k, v) # its) read records =
     (if prefix pfx k \<and> (limit = 0 \<or> read < limit) then
        bind_go (splitRecordKey k) (\<lambda>(pk, sk).
          if skPrefix = sk then list_loop X pfx skPrefix limit ifStmt ifStop its read records
          else bind_go (of_sum v) (\<lambda>b.
            bind_go (unmarshal_StoredRecord b zero_StoredRecord) (\<lambda>sr.
              bind_go (check_if X ifStmt (ToCompareRecord sr pk sk)) (\<lambda>should.
                if should then
                  list_loop X pfx skPrefix limit ifStmt ifStop its (read + 1)
                    (records @ [Record_of sr pk sk])
                else if ifStop then Ok records
                else list_loop X pfx skPrefix limit ifStmt ifStop its read records))))
      else Ok records)"

definition ListRecords :: "('db, 'txn) badger_api \<Rightarrow> 'prog expr_lib \<Rightarrow> 'db Partition \<Rightarrow> string \<Rightarrow> string \<Rightarrow>
    int \<Rightarrow> string option \<Rightarrow> bool \<Rightarrow> Record list go" where
  "ListRecords B X p pk skPrefix limit ifStmt ifStop =
     db_View B (DB p) (\<lambda>txn. case txn of
         None \<Rightarrow> Err ErrTxnNil
       | Some t \<Rightarrow>
           (let pfx = formatRecordKey pk skPrefix
            in list_loop X pfx skPrefix limit ifStmt ifStop (b_seek B t pfx) 0 []))"

section \<open>\<^verbatim>\<open>HandleMutation\<close>\<close>

text \<open>The offset is stored little-endian; \<^verbatim>\<open>p.LastOffset\<close> is set inside the transaction.\<close>

definition updateOffsetInTx :: "('db, 'txn) badger_api \<Rightarrow> 'db Partition \<Rightarrow> 'txn \<Rightarrow> int \<Rightarrow>
    'txn go \<times> 'db Partition" where
  "updateOffsetInTx B p txn offset =
     (case b_set B txn LastOffsetKey (Raw (PutUint64 (uint64 offset))) of
        Inl e \<Rightarrow> (Err e, p)
      | Inr txn' \<Rightarrow> (Ok txn', p\<lparr>LastOffset := Some offset\<rparr>))"

definition put_txn :: "('db, 'txn) badger_api \<Rightarrow> 'prog expr_lib \<Rightarrow> 'db Partition \<Rightarrow> string \<Rightarrow> string \<Rightarrow>
    string option \<Rightarrow> data \<Rightarrow> int \<Rightarrow> int \<Rightarrow> 'txn option \<Rightarrow> 'txn go \<times> 'db Partition" where
  "put_txn B X p pk sk ifStmt data offset n txn =
     (case txn of
        None \<Rightarrow> (Err ErrTxnNil, p)
      | Some t \<Rightarrow>
          (let key = formatRecordKey pk sk;
               loaded = (case b_get B t key of
                   NotFound \<Rightarrow> Ok (zero_StoredRecord\<lparr>UpdatedAt := n, CreatedAt := n\<rparr>)
                 | GetErr e \<Rightarrow> Err e
                 | Item (Inl e) \<Rightarrow> Err e
                 | Item (Inr b) \<Rightarrow>
                     bind_go (unmarshal_StoredRecord b zero_StoredRecord) (\<lambda>s. Ok (s\<lparr>UpdatedAt := n\<rparr>)));
               written = bind_go loaded (\<lambda>stored.
                 bind_go (check_if X ifStmt (ToCompareRecord stored pk sk)) (\<lambda>shouldUpdate.
                   if shouldUpdate then
                     bind_go (MustSerialize (stored\<lparr>Data := data\<rparr>)) (\<lambda>b. of_sum (b_set B t key b))
                   else Ok t))
           in case written of
                Err e \<Rightarrow> (Err e, p)
              | Panic \<Rightarrow> (Panic, p)
              | Ok t' \<Rightarrow> updateOffsetInTx B p t' offset))"

definition handlePut :: "('db, 'txn) badger_api \<Rightarrow> 'prog expr_lib \<Rightarrow> 'db Partition \<Rightarrow> string \<Rightarrow> string \<Rightarrow>
    string option \<Rightarrow> data \<Rightarrow> int \<Rightarrow> int \<Rightarrow> unit go \<times> 'db Partition" where
  "handlePut B X p pk sk ifStmt data offset tsMs =
     db_Update B p (put_txn B X p pk sk ifStmt data offset tsMs)"

text \<open>
  A conditional delete of a key that is not there returns at once (\<open>Ok None\<close> below): nothing
  is written, not even the offset.
\<close>

definition delete_txn :: "('db, 'txn) badger_api \<Rightarrow> 'prog expr_lib \<Rightarrow> 'db Partition \<Rightarrow> string \<Rightarrow> string \<Rightarrow>
    string option \<Rightarrow> int \<Rightarrow> 'txn option \<Rightarrow> 'txn go \<times> 'db Partition" where
  "delete_txn B X p pk sk ifStmt offset txn =
     (case txn of
        None \<Rightarrow> (Err ErrTxnNil, p)
      | Some t \<Rightarrow>
          (let key = formatRecordKey pk sk;
               decided = (case ifStmt of
                   None \<Rightarrow> Ok (Some True)
                 | Some _ \<Rightarrow>
                     (case b_get B t key of
                        NotFound \<Rightarrow> Ok None
                      | GetErr e \<Rightarrow> Err e
                      | Item (Inl e) \<Rightarrow> Err e
                      | Item (Inr b) \<Rightarrow>
                          bind_go (unmarshal_StoredRecord b zero_StoredRecord) (\<lambda>stored.
                            bind_go (check_if X ifStmt (ToCompareRecord stored pk sk)) (\<lambda>should.
                              Ok (Some should)))))
           in case decided of
                Err e \<Rightarrow> (Err e, p)
              | Panic \<Rightarrow> (Panic, p)
              | Ok None \<Rightarrow> (Ok t, p)
              | Ok (Some shouldDelete) \<Rightarrow>
                  (case (if shouldDelete then of_sum (b_delete B t (formatRecordKey pk sk)) else Ok t) of
                     Err e \<Rightarrow> (Err e, p)
                   | Panic \<Rightarrow> (Panic, p)
                   | Ok t' \<Rightarrow> updateOffsetInTx B p t' offset)))"

definition handleDelete :: "('db, 'txn) badger_api \<Rightarrow> 'prog expr_lib \<Rightarrow> 'db Partition \<Rightarrow> string \<Rightarrow> string \<Rightarrow>
    string option \<Rightarrow> int \<Rightarrow> unit go \<times> 'db Partition" where
  "handleDelete B X p pk sk ifStmt offset = db_Update B p (delete_txn B X p pk sk ifStmt offset)"

definition HandleMutation :: "('db, 'txn) badger_api \<Rightarrow> 'prog expr_lib \<Rightarrow> 'db Partition \<Rightarrow> RecordMutation \<Rightarrow>
    int \<Rightarrow> unit go \<times> 'db Partition" where
  "HandleMutation B X p m offset =
     (if m_Mutation m = OperationPut then
        handlePut B X p (m_Pk m) (m_Sk m) (m_If m) (m_Data m) offset (m_TsMs m)
      else if m_Mutation m = OperationDelete then
        handleDelete B X p (m_Pk m) (m_Sk m) (m_If m) offset
      else (Err ErrUnknownOperation, p))"

section \<open>The abstract specification\<close>

text \<open>
  What a partition promises: a map from a partition key and a sort key to a record, and the
  offset of the last mutation it has recorded.
\<close>

type_synonym records = "string \<times> string \<Rightarrow> StoredRecord option"
type_synonym replica = "records \<times> int option"

text \<open>The record a put compares against: the stored one, but with the new update time.\<close>

definition loaded :: "records \<Rightarrow> string \<times> string \<Rightarrow> int \<Rightarrow> StoredRecord" where
  "loaded s k ts = (case s k of
     None \<Rightarrow> \<lparr>Data = None, CreatedAt = ts, UpdatedAt = ts\<rparr> | Some r \<Rightarrow> r\<lparr>UpdatedAt := ts\<rparr>)"

definition spec_put :: "'prog expr_lib \<Rightarrow> records \<Rightarrow> string \<times> string \<Rightarrow> string option \<Rightarrow> data \<Rightarrow> int \<Rightarrow>
    records go" where
  "spec_put X s k ifStmt data ts =
     bind_go (check_if X ifStmt (ToCompareRecord (loaded s k ts) (fst k) (snd k))) (\<lambda>b.
       Ok (if b then s(k \<mapsto> (loaded s k ts)\<lparr>Data := data\<rparr>) else s))"

definition spec_delete :: "'prog expr_lib \<Rightarrow> records \<Rightarrow> string \<times> string \<Rightarrow> string option \<Rightarrow>
    records option go" where
  "spec_delete X s k ifStmt =
     (case (ifStmt, s k) of
        (None, _) \<Rightarrow> Ok (Some (s(k := None)))
      | (Some _, None) \<Rightarrow> Ok None
      | (Some _, Some r) \<Rightarrow>
          bind_go (check_if X ifStmt (ToCompareRecord r (fst k) (snd k))) (\<lambda>b.
            Ok (Some (if b then s(k := None) else s))))"

definition spec_mutation :: "'prog expr_lib \<Rightarrow> replica \<Rightarrow> RecordMutation \<Rightarrow> int \<Rightarrow> replica go" where
  "spec_mutation X st m offset =
     (let (s, off) = st; k = (m_Pk m, m_Sk m)
      in if m_Mutation m = OperationPut then
           bind_go (spec_put X s k (m_If m) (m_Data m) (m_TsMs m)) (\<lambda>s'. Ok (s', Some offset))
         else if m_Mutation m = OperationDelete then
           bind_go (spec_delete X s k (m_If m)) (\<lambda>r. case r of
               None \<Rightarrow> Ok (s, off)
             | Some s' \<Rightarrow> Ok (s', Some offset))
         else Err ErrUnknownOperation)"

text \<open>Reading returns the records found, in the order of the keys asked for.\<close>

definition spec_read :: "records \<Rightarrow> RecordKey list \<Rightarrow> Record list" where
  "spec_read s keys =
     List.map_filter (\<lambda>k. map_option (\<lambda>r. Record_of r (Pk k) (Sk k)) (s (Pk k, Sk k))) keys"

text \<open>
  Listing: the sort keys under \<open>pk\<close> that properly extend the prefix, in order; those the
  condition selects (up to the first it rejects, with \<open>ifStop\<close>); at most \<open>limit\<close> of them.
\<close>

definition spec_keys :: "records \<Rightarrow> string \<Rightarrow> string \<Rightarrow> string list" where
  "spec_keys s pk p = sorted_list_of_set {sk. s (pk, sk) \<noteq> None \<and> prefix p sk \<and> sk \<noteq> p}"

definition spec_select :: "bool \<Rightarrow> ('a \<Rightarrow> bool) \<Rightarrow> 'a list \<Rightarrow> 'a list" where
  "spec_select ifStop cond xs = (if ifStop then takeWhile cond xs else filter cond xs)"

definition spec_limit :: "int \<Rightarrow> 'a list \<Rightarrow> 'a list" where
  "spec_limit limit xs = (if limit = 0 then xs else take (nat limit) xs)"

definition spec_list :: "records \<Rightarrow> string \<Rightarrow> string \<Rightarrow> int \<Rightarrow> (string \<Rightarrow> bool) \<Rightarrow> bool \<Rightarrow> Record list" where
  "spec_list s pk p limit cond ifStop =
     map (\<lambda>sk. Record_of (the (s (pk, sk))) pk sk)
       (spec_limit limit (spec_select ifStop cond (spec_keys s pk p)))"

section \<open>Abstraction and invariant\<close>

definition stored_ok :: "StoredRecord \<Rightarrow> bool" where
  "stored_ok r \<longleftrightarrow> data_ok (Data r) \<and> time_ok (CreatedAt r) \<and> time_ok (UpdatedAt r)"

definition decode :: "wire \<Rightarrow> StoredRecord option" where
  "decode w = (case unmarshal_StoredRecord w zero_StoredRecord of Ok r \<Rightarrow> Some r | _ \<Rightarrow> None)"

definition abs_records :: "(bytes \<Rightarrow> wire option) \<Rightarrow> records" where
  "abs_records m = (\<lambda>(pk, sk).
     if no_nul pk then Option.bind (m (formatRecordKey pk sk)) decode else None)"

definition decode_offset :: "wire \<Rightarrow> int option" where
  "decode_offset w = (case w of
       Raw b \<Rightarrow> (case Uint64 b of Ok x \<Rightarrow> Some (wrap64 x) | _ \<Rightarrow> None)
     | Doc _ \<Rightarrow> None)"

definition abs_offset :: "(bytes \<Rightarrow> wire option) \<Rightarrow> int option" where
  "abs_offset m = Option.bind (m LastOffsetKey) decode_offset"

definition abs_store :: "(bytes \<Rightarrow> wire option) \<Rightarrow> replica" where
  "abs_store m = (abs_records m, abs_offset m)"

text \<open>
  The keys of a well-formed store are record keys and the offset's key; the record values
  decode to records whose times can be serialised again.
\<close>

definition store_ok :: "(bytes \<Rightarrow> wire option) \<Rightarrow> bool" where
  "store_ok m \<longleftrightarrow>
     (\<forall>k \<in> dom m. k = LastOffsetKey \<or> (\<exists>pk sk. no_nul pk \<and> k = formatRecordKey pk sk)) \<and>
     (\<forall>pk sk w. m (formatRecordKey pk sk) = Some w \<longrightarrow> (\<exists>r. decode w = Some r \<and> stored_ok r)) \<and>
     (\<forall>w. m LastOffsetKey = Some w \<longrightarrow> (\<exists>i. decode_offset w = Some i))"

definition mutation_ok :: "RecordMutation \<Rightarrow> bool" where
  "mutation_ok m \<longleftrightarrow> no_nul (m_Pk m) \<and> data_ok (m_Data m) \<and> time_ok (m_TsMs m)"

fun map_go :: "('a \<Rightarrow> 'b) \<Rightarrow> 'a go \<Rightarrow> 'b go" where
  "map_go f (Ok x) = Ok (f x)"
| "map_go f (Err e) = Err e"
| "map_go f Panic = Panic"

end
