(* ===== verification/Refinement.thy ===== *)
theory Refinement
  imports Partition
begin

text \<open>
  The partition's operations implement their specification: \<^verbatim>\<open>HandleMutation\<close> takes the
  abstract step or leaves everything as it was, \<^verbatim>\<open>ReadRecords\<close> reads the map, \<^verbatim>\<open>ListRecords\<close>
  is a sorted, filtered slice of it.
\<close>

section \<open>Abstraction under updates\<close>

lemma decode_marshal:
  "stored_ok r \<Longrightarrow> \<exists>w. MustSerialize r = Ok w \<and> decode w = Some r"
  using marshal_StoredRecord_cases [of r]
  by (auto simp: stored_ok_def decode_def unmarshal_marshal_StoredRecord)

lemma decode_Some: "decode w = Some r \<longleftrightarrow> unmarshal_StoredRecord w zero_StoredRecord = Ok r"
  by (auto simp: decode_def split: go.splits)

lemma abs_records_set [simp]:
  "no_nul pk \<Longrightarrow> abs_records (m(formatRecordKey pk sk \<mapsto> w)) = (abs_records m)((pk, sk) := decode w)"
  by (auto simp: abs_records_def fun_eq_iff formatRecordKey_inject)

lemma abs_records_delete [simp]:
  "no_nul pk \<Longrightarrow> abs_records (m(formatRecordKey pk sk := None)) = (abs_records m)((pk, sk) := None)"
  by (auto simp: abs_records_def fun_eq_iff formatRecordKey_inject)

lemma abs_records_offset [simp]: "abs_records (m(LastOffsetKey := x)) = abs_records m"
  by (simp add: abs_records_def fun_eq_iff)

lemma abs_offset_record [simp]: "abs_offset (m(formatRecordKey pk sk := x)) = abs_offset m"
  by (simp add: abs_offset_def)

lemma decode_offset_Put [simp]: "decode_offset (Raw (PutUint64 (uint64 i))) = Some (wrap64 i)"
proof -
  have "uint64 (uint64 i) = uint64 i" by (simp add: uint64_def)
  then show ?thesis
    using wrap64_uint64 [of i] by (simp add: decode_offset_def Uint64_PutUint64)
qed

lemma abs_offset_set [simp]:
  "abs_offset (m(LastOffsetKey \<mapsto> Raw (PutUint64 (uint64 i)))) = Some (wrap64 i)"
  by (simp add: abs_offset_def)

lemma store_okD:
  assumes "store_ok m" and "m (formatRecordKey pk sk) = Some w"
  obtains r where "decode w = Some r" and "stored_ok r"
  using assms unfolding store_ok_def by blast

lemma store_ok_set:
  "store_ok m \<Longrightarrow> no_nul pk \<Longrightarrow> decode w = Some r \<Longrightarrow> stored_ok r \<Longrightarrow>
    store_ok (m(formatRecordKey pk sk \<mapsto> w))"
  unfolding store_ok_def by (auto split: if_splits)

lemma store_ok_delete: "store_ok m \<Longrightarrow> store_ok (m(formatRecordKey pk sk := None))"
  unfolding store_ok_def by (auto split: if_splits)

lemma store_ok_offset: "store_ok m \<Longrightarrow> store_ok (m(LastOffsetKey \<mapsto> Raw (PutUint64 (uint64 i))))"
  unfolding store_ok_def by (auto split: if_splits)

lemma store_ok_empty: "store_ok Map.empty"
  by (simp add: store_ok_def)

text \<open>The invariant of a partition: a well-formed store, whose offset is the one in memory.\<close>

definition part_ok :: "('db \<Rightarrow> bytes \<Rightarrow> wire option) \<Rightarrow> 'db Partition \<Rightarrow> bool" where
  "part_ok db_map p \<longleftrightarrow>
     store_ok (db_map (DB p)) \<and> LastOffset p = abs_offset (db_map (DB p))"

section \<open>Mutations\<close>

context badger_reliable
begin

lemma updateOffset_eq:
  obtains t' where "updateOffsetInTx B p t off = (Ok t', p\<lparr>LastOffset := Some off\<rparr>)"
    and "txn_map t' = (txn_map t)(LastOffsetKey \<mapsto> Raw (PutUint64 (uint64 off)))"
  by (rule set_cases [of t LastOffsetKey "Raw (PutUint64 (uint64 off))"])
    (auto simp: updateOffsetInTx_def)

text \<open>Any transaction that ends by recording the offset commits as a whole.\<close>

lemma update_commits:
  assumes f: "\<And>t. b_begin B (DB p) = Inr (Some t) \<Longrightarrow> txn_map t = db_map (DB p) \<Longrightarrow>
      \<exists>t1. f (Some t) = updateOffsetInTx B p t1 off \<and> txn_map t1 = m"
  shows "\<exists>p'. db_Update B p f = (Ok (), p') \<and> LastOffset p' = Some off \<and> ID p' = ID p
    \<and> Namespace p' = Namespace p
    \<and> db_map (DB p') = m(LastOffsetKey \<mapsto> Raw (PutUint64 (uint64 off)))"
proof -
  obtain t where t: "b_begin B (DB p) = Inr (Some t)" "txn_map t = db_map (DB p)"
    by (rule begin_cases)
  then obtain t1 where t1: "f (Some t) = updateOffsetInTx B p t1 off" "txn_map t1 = m"
    using f by blast
  obtain t2 where t2: "updateOffsetInTx B p t1 off = (Ok t2, p\<lparr>LastOffset := Some off\<rparr>)"
    "txn_map t2 = (txn_map t1)(LastOffsetKey \<mapsto> Raw (PutUint64 (uint64 off)))"
    by (rule updateOffset_eq)
  obtain d where "b_commit B (DB p) t2 = Inr d" "db_map d = txn_map t2"
    by (rule commit_cases [OF t(1)])
  with t t1 t2 show ?thesis by (simp add: db_Update_def)
qed

lemma get_store:
  assumes "store_ok m" and "txn_map t = m" and "no_nul pk"
  shows "(b_get B t (formatRecordKey pk sk) = NotFound \<and> abs_records m (pk, sk) = None) \<or>
    (\<exists>w r. b_get B t (formatRecordKey pk sk) = Item (Inr w) \<and>
       unmarshal_StoredRecord w zero_StoredRecord = Ok r \<and> abs_records m (pk, sk) = Some r \<and> stored_ok r)"
  using assms by (cases "m (formatRecordKey pk sk)")
    (auto simp: get_eq abs_records_def decode_Some [symmetric] elim!: store_okD)

lemma handlePut_refines:
  assumes ok: "store_ok (db_map (DB p))" and pk: "no_nul pk" and data: "data_ok data"
    and ts: "time_ok ts"
  shows "case spec_put X (abs_records (db_map (DB p))) (pk, sk) ifStmt data ts of
      Ok s \<Rightarrow> \<exists>p'. handlePut B X p pk sk ifStmt data off ts = (Ok (), p') \<and>
        abs_store (db_map (DB p')) = (s, Some (wrap64 off)) \<and> store_ok (db_map (DB p')) \<and>
        LastOffset p' = Some off \<and> ID p' = ID p \<and> Namespace p' = Namespace p
    | Err e \<Rightarrow> handlePut B X p pk sk ifStmt data off ts = (Err e, p)
    | Panic \<Rightarrow> handlePut B X p pk sk ifStmt data off ts = (Panic, p)"
proof -
  let ?m = "db_map (DB p)"
  let ?st = "loaded (abs_records ?m) (pk, sk) ts"
  let ?chk = "check_if X ifStmt (ToCompareRecord ?st pk sk)"
  let ?f = "put_txn B X p pk sk ifStmt data off ts"
  obtain t where t: "b_begin B (DB p) = Inr (Some t)" "txn_map t = ?m" by (rule begin_cases)
  have st: "stored_ok (?st\<lparr>Data := data\<rparr>)"
    using get_store [OF ok t(2) pk, of sk] data ts by (auto simp: loaded_def stored_ok_def)
  then obtain w where w: "MustSerialize (?st\<lparr>Data := data\<rparr>) = Ok w" "decode w = Some (?st\<lparr>Data := data\<rparr>)"
    using decode_marshal by blast
  have step: "?f (Some t) =
      (case ?chk of Err e \<Rightarrow> (Err e, p) | Panic \<Rightarrow> (Panic, p)
       | Ok b \<Rightarrow> if b then (case of_sum (b_set B t (formatRecordKey pk sk) w) of
            Err e \<Rightarrow> (Err e, p) | Panic \<Rightarrow> (Panic, p) | Ok t' \<Rightarrow> updateOffsetInTx B p t' off)
          else updateOffsetInTx B p t off)"
    if "txn_map t = ?m" for t
    using get_store [OF ok that pk, of sk] w
    by (auto simp: put_txn_def loaded_def zero_StoredRecord_def Let_def split: go.splits)
  show ?thesis
  proof (cases ?chk)
    case (Ok b)
    define m' where "m' = (if b then ?m(formatRecordKey pk sk \<mapsto> w) else ?m)"
    have "\<exists>p'. db_Update B p ?f = (Ok (), p') \<and> LastOffset p' = Some off \<and> ID p' = ID p
        \<and> Namespace p' = Namespace p \<and> db_map (DB p') = m'(LastOffsetKey \<mapsto> Raw (PutUint64 (uint64 off)))"
    proof (rule update_commits)
      fix t assume t: "txn_map t = ?m"
      show "\<exists>t1. ?f (Some t) = updateOffsetInTx B p t1 off \<and> txn_map t1 = m'"
        using step [OF t] Ok t by (rule_tac set_cases [of t "formatRecordKey pk sk" w])
          (cases b; auto simp: m'_def of_sum_def)
    qed
    moreover have "store_ok m'"
      using ok pk w st by (auto simp: m'_def intro: store_ok_set)
    ultimately show ?thesis
      using Ok pk w store_ok_offset [of m' off]
      by (auto simp: handlePut_def spec_put_def abs_store_def m'_def)
  qed (use step [OF t(2)] t in
      \<open>simp_all add: handlePut_def db_Update_def spec_put_def\<close>)
qed

lemma delete_commits:
  assumes f: "\<And>t. txn_map t = db_map (DB p) \<Longrightarrow> f (Some t) =
      (case (if b then of_sum (b_delete B t key) else Ok t) of
         Err e \<Rightarrow> (Err e, p) | Panic \<Rightarrow> (Panic, p) | Ok t' \<Rightarrow> updateOffsetInTx B p t' off)"
  shows "\<exists>p'. db_Update B p f = (Ok (), p') \<and> LastOffset p' = Some off \<and> ID p' = ID p
    \<and> Namespace p' = Namespace p
    \<and> db_map (DB p') = (if b then (db_map (DB p))(key := None) else db_map (DB p))
        (LastOffsetKey \<mapsto> Raw (PutUint64 (uint64 off)))"
proof (rule update_commits)
  fix t assume "txn_map t = db_map (DB p)"
  with f [OF this] show "\<exists>t1. f (Some t) = updateOffsetInTx B p t1 off \<and>
      txn_map t1 = (if b then (db_map (DB p))(key := None) else db_map (DB p))"
    by (rule_tac delete_cases [of t key]) (cases b; auto simp: of_sum_def)
qed

lemma handleDelete_refines:
  assumes ok: "store_ok (db_map (DB p))" and pk: "no_nul pk"
  shows "case spec_delete X (abs_records (db_map (DB p))) (pk, sk) ifStmt of
      Ok None \<Rightarrow> \<exists>p'. handleDelete B X p pk sk ifStmt off = (Ok (), p') \<and>
        db_map (DB p') = db_map (DB p) \<and> LastOffset p' = LastOffset p \<and> ID p' = ID p \<and>
        Namespace p' = Namespace p
    | Ok (Some s) \<Rightarrow> \<exists>p'. handleDelete B X p pk sk ifStmt off = (Ok (), p') \<and>
        abs_store (db_map (DB p')) = (s, Some (wrap64 off)) \<and> store_ok (db_map (DB p')) \<and>
        LastOffset p' = Some off \<and> ID p' = ID p \<and> Namespace p' = Namespace p
    | Err e \<Rightarrow> handleDelete B X p pk sk ifStmt off = (Err e, p)
    | Panic \<Rightarrow> handleDelete B X p pk sk ifStmt off = (Panic, p)"
proof -
  let ?m = "db_map (DB p)"
  let ?f = "delete_txn B X p pk sk ifStmt off"
  let ?key = "formatRecordKey pk sk"
  obtain t where t: "b_begin B (DB p) = Inr (Some t)" "txn_map t = ?m" by (rule begin_cases)
  have ok': "store_ok ((if b then ?m(?key := None) else ?m)(LastOffsetKey \<mapsto> Raw (PutUint64 (uint64 off))))" for b
    using ok by (intro store_ok_offset) (auto intro: store_ok_delete)
  show ?thesis
  proof (cases ifStmt)
    case None
    then have "?f (Some t) = (case (if True then of_sum (b_delete B t ?key) else Ok t) of
         Err e \<Rightarrow> (Err e, p) | Panic \<Rightarrow> (Panic, p) | Ok t' \<Rightarrow> updateOffsetInTx B p t' off)" for t
      by (simp add: delete_txn_def)
    from delete_commits [OF this] None pk ok' [of True] show ?thesis
      by (auto simp: handleDelete_def spec_delete_def abs_store_def)
  next
    case (Some c)
    show ?thesis
    proof (cases "abs_records ?m (pk, sk)")
      case None
      then have "?f (Some t) = (Ok t, p)" using get_store [OF ok t(2) pk, of sk] Some
        by (auto simp: delete_txn_def)
      moreover obtain d where "b_commit B (DB p) t = Inr d" "db_map d = txn_map t"
        by (rule commit_cases [OF t(1)])
      ultimately show ?thesis using t Some None
        by (simp add: handleDelete_def db_Update_def spec_delete_def)
    next
      case r: (Some r)
      let ?chk = "check_if X ifStmt (ToCompareRecord r pk sk)"
      have f: "?f (Some t) = (case ?chk of Err e \<Rightarrow> (Err e, p) | Panic \<Rightarrow> (Panic, p)
          | Ok b \<Rightarrow> (case (if b then of_sum (b_delete B t ?key) else Ok t) of
              Err e \<Rightarrow> (Err e, p) | Panic \<Rightarrow> (Panic, p) | Ok t' \<Rightarrow> updateOffsetInTx B p t' off))"
        if "txn_map t = ?m" for t
        using get_store [OF ok that pk, of sk] Some r
        by (auto simp: delete_txn_def Let_def split: go.split)
      show ?thesis
      proof (cases ?chk)
        case (Ok b)
        from f Ok have "?f (Some t) = (case (if b then of_sum (b_delete B t ?key) else Ok t) of
            Err e \<Rightarrow> (Err e, p) | Panic \<Rightarrow> (Panic, p) | Ok t' \<Rightarrow> updateOffsetInTx B p t' off)"
          if "txn_map t = ?m" for t using that by simp
        from delete_commits [OF this] Some r Ok pk ok' [of b] show ?thesis
          by (auto simp: handleDelete_def spec_delete_def abs_store_def)
      qed (use f [OF t(2)] t Some r in
          \<open>simp_all add: handleDelete_def db_Update_def spec_delete_def\<close>)
    qed
  qed
qed

text \<open>The whole handler: one abstract step, or an error that leaves the partition alone.\<close>

lemma HandleMutation_refines:
  assumes ok: "part_ok db_map p" and m: "mutation_ok m" and off: "int64_range off"
  shows "case spec_mutation X (abs_store (db_map (DB p))) m off of
      Ok st \<Rightarrow> \<exists>p'. HandleMutation B X p m off = (Ok (), p') \<and> abs_store (db_map (DB p')) = st \<and>
        part_ok db_map p' \<and> ID p' = ID p \<and> Namespace p' = Namespace p
    | Err e \<Rightarrow> HandleMutation B X p m off = (Err e, p)
    | Panic \<Rightarrow> HandleMutation B X p m off = (Panic, p)"
proof -
  have s: "store_ok (db_map (DB p))" and l: "LastOffset p = abs_offset (db_map (DB p))"
    using ok by (auto simp: part_ok_def)
  have pk: "no_nul (m_Pk m)" and d: "data_ok (m_Data m)" and ts: "time_ok (m_TsMs m)"
    using m by (auto simp: mutation_ok_def)
  note put = handlePut_refines [OF s pk d ts, of X "m_Sk m" "m_If m" off]
  note del = handleDelete_refines [OF s pk, of X "m_Sk m" "m_If m" off]
  have ops: "OperationDelete \<noteq> OperationPut" by (simp add: operation_defs)
  consider "m_Mutation m = OperationPut" | "m_Mutation m = OperationDelete"
    | "m_Mutation m \<noteq> OperationPut" "m_Mutation m \<noteq> OperationDelete" by blast
  then show ?thesis
  proof cases
    case 1
    with put off show ?thesis
      by (cases "spec_put X (abs_records (db_map (DB p))) (m_Pk m, m_Sk m) (m_If m) (m_Data m) (m_TsMs m)")
        (auto simp: HandleMutation_def spec_mutation_def abs_store_def part_ok_def)
  next
    case 2
    with del off l s ops show ?thesis
      by (cases "spec_delete X (abs_records (db_map (DB p))) (m_Pk m, m_Sk m) (m_If m)")
        (auto simp: HandleMutation_def spec_mutation_def abs_store_def part_ok_def split: option.splits)
  qed (simp add: HandleMutation_def spec_mutation_def abs_store_def)
qed

end

section \<open>Reads\<close>

lemma list_loop_prefix:
  "list_loop X pfx p limit ifStmt ifStop its read acc =
   list_loop X pfx p limit ifStmt ifStop (takeWhile (\<lambda>(k, v). prefix pfx k) its) read acc"
proof (induction its arbitrary: read acc)
  case (Cons kv its)
  obtain k v where kv: "kv = (k, v)" by fastforce
  show ?case
  proof (cases "prefix pfx k")
    case True
    then have tw: "takeWhile (\<lambda>(k, v). prefix pfx k) (kv # its) =
        (k, v) # takeWhile (\<lambda>(k, v). prefix pfx k) its" by (simp add: kv)
    have "list_loop X pfx p limit ifStmt ifStop its =
        list_loop X pfx p limit ifStmt ifStop (takeWhile (\<lambda>(k, v). prefix pfx k) its)"
      by (intro ext) (rule Cons.IH)
    note eq = this
    show ?thesis unfolding tw unfolding kv list_loop.simps unfolding eq by (rule refl)
  qed (simp add: kv)
qed simp

lemma list_loop_step:
  assumes "no_nul pk" and "prefix p sk" and "limit = 0 \<or> read < limit"
    and "unmarshal_StoredRecord w zero_StoredRecord = Ok r"
  shows "list_loop X (formatRecordKey pk p) p limit ifStmt ifStop ((formatRecordKey pk sk, Inr w) # its) read acc =
    (if \<not> no_nul sk then Err ErrInvalidKey
     else if sk = p then list_loop X (formatRecordKey pk p) p limit ifStmt ifStop its read acc
     else bind_go (check_if X ifStmt (ToCompareRecord r pk sk)) (\<lambda>should.
       if should then list_loop X (formatRecordKey pk p) p limit ifStmt ifStop its (read + 1) (acc @ [Record_of r pk sk])
       else if ifStop then Ok acc
       else list_loop X (formatRecordKey pk p) p limit ifStmt ifStop its read acc))"
proof -
  have "prefix (formatRecordKey pk p) (formatRecordKey pk sk)"
    using assms(1,2) by (simp add: formatRecordKey_prefix)
  with assms show ?thesis
    by (cases "no_nul sk"; cases "sk = p") (simp_all add: splitRecordKey_format of_sum_def)
qed

lemma list_loop_select:
  assumes keys: "\<And>sk. sk \<in> set sks \<Longrightarrow> no_nul sk \<and> prefix p sk \<and>
      (\<exists>w. m (formatRecordKey pk sk) = Some w \<and> unmarshal_StoredRecord w zero_StoredRecord = Ok (rec sk))"
    and cond: "\<And>sk. sk \<in> set sks \<Longrightarrow> sk \<noteq> p \<Longrightarrow>
      check_if X ifStmt (ToCompareRecord (rec sk) pk sk) = Ok (cond sk)"
    and pk: "no_nul pk" and "0 \<le> read"
  shows "list_loop X (formatRecordKey pk p) p limit ifStmt ifStop
      (map (\<lambda>sk. (formatRecordKey pk sk, Inr (the (m (formatRecordKey pk sk))))) sks) read acc =
    Ok (acc @ map (\<lambda>sk. Record_of (rec sk) pk sk)
      ((if limit = 0 then id else take (nat (limit - read)))
        (spec_select ifStop cond (filter (\<lambda>sk. sk \<noteq> p) sks))))"
  using keys cond \<open>0 \<le> read\<close>
proof (induction sks arbitrary: read acc)
  case Nil
  then show ?case by (simp add: spec_select_def)
next
  case (Cons sk sks)
  obtain w where w: "no_nul sk" "prefix p sk" "m (formatRecordKey pk sk) = Some w"
    "unmarshal_StoredRecord w zero_StoredRecord = Ok (rec sk)" using Cons.prems(1) [of sk] by auto
  have IH: "0 \<le> read \<Longrightarrow> list_loop X (formatRecordKey pk p) p limit ifStmt ifStop
      (map (\<lambda>sk. (formatRecordKey pk sk, Inr (the (m (formatRecordKey pk sk))))) sks) read acc =
    Ok (acc @ map (\<lambda>sk. Record_of (rec sk) pk sk)
      ((if limit = 0 then id else take (nat (limit - read)))
        (spec_select ifStop cond (filter (\<lambda>sk. sk \<noteq> p) sks))))" for read acc
    by (rule Cons.IH) (use Cons.prems(1,2) in auto)
  let ?loop = "list_loop X (formatRecordKey pk p) p limit ifStmt ifStop"
  let ?its = "map (\<lambda>sk. (formatRecordKey pk sk, Inr (the (m (formatRecordKey pk sk))))) sks"
  let ?rest = "(formatRecordKey pk sk, Inr w) # ?its"
  have its: "map (\<lambda>sk. (formatRecordKey pk sk, Inr (the (m (formatRecordKey pk sk))))) (sk # sks) = ?rest"
    using w by simp
  show ?case
  proof (cases "limit = 0 \<or> read < limit")
    case False
    then show ?thesis by simp
  next
    case guard: True
    note step = list_loop_step [OF pk w(2) guard w(4), of X ifStmt ifStop ?its acc]
    show ?thesis
    proof (cases "sk = p")
      case True
      then show ?thesis unfolding its using step w(1) IH [of read acc] Cons.prems(3) by (simp del: list_loop.simps)
    next
      case False
      then have c: "check_if X ifStmt (ToCompareRecord (rec sk) pk sk) = Ok (cond sk)"
        using Cons.prems(2) by simp
      have n: "limit \<noteq> 0 \<Longrightarrow> nat (limit - read) = Suc (nat (limit - (read + 1)))"
        using guard by linarith
      have "read + 1 \<ge> 0" using Cons.prems(3) by simp
      note IH' = IH [of read acc, OF Cons.prems(3)] IH [of "read + 1" "acc @ [Record_of (rec sk) pk sk]", OF this]
      show ?thesis
      proof (cases "cond sk")
        case True
        then show ?thesis unfolding its using step w(1) False c n IH'
          by (simp add: spec_select_def del: list_loop.simps)
      next
        case False': False
        then show ?thesis unfolding its using step w(1) False c IH'
          by (cases ifStop) (simp_all add: spec_select_def del: list_loop.simps)
      qed
    qed
  qed
qed

lemma list_loop_poison:
  assumes keys: "\<And>sk. sk \<in> set sks \<Longrightarrow> prefix p sk \<and>
      (\<exists>w r. m (formatRecordKey pk sk) = Some w \<and> unmarshal_StoredRecord w zero_StoredRecord = Ok r)"
    and pk: "no_nul pk" and "\<exists>sk \<in> set sks. \<not> no_nul sk"
  shows "list_loop X (formatRecordKey pk p) p 0 None ifStop
      (map (\<lambda>sk. (formatRecordKey pk sk, Inr (the (m (formatRecordKey pk sk))))) sks) read acc =
    Err ErrInvalidKey"
  using keys assms(3)
proof (induction sks arbitrary: read acc)
  case (Cons sk sks)
  from Cons.prems(1) have IH: "\<exists>sk \<in> set sks. \<not> no_nul sk \<Longrightarrow> list_loop X (formatRecordKey pk p) p 0 None ifStop
      (map (\<lambda>sk. (formatRecordKey pk sk, Inr (the (m (formatRecordKey pk sk))))) sks) read acc =
    Err ErrInvalidKey" for read acc by (intro Cons.IH) auto
  obtain w r where w: "prefix p sk" "m (formatRecordKey pk sk) = Some w"
    "unmarshal_StoredRecord w zero_StoredRecord = Ok r" using Cons.prems(1) [of sk] by auto
  show ?case
    using list_loop_step [OF pk w(1) _ w(3), of 0 read X None ifStop] IH Cons.prems(2) w(2)
    by (auto simp: check_if_def simp del: list_loop.simps)
qed simp

context badger_reliable
begin

lemma read_loop_spec:
  assumes "txn_map t = m" and "store_ok m" and "\<forall>k \<in> set keys. no_nul (Pk k)"
  shows "read_loop B (Some t) keys acc = Ok (acc @ spec_read (abs_records m) keys)"
  using assms(3)
proof (induction keys arbitrary: acc)
  case (Cons key keys)
  with get_store [OF assms(2,1), of "Pk key" "Sk key"] show ?case
    by (auto simp: spec_read_def List.map_filter_def)
qed (simp add: spec_read_def List.map_filter_def)

lemma ReadRecords_spec:
  assumes "store_ok (db_map (DB p))" and "\<forall>k \<in> set keys. no_nul (Pk k)"
  shows "ReadRecords B p keys = Ok (spec_read (abs_records (db_map (DB p))) keys)"
proof -
  obtain t where "b_begin B (DB p) = Inr (Some t)" "txn_map t = db_map (DB p)" by (rule begin_cases)
  with read_loop_spec [OF this(2) assms, of "[]"] show ?thesis
    by (simp add: ReadRecords_def db_View_def)
qed

text \<open>What the iterator visits under the prefix: the sort keys, in order.\<close>

lemma seek_scan:
  assumes m: "txn_map t = m" and ok: "store_ok m" and pk: "no_nul pk"
  shows "takeWhile (\<lambda>(k, v). prefix (formatRecordKey pk p) k) (b_seek B t (formatRecordKey pk p)) =
    map (\<lambda>sk. (formatRecordKey pk sk, Inr (the (m (formatRecordKey pk sk)))))
      (sorted_list_of_set {sk. formatRecordKey pk sk \<in> dom m \<and> prefix p sk})"
proof -
  have "\<exists>pk' sk. no_nul pk' \<and> k = formatRecordKey pk' sk"
    if "k \<in> dom m" "prefix (formatRecordKey pk p) k" for k
    using that ok LastOffsetKey_no_prefix [of pk p] by (auto simp: store_ok_def dom_def)
  moreover have "finite (dom m)" using finite_txn m by blast
  ultimately have "takeWhile (prefix (formatRecordKey pk p))
      (sorted_list_of_set {k \<in> dom m. formatRecordKey pk p \<le> k}) =
    map (formatRecordKey pk) (sorted_list_of_set {sk. formatRecordKey pk sk \<in> dom m \<and> prefix p sk})"
    using pk by (intro keys.scan) auto
  then show ?thesis
    by (simp add: seek_eq m takeWhile_map o_def)
qed

lemma abs_keys:
  assumes "store_ok m" and "no_nul pk"
  shows "{sk. formatRecordKey pk sk \<in> dom m \<and> prefix p sk} = {sk. abs_records m (pk, sk) \<noteq> None \<and> prefix p sk}"
  using assms by (fastforce simp: abs_records_def Option.bind_eq_Some_conv elim: store_okD)

lemma finite_abs_keys:
  assumes "txn_map t = m" and "store_ok m" and "no_nul pk"
  shows "finite {sk. abs_records m (pk, sk) \<noteq> None \<and> prefix p sk}"
proof -
  have "finite (formatRecordKey pk ` {sk. formatRecordKey pk sk \<in> dom m \<and> prefix p sk})"
    by (rule finite_subset [of _ "dom m"]) (use assms(1) finite_txn in auto)
  then have "finite {sk. formatRecordKey pk sk \<in> dom m \<and> prefix p sk}"
    by (rule finite_imageD) (use assms(3) in \<open>auto simp: inj_on_def formatRecordKey_inject\<close>)
  with abs_keys [OF assms(2,3)] show ?thesis by simp
qed

lemma abs_unmarshal:
  assumes "store_ok m" and "no_nul pk" and "abs_records m (pk, sk) = Some r"
  shows "\<exists>w. m (formatRecordKey pk sk) = Some w \<and> unmarshal_StoredRecord w zero_StoredRecord = Ok r"
  using assms by (auto simp: abs_records_def decode_Some Option.bind_eq_Some_conv)

lemma ListRecords_spec:
  assumes ok: "store_ok (db_map (DB p))" and pk: "no_nul pk"
    and sks: "\<And>sk. abs_records (db_map (DB p)) (pk, sk) \<noteq> None \<Longrightarrow> prefix skPrefix sk \<Longrightarrow> no_nul sk"
    and cond: "\<And>sk r. abs_records (db_map (DB p)) (pk, sk) = Some r \<Longrightarrow> prefix skPrefix sk \<Longrightarrow>
      sk \<noteq> skPrefix \<Longrightarrow> check_if X ifStmt (ToCompareRecord r pk sk) = Ok (cond sk)"
  shows "ListRecords B X p pk skPrefix limit ifStmt ifStop =
    Ok (spec_list (abs_records (db_map (DB p))) pk skPrefix limit cond ifStop)"
proof -
  let ?m = "db_map (DB p)"
  let ?S = "{sk. abs_records ?m (pk, sk) \<noteq> None \<and> prefix skPrefix sk}"
  let ?rec = "\<lambda>sk. the (abs_records ?m (pk, sk))"
  obtain t where t: "b_begin B (DB p) = Inr (Some t)" "txn_map t = ?m" by (rule begin_cases)
  have fin: "finite ?S" by (rule finite_abs_keys [OF t(2) ok pk])
  have "list_loop X (formatRecordKey pk skPrefix) skPrefix limit ifStmt ifStop
      (b_seek B t (formatRecordKey pk skPrefix)) 0 [] =
    list_loop X (formatRecordKey pk skPrefix) skPrefix limit ifStmt ifStop
      (map (\<lambda>sk. (formatRecordKey pk sk, Inr (the (?m (formatRecordKey pk sk))))) (sorted_list_of_set ?S)) 0 []"
    by (subst list_loop_prefix) (simp only: seek_scan [OF t(2) ok pk] abs_keys [OF ok pk])
  also have "\<dots> = Ok ([] @ map (\<lambda>sk. Record_of (?rec sk) pk sk)
      ((if limit = 0 then id else take (nat (limit - 0)))
        (spec_select ifStop cond (filter (\<lambda>sk. sk \<noteq> skPrefix) (sorted_list_of_set ?S)))))"
  proof (rule list_loop_select)
    fix sk assume "sk \<in> set (sorted_list_of_set ?S)"
    then obtain r where r: "abs_records ?m (pk, sk) = Some r" "prefix skPrefix sk" using fin by auto
    with sks abs_unmarshal [OF ok pk r(1)] show "no_nul sk \<and> prefix skPrefix sk \<and>
      (\<exists>w. ?m (formatRecordKey pk sk) = Some w \<and> unmarshal_StoredRecord w zero_StoredRecord = Ok (?rec sk))"
      by auto
    from r cond show "check_if X ifStmt (ToCompareRecord (?rec sk) pk sk) = Ok (cond sk)" if "sk \<noteq> skPrefix"
      using that by simp
  qed (use pk in auto)
  also have "filter (\<lambda>sk. sk \<noteq> skPrefix) (sorted_list_of_set ?S) = spec_keys (abs_records ?m) pk skPrefix"
    using fin by (simp add: filter_sorted_list_of_set spec_keys_def conj_assoc)
  finally show ?thesis
    using t by (simp add: ListRecords_def db_View_def spec_list_def spec_limit_def)
qed

lemma ListRecords_poison:
  assumes ok: "store_ok (db_map (DB p))" and pk: "no_nul pk"
    and bad: "abs_records (db_map (DB p)) (pk, sk) \<noteq> None" "prefix skPrefix sk" "\<not> no_nul sk"
  shows "ListRecords B X p pk skPrefix 0 None ifStop = Err ErrInvalidKey"
proof -
  let ?m = "db_map (DB p)"
  let ?S = "{sk. abs_records ?m (pk, sk) \<noteq> None \<and> prefix skPrefix sk}"
  obtain t where t: "b_begin B (DB p) = Inr (Some t)" "txn_map t = ?m" by (rule begin_cases)
  have fin: "finite ?S" by (rule finite_abs_keys [OF t(2) ok pk])
  have "list_loop X (formatRecordKey pk skPrefix) skPrefix 0 None ifStop
      (b_seek B t (formatRecordKey pk skPrefix)) 0 [] =
    list_loop X (formatRecordKey pk skPrefix) skPrefix 0 None ifStop
      (map (\<lambda>sk. (formatRecordKey pk sk, Inr (the (?m (formatRecordKey pk sk))))) (sorted_list_of_set ?S)) 0 []"
    by (subst list_loop_prefix) (simp only: seek_scan [OF t(2) ok pk] abs_keys [OF ok pk])
  also have "\<dots> = Err ErrInvalidKey"
  proof (rule list_loop_poison)
    fix sk assume "sk \<in> set (sorted_list_of_set ?S)"
    with fin abs_unmarshal [OF ok pk, of sk] show "prefix skPrefix sk \<and>
      (\<exists>w r. ?m (formatRecordKey pk sk) = Some w \<and> unmarshal_StoredRecord w zero_StoredRecord = Ok r)"
      by fastforce
  qed (use fin bad pk in auto)
  finally show ?thesis using t by (simp add: ListRecords_def db_View_def)
qed

end

section \<open>Properties\<close>

text \<open>Concrete parameters for the witnesses: an expression library that knows one statement.\<close>

definition demo_expr :: "string expr_lib" where
  "demo_expr = \<lparr>
     ex_compile = (\<lambda>s _. if s = ''data == null'' \<or> s = ''true'' then Inr s else Inl (External ''compile'')),
     ex_run = (\<lambda>prog env. Inr (OBool (prog = ''true'' \<or> map_of env ''data'' = Some (CData None))))\<rparr>"

definition demo_put :: "string \<Rightarrow> string \<Rightarrow> string option \<Rightarrow> int \<Rightarrow> RecordMutation" where
  "demo_put sk v ifStmt ts = \<lparr>m_Pk = ''pk1'', m_Sk = sk, m_Data = Some [(''v'', JStr v)], m_TsMs = ts,
     m_Mutation = OperationPut, m_If = ifStmt\<rparr>"

definition demo_delete :: "string \<Rightarrow> string option \<Rightarrow> RecordMutation" where
  "demo_delete sk ifStmt = \<lparr>m_Pk = ''pk1'', m_Sk = sk, m_Data = None, m_TsMs = 0,
     m_Mutation = OperationDelete, m_If = ifStmt\<rparr>"

definition demo_part :: "mem \<Rightarrow> int option \<Rightarrow> mem Partition" where
  "demo_part d off = \<lparr>ID = 0, DB = d, LastOffset = off, Namespace = ''ns''\<rparr>"

definition demo_stored :: "string \<Rightarrow> int \<Rightarrow> int \<Rightarrow> wire" where
  "demo_stored v c u = Doc (JObj [(''Data'', JObj [(''v'', JStr v)]), (''CreatedAt'', JTime c), (''UpdatedAt'', JTime u)])"

lemmas demo_defs = demo_expr_def demo_put_def demo_delete_def demo_part_def demo_stored_def
  operation_defs check_if_def CompareIfStatement_def ToCompareRecord_def

lemma demo_decode [simp]:
  "unmarshal_StoredRecord (demo_stored v c u) zero_StoredRecord =
     Ok \<lparr>Data = Some [(''v'', JStr v)], CreatedAt = c, UpdatedAt = u\<rparr>"
  by (simp add: demo_stored_def unmarshal_StoredRecord_def StoredRecord_field_def zero_StoredRecord_def)

lemma demo_mutation_ok: "time_ok ts \<Longrightarrow> mutation_ok (demo_put sk v ifStmt ts)"
  by (simp add: mutation_ok_def demo_put_def no_nul_def NUL_def data_ok_def)

lemma store_ok_empty_list: "store_ok (map_of [])"
  by (simp add: store_ok_def)

lemma demo_empty_ok: "part_ok map_of (demo_part [] None)"
  by (simp add: part_ok_def demo_part_def store_ok_def abs_offset_def)

text \<open>A store with three records of one partition key, one of them a proper extension of another.\<close>

definition demo_db :: mem where
  "demo_db = [(formatRecordKey ''pk1'' ''b'', demo_stored ''2'' 5 5),
              (formatRecordKey ''pk1'' ''a'', demo_stored ''1'' 5 5),
              (formatRecordKey ''pk1'' ''ab'', demo_stored ''3'' 5 6)]"

lemma demo_db_ok: "store_ok (map_of demo_db)"
proof -
  have nn: "no_nul ''pk1''" by (simp add: no_nul_def NUL_def)
  have "decode (demo_stored v c u) = Some \<lparr>Data = Some [(''v'', JStr v)], CreatedAt = c, UpdatedAt = u\<rparr>"
    for v c u by (simp add: decode_Some)
  then have "store_ok (Map.empty(formatRecordKey ''pk1'' ''ab'' \<mapsto> demo_stored ''3'' 5 6,
      formatRecordKey ''pk1'' ''a'' \<mapsto> demo_stored ''1'' 5 5, formatRecordKey ''pk1'' ''b'' \<mapsto> demo_stored ''2'' 5 5))"
    using nn by (intro store_ok_set store_ok_empty) (auto simp: stored_ok_def data_ok_def time_ok_def)
  then show ?thesis by (simp add: demo_db_def)
qed

text \<open>
  C5. \<^verbatim>\<open>HandleMutation\<close> implements the abstract replica: on a store that does not fail, a
  mutation takes exactly the specified step (records and recorded offset together) and keeps
  the partition's invariant, and where the specification reports an error or a panic the
  handler reports the same one and changes nothing.
\<close>

theorem HandleMutation_implements_spec:
  assumes "badger_reliable B db_map txn_map"
    and "part_ok db_map p" and "mutation_ok m" and "int64_range off"
  shows "case spec_mutation X (abs_store (db_map (DB p))) m off of
      Ok st \<Rightarrow> \<exists>p'. HandleMutation B X p m off = (Ok (), p') \<and> abs_store (db_map (DB p')) = st \<and>
        part_ok db_map p' \<and> ID p' = ID p \<and> Namespace p' = Namespace p
    | Err e \<Rightarrow> HandleMutation B X p m off = (Err e, p)
    | Panic \<Rightarrow> HandleMutation B X p m off = (Panic, p)"
  by (rule badger_reliable.HandleMutation_refines [OF assms])

theorem HandleMutation_implements_spec_witness:
  "\<exists>p'. HandleMutation mem_badger demo_expr (demo_part [] None) (demo_put ''sk1'' ''x'' (Some ''data == null'') 7) 3
      = (Ok (), p') \<and>
    abs_store (map_of (DB p')) = ((\<lambda>k. None)((''pk1'', ''sk1'') \<mapsto>
      \<lparr>Data = Some [(''v'', JStr ''x'')], CreatedAt = 7, UpdatedAt = 7\<rparr>), Some 3)"
proof -
  let ?m = "demo_put ''sk1'' ''x'' (Some ''data == null'') 7"
  have "abs_store (map_of (DB (demo_part [] None))) = (\<lambda>k. None, None)"
    by (simp add: abs_store_def abs_records_def abs_offset_def demo_part_def fun_eq_iff)
  then have "spec_mutation demo_expr (abs_store (map_of (DB (demo_part [] None)))) ?m 3 =
      Ok ((\<lambda>k. None)((''pk1'', ''sk1'') \<mapsto> \<lparr>Data = Some [(''v'', JStr ''x'')], CreatedAt = 7, UpdatedAt = 7\<rparr>), Some 3)"
    by (simp add: spec_mutation_def spec_put_def loaded_def demo_defs)
  moreover have "mutation_ok ?m" by (rule demo_mutation_ok) (simp add: time_ok_def)
  ultimately show ?thesis
    using HandleMutation_implements_spec [OF mem.badger_reliable_axioms demo_empty_ok, of ?m 3 demo_expr]
    by (auto simp: int64_range_def)
qed

lemma db_Update_keeps:
  assumes "db_Update B p f = (r, p')" and "r \<noteq> Ok ()"
    and "\<And>txn. DB (snd (f txn)) = DB p \<and> ID (snd (f txn)) = ID p"
  shows "DB p' = DB p \<and> ID p' = ID p"
proof (cases "b_begin B (DB p)")
  case (Inr txn)
  obtain r1 p1 where f: "f txn = (r1, p1)" by fastforce
  with assms(3) [of txn] have "DB p1 = DB p \<and> ID p1 = ID p" by simp
  with assms(1,2) Inr f show ?thesis
    by (auto simp: db_Update_def split: go.splits sum.splits)
qed (use assms(1) in \<open>simp add: db_Update_def\<close>)

text \<open>
  C16. A mutation is atomic whatever the store does: if the handler reports an error or
  panics, the database is the one it started from (record and offset are in one
  transaction).
\<close>

theorem HandleMutation_atomic:
  assumes "HandleMutation B X p m off = (r, p')" and "r \<noteq> Ok ()"
  shows "DB p' = DB p \<and> ID p' = ID p"
proof -
  have u: "DB (snd (updateOffsetInTx B p t off)) = DB p \<and> ID (snd (updateOffsetInTx B p t off)) = ID p" for t
    by (simp add: updateOffsetInTx_def split: sum.splits)
  have put: "DB (snd (put_txn B X p pk sk c d off n txn)) = DB p \<and> ID (snd (put_txn B X p pk sk c d off n txn)) = ID p"
    for pk sk c d n txn
    by (simp add: put_txn_def Let_def u split: option.split go.split)
  have del: "DB (snd (delete_txn B X p pk sk c off txn)) = DB p \<and> ID (snd (delete_txn B X p pk sk c off txn)) = ID p"
    for pk sk c txn
    by (simp add: delete_txn_def Let_def u split: option.split go.split)
  consider "m_Mutation m = OperationPut" | "m_Mutation m \<noteq> OperationPut" "m_Mutation m = OperationDelete"
    | "p' = p" using assms(1) by (auto simp: HandleMutation_def split: if_splits)
  then show ?thesis
  proof cases
    case 1
    with assms(1) show ?thesis
      by (intro db_Update_keeps [OF _ assms(2) put]) (simp add: HandleMutation_def handlePut_def)
  next
    case 2
    with assms(1) show ?thesis
      by (intro db_Update_keeps [OF _ assms(2) del]) (simp add: HandleMutation_def handleDelete_def)
  qed simp
qed

theorem HandleMutation_atomic_witness:
  "DB (snd (HandleMutation mem_badger demo_expr (demo_part demo_db None) (demo_put ''a'' ''x'' (Some ''bad'') 7) 3))
     = demo_db"
proof -
  have "HandleMutation mem_badger demo_expr (demo_part demo_db None) (demo_put ''a'' ''x'' (Some ''bad'') 7) 3
      = (Err (External ''compile''), demo_part demo_db None)"
    by code_simp
  from HandleMutation_atomic [OF this] this show ?thesis by (simp add: demo_part_def)
qed

text \<open>
  C15. \<^verbatim>\<open>ReadRecords\<close> returns, in the order of the request, exactly the records the partition
  holds for the requested keys; keys that are not there are left out.
\<close>

theorem ReadRecords_reads_map:
  assumes "badger_reliable B db_map txn_map"
    and "store_ok (db_map (DB p))" and "\<forall>k \<in> set keys. no_nul (Pk k)"
  shows "ReadRecords B p keys = Ok (spec_read (abs_records (db_map (DB p))) keys)"
  by (rule badger_reliable.ReadRecords_spec [OF assms])

theorem ReadRecords_reads_map_witness:
  "ReadRecords mem_badger (demo_part demo_db None) [\<lparr>Pk = ''pk1'', Sk = ''b''\<rparr>, \<lparr>Pk = ''pk1'', Sk = ''zz''\<rparr>] =
    Ok (spec_read (abs_records (map_of demo_db)) [\<lparr>Pk = ''pk1'', Sk = ''b''\<rparr>, \<lparr>Pk = ''pk1'', Sk = ''zz''\<rparr>])"
  using ReadRecords_reads_map [OF mem.badger_reliable_axioms, of "demo_part demo_db None"
      "[\<lparr>Pk = ''pk1'', Sk = ''b''\<rparr>, \<lparr>Pk = ''pk1'', Sk = ''zz''\<rparr>]"] demo_db_ok
  by (simp add: demo_part_def no_nul_def NUL_def)

text \<open>
  C6. \<^verbatim>\<open>ListRecords\<close> returns the records of the partition key whose sort keys properly extend
  the prefix, in ascending byte order of the sort key: those the condition accepts (with
  \<open>ifStop\<close>, up to the first it rejects), cut off at the limit (0 is no limit).
\<close>

theorem ListRecords_lists_map:
  assumes "badger_reliable B db_map txn_map"
    and "store_ok (db_map (DB p))" and "no_nul pk"
    and "\<And>sk. abs_records (db_map (DB p)) (pk, sk) \<noteq> None \<Longrightarrow> prefix skPrefix sk \<Longrightarrow> no_nul sk"
    and "\<And>sk r. abs_records (db_map (DB p)) (pk, sk) = Some r \<Longrightarrow> prefix skPrefix sk \<Longrightarrow>
      sk \<noteq> skPrefix \<Longrightarrow> check_if X ifStmt (ToCompareRecord r pk sk) = Ok (cond sk)"
  shows "ListRecords B X p pk skPrefix limit ifStmt ifStop =
    Ok (spec_list (abs_records (db_map (DB p))) pk skPrefix limit cond ifStop)"
  by (rule badger_reliable.ListRecords_spec [OF assms])

lemma demo_db_keys:
  "abs_records (map_of demo_db) (''pk1'', sk) \<noteq> None \<Longrightarrow> no_nul sk"
proof -
  have "formatRecordKey ''pk1'' sk \<in> dom (map_of demo_db) \<Longrightarrow> sk \<in> {''a'', ''b'', ''ab''}"
    by (auto simp: demo_db_def key_defs)
  moreover assume "abs_records (map_of demo_db) (''pk1'', sk) \<noteq> None"
  ultimately have "sk \<in> {''a'', ''b'', ''ab''}" by (auto simp: abs_records_def Option.bind_eq_Some_conv split: if_splits)
  then show "no_nul sk" by (auto simp: no_nul_def NUL_def)
qed

theorem ListRecords_lists_map_witness:
  "ListRecords mem_badger demo_expr (demo_part demo_db None) ''pk1'' ''a'' 0 None False =
    Ok (spec_list (abs_records (map_of demo_db)) ''pk1'' ''a'' 0 (\<lambda>_. True) False)"
  using ListRecords_lists_map [OF mem.badger_reliable_axioms, of "demo_part demo_db None" "''pk1''" "''a''"
      demo_expr None "\<lambda>_. True" 0 False] demo_db_ok demo_db_keys
  by (simp add: demo_part_def no_nul_def NUL_def check_if_def)

text \<open>
  One record whose sort key contains a NUL byte makes every unlimited, unconditional
  listing that reaches it fail: \<^verbatim>\<open>ListRecords\<close> returns \<^verbatim>\<open>ErrInvalidKey\<close> and no record, although
  a put stores such a record without complaint.
\<close>

theorem ListRecords_fails_on_nul:
  assumes "badger_reliable B db_map txn_map"
    and "store_ok (db_map (DB p))" and "no_nul pk"
    and "abs_records (db_map (DB p)) (pk, sk) \<noteq> None" and "prefix skPrefix sk" and "\<not> no_nul sk"
  shows "ListRecords B X p pk skPrefix 0 None ifStop = Err ErrInvalidKey"
  by (rule badger_reliable.ListRecords_poison [OF assms])

definition demo_nul_db :: mem where
  "demo_nul_db = [(formatRecordKey ''pk1'' ''a'', demo_stored ''1'' 5 5),
                  (formatRecordKey ''pk1'' [CHR ''b'', NUL], demo_stored ''2'' 5 5)]"

theorem ListRecords_fails_on_nul_witness:
  "ListRecords mem_badger demo_expr (demo_part demo_nul_db None) ''pk1'' [] 0 None False = Err ErrInvalidKey"
proof -
  have nn: "no_nul ''pk1''" by (simp add: no_nul_def NUL_def)
  have d: "decode (demo_stored v c u) = Some \<lparr>Data = Some [(''v'', JStr v)], CreatedAt = c, UpdatedAt = u\<rparr>"
    for v c u by (simp add: decode_Some)
  have "store_ok (Map.empty(formatRecordKey ''pk1'' [CHR ''b'', NUL] \<mapsto> demo_stored ''2'' 5 5,
      formatRecordKey ''pk1'' ''a'' \<mapsto> demo_stored ''1'' 5 5))"
    using nn d by (intro store_ok_set store_ok_empty) (auto simp: stored_ok_def data_ok_def time_ok_def)
  then have "store_ok (map_of demo_nul_db)" by (simp add: demo_nul_db_def)
  moreover have "abs_records (map_of demo_nul_db) (''pk1'', [CHR ''b'', NUL]) \<noteq> None"
    using nn d by (simp add: abs_records_def demo_nul_db_def key_defs)
  ultimately show ?thesis
    using nn ListRecords_fails_on_nul [OF mem.badger_reliable_axioms, of "demo_part demo_nul_db None" "''pk1''"
        "[CHR ''b'', NUL]" "[]" demo_expr False]
    by (simp add: demo_part_def no_nul_def NUL_def)
qed

text \<open>
  The condition of a put cannot see when the stored record was last updated: the record
  it is evaluated on carries the new mutation's own time as \<^verbatim>\<open>_updated_at\<close>. Two replicas that
  differ only in the stored update time of the key decide alike and end with the same data.
\<close>

theorem put_condition_blind_to_update_time:
  assumes "badger_reliable B db_map txn_map" and "part_ok db_map p" and "part_ok db_map q"
    and "mutation_ok m" and "int64_range off" and "m_Mutation m = OperationPut"
    and "abs_records (db_map (DB p)) (m_Pk m, m_Sk m) = Some r"
    and "abs_records (db_map (DB q)) = (abs_records (db_map (DB p)))((m_Pk m, m_Sk m) \<mapsto> r\<lparr>UpdatedAt := u\<rparr>)"
  shows "fst (HandleMutation B X q m off) = fst (HandleMutation B X p m off) \<and>
    map_option Data (abs_records (db_map (DB (snd (HandleMutation B X q m off)))) (m_Pk m, m_Sk m)) =
    map_option Data (abs_records (db_map (DB (snd (HandleMutation B X p m off)))) (m_Pk m, m_Sk m))"
proof -
  let ?k = "(m_Pk m, m_Sk m)"
  note p = badger_reliable.HandleMutation_refines [OF assms(1,2,4,5), of X]
  note q = badger_reliable.HandleMutation_refines [OF assms(1,3,4,5), of X]
  have "loaded (abs_records (db_map (DB q))) ?k ts = loaded (abs_records (db_map (DB p))) ?k ts" for ts
    using assms(7,8) by (simp add: loaded_def)
  with p q assms(6,7,8) show ?thesis
    by (cases "check_if X (m_If m) (ToCompareRecord (loaded (abs_records (db_map (DB p))) ?k (m_TsMs m)) (m_Pk m) (m_Sk m))")
      (auto simp: spec_mutation_def spec_put_def abs_store_def Let_def split: if_splits)
qed

theorem put_condition_blind_to_update_time_witness:
  "fst (HandleMutation mem_badger demo_expr (demo_part [(formatRecordKey ''pk1'' ''a'', demo_stored ''1'' 5 99)] None)
      (demo_put ''a'' ''x'' (Some ''true'') 7) 3) =
   fst (HandleMutation mem_badger demo_expr (demo_part [(formatRecordKey ''pk1'' ''a'', demo_stored ''1'' 5 6)] None)
      (demo_put ''a'' ''x'' (Some ''true'') 7) 3)"
proof -
  let ?p = "\<lambda>u. demo_part [(formatRecordKey ''pk1'' ''a'', demo_stored ''1'' 5 u)] None"
  let ?m = "demo_put ''a'' ''x'' (Some ''true'') 7"
  let ?r = "\<lambda>u. \<lparr>Data = Some [(''v'', JStr ''1'')], CreatedAt = 5, UpdatedAt = u\<rparr>"
  have nn: "no_nul ''pk1''" by (simp add: no_nul_def NUL_def)
  have d: "decode (demo_stored ''1'' 5 u) = Some (?r u)" for u by (simp add: decode_Some)
  have map: "map_of (DB (?p u)) = Map.empty(formatRecordKey ''pk1'' ''a'' \<mapsto> demo_stored ''1'' 5 u)" for u
    by (simp add: demo_part_def)
  have ok: "part_ok map_of (?p u)" if "time_ok u" for u
  proof -
    have "store_ok (map_of (DB (?p u)))"
      unfolding map using nn d that by (intro store_ok_set store_ok_empty) (auto simp: stored_ok_def data_ok_def time_ok_def)
    then show ?thesis unfolding part_ok_def map by (simp add: demo_part_def abs_offset_def)
  qed
  have abs: "abs_records (map_of (DB (?p u))) = (\<lambda>_. None)((''pk1'', ''a'') \<mapsto> ?r u)" for u
    unfolding map by (simp add: nn d abs_records_def [of Map.empty] fun_eq_iff)
  have t: "time_ok 6" "time_ok 7" "time_ok 99" by (simp_all add: time_ok_def)
  show ?thesis
    using put_condition_blind_to_update_time [OF mem.badger_reliable_axioms ok [OF t(1)] ok [OF t(3)]
        demo_mutation_ok [OF t(2)], of 3 "''a''" "''x''" "Some ''true''" "?r 6" 99 demo_expr]
    by (simp add: abs int64_range_def demo_put_def)
qed

end
