(* ===== verification/Backup.thy ===== *)
theory Backup
  imports Refinement
begin

text \<open>
  \<^verbatim>\<open>partitions/backup.go\<close>: the names of the backups in the S3 bucket, the upload of a backup,
  the search for the newest one and the restore. The bucket and the store's backup stream
  are parameters; the time limits of the contexts show as errors of the calls they bound.
\<close>

section \<open>The calls\<close>

text \<open>
  \<open>s3_list s prefix\<close> is what \<^verbatim>\<open>ListObjectsV2PagesWithContext\<close> hands to its callback, page by
  page, and the error it may end with. An upload stores an object or fails, and tells
  whether it had read the stream to its end.
\<close>

datatype 's3 upload = Uploaded 's3 | UploadFailed go_error bool

record ('s3, 'bk) s3_api =
  s3_list :: "'s3 \<Rightarrow> string \<Rightarrow> string list list \<times> go_error option"
  s3_upload :: "'s3 \<Rightarrow> string \<Rightarrow> 'bk \<Rightarrow> 's3 upload"
  s3_download :: "'s3 \<Rightarrow> string \<Rightarrow> go_error + 'bk"

text \<open>
  \<^verbatim>\<open>DB.Backup\<close> writes a stream and may stop with an error in the middle of it; \<^verbatim>\<open>DB.Load\<close>
  may have loaded a part when it fails.
\<close>

record ('db, 'bk) backup_api =
  b_backup :: "'db \<Rightarrow> 'bk \<times> go_error option"
  b_load :: "'db \<Rightarrow> 'bk \<Rightarrow> 'db \<times> go_error option"

section \<open>Names\<close>

definition backup_prefix :: "string \<Rightarrow> int \<Rightarrow> string" where
  "backup_prefix ns i = ''firescroll/'' @ ns @ ''/'' @ int_str i @ ''-''"

definition backup_key :: "string \<Rightarrow> int \<Rightarrow> int \<Rightarrow> string" where
  "backup_key ns i off = ''firescroll/'' @ ns @ ''/'' @ int_str i @ ''-'' @ int_str off @ ''.bdb''"

text \<open>
  \<^verbatim>\<open>strconv.ParseInt(strings.Split(strings.Split(parts[len(parts)-1], "-")[1], ".bdb")[0], 10, 64)\<close>:
  a last component without a dash makes the index panic.
\<close>

definition parse_backup :: "string \<Rightarrow> int option go" where
  "parse_backup key =
     (let parts = split_str ''/'' key;
          segs = split_str ''-'' (last parts)
      in if length segs < 2 then Panic
         else Ok (ParseInt (hd (split_str ''.bdb'' (segs ! 1)))))"

section \<open>\<^verbatim>\<open>getLatestBackupOffset\<close>\<close>

text \<open>
  The callback on one page. A name that does not parse ends the callback
  (\<^verbatim>\<open>return true\<close>: go on with the next page).
\<close>

fun scan_page :: "string list \<Rightarrow> int \<times> string \<Rightarrow> (int \<times> string) go" where
  "scan_page [] newest = Ok newest"
| "scan_page (thisKey # contents) newest =
     bind_go (parse_backup thisKey) (\<lambda>r. case r of
         None \<Rightarrow> Ok newest
       | Some thisOffset \<Rightarrow>
           scan_page contents
             (if thisOffset > fst newest then (thisOffset, thisKey) else newest))"

fun scan_pages :: "string list list \<Rightarrow> int \<times> string \<Rightarrow> (int \<times> string) go" where
  "scan_pages [] newest = Ok newest"
| "scan_pages (page # pages) newest = bind_go (scan_page page newest) (scan_pages pages)"

definition getLatestBackupOffset :: "('s3, 'bk) s3_api \<Rightarrow> 's3 \<Rightarrow> 'db Partition \<Rightarrow> (int \<times> string) go" where
  "getLatestBackupOffset A s p =
     (case s3_list A s (backup_prefix (Namespace p) (ID p)) of (pages, err) \<Rightarrow>
        bind_go (scan_pages pages (0, [])) (\<lambda>(newestOffset, newestBackup).
          case err of
            Some e \<Rightarrow> Err e
          | None \<Rightarrow> if newestBackup = [] then Err ErrBackupNotFound
                    else Ok (newestOffset, newestBackup)))"

section \<open>\<^verbatim>\<open>runBackup\<close>\<close>

text \<open>
  The key is formed first; the snapshot is taken by the goroutine that runs \<^verbatim>\<open>DB.Backup\<close>, of
  the database as it is then (\<open>d\<close>): mutations may have been applied in between. A failed
  \<^verbatim>\<open>DB.Backup\<close> closes the pipe as a complete one does, so what it had written is uploaded.
  An upload that stops reading leaves the writer blocked, and \<^verbatim>\<open>g.Wait()\<close> with it.
\<close>

datatype backup_outcome = Finished "unit go" | Blocked

definition runBackup :: "('s3, 'bk) s3_api \<Rightarrow> ('db, 'bk) backup_api \<Rightarrow> 'db Partition \<Rightarrow> 'db \<Rightarrow> 's3 \<Rightarrow>
    backup_outcome \<times> 's3" where
  "runBackup A K p d s =
     (case LastOffset p of
        None \<Rightarrow> (Finished (Ok ()), s)
      | Some off \<Rightarrow>
          (let key = backup_key (Namespace p) (ID p) off;
               (stream, err) = b_backup K d
           in case s3_upload A s key stream of
                Uploaded s' \<Rightarrow> (Finished (case err of None \<Rightarrow> Ok () | Some e \<Rightarrow> Err e), s')
              | UploadFailed e drained \<Rightarrow>
                  (if drained then Finished (Err (case err of None \<Rightarrow> e | Some e' \<Rightarrow> e')) else Blocked, s)))"

section \<open>\<^verbatim>\<open>checkAndRestoreFromS3\<close>\<close>

text \<open>
  \<open>created\<close> says whether \<^verbatim>\<open>os.Create\<close> succeeded: its error is overwritten, and the download
  then writes to a nil file, which fails. The database that is loaded into is the one that
  is open.
\<close>

definition checkAndRestoreFromS3 :: "('s3, 'bk) s3_api \<Rightarrow> ('db, 'bk) backup_api \<Rightarrow> bool \<Rightarrow> 's3 \<Rightarrow>
    'db Partition \<Rightarrow> unit go \<times> 'db Partition" where
  "checkAndRestoreFromS3 A K created s p =
     (case getLatestBackupOffset A s p of
        Err e \<Rightarrow> (Err e, p)
      | Panic \<Rightarrow> (Panic, p)
      | Ok (offset, newestBackup) \<Rightarrow>
          if (case LastOffset p of None \<Rightarrow> False | Some l \<Rightarrow> offset \<le> l) then (Err ErrRemoteOffsetLower, p)
          else (case s3_download A s newestBackup of
              Inl e \<Rightarrow> (Err e, p)
            | Inr bk \<Rightarrow>
                if \<not> created then (Err (External ''invalid argument''), p)
                else (case b_load K (DB p) bk of
                    (d, Some e) \<Rightarrow> (Err e, p\<lparr>DB := d\<rparr>)
                  | (d, None) \<Rightarrow> (Ok (), p\<lparr>DB := d, LastOffset := Some offset\<rparr>))))"

section \<open>The bucket as it is documented\<close>

locale s3_bucket =
  fixes A :: "('s3, 'bk) s3_api" and s3_map :: "'s3 \<Rightarrow> string \<Rightarrow> 'bk option"
  assumes list_keys: "s3_list A s pfx = (pages, None) \<Longrightarrow>
      set (concat pages) = {k \<in> dom (s3_map s). prefix pfx k}"
    and upload_map: "s3_upload A s k b = Uploaded s' \<Longrightarrow> s3_map s' = (s3_map s)(k \<mapsto> b)"
    and download_map: "s3_download A s k = Inr b \<Longrightarrow> s3_map s k = Some b"

text \<open>A backup of a database, loaded into an empty one, gives back what it held.\<close>

locale badger_backup =
  fixes K :: "('db, 'bk) backup_api" and db_map :: "'db \<Rightarrow> bytes \<Rightarrow> wire option"
    and bk_map :: "'bk \<Rightarrow> bytes \<Rightarrow> wire option"
  assumes backup_map: "b_backup K d = (b, None) \<Longrightarrow> bk_map b = db_map d"
    and load_empty: "db_map d = Map.empty \<Longrightarrow> b_load K d b = (d', None) \<Longrightarrow> db_map d' = bk_map b"

text \<open>Reference instances: a bucket that lists its keys on one page, a stream that is the database.\<close>

type_synonym 'bk mem_s3 = "(string \<times> 'bk) list"

definition mem_s3 :: "('bk mem_s3, 'bk) s3_api" where
  "mem_s3 = \<lparr>
     s3_list = (\<lambda>s pfx. ([filter (prefix pfx) (sort (remdups (map fst s)))], None)),
     s3_upload = (\<lambda>s k b. Uploaded (AList.update k b s)),
     s3_download = (\<lambda>s k. case map_of s k of None \<Rightarrow> Inl (External ''NoSuchKey'') | Some b \<Rightarrow> Inr b)\<rparr>"

definition mem_backup :: "(mem, mem) backup_api" where
  "mem_backup = \<lparr>b_backup = (\<lambda>d. (d, None)), b_load = (\<lambda>d b. (b @ d, None))\<rparr>"

interpretation mem_s3: s3_bucket mem_s3 map_of
  by unfold_locales
    (auto simp: mem_s3_def update_conv' dom_map_of_conv_image_fst split: option.splits)

interpretation mem_backup: badger_backup mem_backup map_of map_of
  by unfold_locales (auto simp: mem_backup_def map_add_def fun_eq_iff split: option.splits)

section \<open>Names parse back\<close>

lemma last_split: "c \<notin> set t \<Longrightarrow> last (split_str [c] (s @ c # t)) = t"
proof (induction s rule: length_induct)
  case (1 s)
  show ?case
  proof (cases "c \<in> set s")
    case True
    then obtain a b where s: "s = a @ c # b" "c \<notin> set a" by (meson split_list_first)
    with 1 have "last (split_str [c] (b @ c # t)) = t" by simp
    moreover have "split_str [c] (b @ c # t) \<noteq> []"
      using length_split_byte [of c "b @ c # t"] by (metis list.size(3) nat.distinct(1))
    ultimately show ?thesis using s by (simp add: split_str_byte_some)
  qed (simp add: split_str_byte_some split_str_byte_none 1)
qed

lemma cut_bdb: "CHR ''.'' \<notin> set s \<Longrightarrow> cut ''.bdb'' (s @ ''.bdb'' @ r) = Some (s, r)"
  by (induction s) auto

lemma int_str_nonneg: "0 \<le> i \<Longrightarrow> int_str i = nat_str (nat i)"
  by (simp add: int_str_def)

lemma parse_backup_key:
  assumes "0 \<le> i" and "0 \<le> off" and "int64_range off"
  shows "parse_backup (backup_key ns i off) = Ok (Some off)"
proof -
  let ?base = "nat_str (nat i) @ CHR ''-'' # nat_str (nat off) @ ''.bdb''"
  have "backup_key ns i off = (''firescroll/'' @ ns) @ CHR ''/'' # ?base"
    using assms by (simp add: backup_key_def int_str_nonneg)
  then have "last (split_str ''/'' (backup_key ns i off)) = ?base"
    using last_split [of "CHR ''/''" ?base "''firescroll/'' @ ns"] by simp
  moreover have "split_str ''-'' ?base = [nat_str (nat i), nat_str (nat off) @ ''.bdb'']"
    by (simp add: split_str_byte_some split_str_byte_none)
  moreover have "hd (split_str ''.bdb'' (nat_str (nat off) @ ''.bdb'')) = nat_str (nat off)"
    using cut_bdb [of "nat_str (nat off)" "[]"] by (subst split_str.simps) simp
  moreover have "ParseInt (nat_str (nat off)) = Some off"
    using ParseInt_int_str [OF assms(3)] assms(2) by (simp add: int_str_nonneg)
  ultimately show ?thesis by (simp add: parse_backup_def Let_def)
qed

lemma backup_key_inject:
  "0 \<le> a \<Longrightarrow> 0 \<le> b \<Longrightarrow> backup_key ns i a = backup_key ns i b \<Longrightarrow> a = b"
  by (auto simp: backup_key_def dest: int_str_inj)

lemma backup_key_nonempty [simp]: "backup_key ns i off \<noteq> []"
  by (simp add: backup_key_def)

lemma backup_key_prefix:
  assumes ns: "CHR ''/'' \<notin> set ns" "CHR ''/'' \<notin> set ns'" and i: "0 \<le> i" "0 \<le> i'"
  shows "prefix (backup_prefix ns i) (backup_key ns' i' off) \<longleftrightarrow> ns = ns' \<and> i = i'"
proof
  assume "prefix (backup_prefix ns i) (backup_key ns' i' off)"
  then obtain r where "ns @ CHR ''/'' # int_str i @ CHR ''-'' # r = ns' @ CHR ''/'' # int_str i' @ CHR ''-'' # int_str off @ ''.bdb''"
    by (auto simp: prefix_def backup_prefix_def backup_key_def)
  then have "ns = ns'" and "int_str i @ CHR ''-'' # r = int_str i' @ CHR ''-'' # int_str off @ ''.bdb''"
    using ns by (simp_all add: eq_at_first)
  then show "ns = ns' \<and> i = i'"
    using i by (auto simp: eq_at_first int_str_nonneg dest: nat_str_inj)
qed (auto simp: backup_prefix_def backup_key_def)

section \<open>The search\<close>

lemma scan_page_append:
  "\<forall>k \<in> set page. \<exists>off. parse_backup k = Ok (Some off) \<Longrightarrow>
    scan_page (page @ ks) st = bind_go (scan_page page st) (scan_page ks)"
  by (induction page arbitrary: st) auto

lemma scan_pages_concat:
  "\<forall>k \<in> set (concat pages). \<exists>off. parse_backup k = Ok (Some off) \<Longrightarrow>
    scan_pages pages st = scan_page (concat pages) st"
proof (induction pages arbitrary: st)
  case (Cons page pages)
  then have "scan_pages pages = scan_page (concat pages)" by (intro ext) simp
  with Cons.prems show ?case by (simp add: scan_page_append)
qed simp

lemma scan_page_Max:
  assumes "\<forall>off \<in> set offs. 0 \<le> off \<and> int64_range off" and "0 \<le> i"
  shows "scan_page (map (backup_key ns i) offs) (n, b) =
    Ok (if \<exists>off \<in> set offs. n < off then (Max (set offs), backup_key ns i (Max (set offs))) else (n, b))"
  using assms
proof (induction offs arbitrary: n b)
  case (Cons a offs)
  show ?case
  proof (cases "offs = []")
    case True
    with Cons.prems show ?thesis by (simp add: parse_backup_key)
  next
    case False
    have M: "Max (insert a (set offs)) = max a (Max (set offs))"
      using False by (simp add: Max_insert)
    have ex: "(\<exists>off \<in> set offs. n < off) \<longleftrightarrow> n < Max (set offs)" for n
      using False by (simp add: Max_gr_iff)
    show ?thesis using Cons.prems
      by (auto simp: parse_backup_key Cons.IH ex M max_def simp del: Max_insert)
  qed
qed simp

lemma keys_as_offsets:
  assumes "set ks = backup_key ns i ` offs" and "\<forall>off \<in> offs. 0 \<le> off"
  shows "\<exists>os. ks = map (backup_key ns i) os \<and> set os = offs"
proof -
  let ?inv = "inv_into offs (backup_key ns i)"
  have "inj_on (backup_key ns i) offs"
    using assms(2) by (auto intro!: inj_onI backup_key_inject)
  then have "set (map ?inv ks) = offs" using assms(1) by simp
  moreover have "map (backup_key ns i) (map ?inv ks) = ks"
    using assms(1) by (auto simp: o_def f_inv_into_f intro!: map_idI)
  ultimately show ?thesis by metis
qed

context s3_bucket
begin

lemma latest:
  assumes pages: "s3_list A s (backup_prefix (Namespace p) (ID p)) = (pages, None)"
    and i: "0 \<le> ID p"
    and bucket: "{k \<in> dom (s3_map s). prefix (backup_prefix (Namespace p) (ID p)) k} =
      backup_key (Namespace p) (ID p) ` offs"
    and offs: "\<forall>off \<in> offs. 0 \<le> off \<and> int64_range off"
  shows "getLatestBackupOffset A s p =
    (if \<exists>off \<in> offs. 0 < off then Ok (Max offs, backup_key (Namespace p) (ID p) (Max offs))
     else Err ErrBackupNotFound)"
proof -
  let ?key = "backup_key (Namespace p) (ID p)"
  obtain os where os: "concat pages = map ?key os" "set os = offs"
    using keys_as_offsets list_keys [OF pages] bucket offs by metis
  have "\<forall>k \<in> set (concat pages). \<exists>off. parse_backup k = Ok (Some off)"
    unfolding os using os offs i by (auto simp: parse_backup_key)
  then have "scan_pages pages (0, []) = scan_page (map ?key os) (0, [])"
    using os by (simp add: scan_pages_concat)
  then show ?thesis
    using scan_page_Max [of os "ID p" "Namespace p" 0 "[]"] offs i pages os
    by (auto simp: getLatestBackupOffset_def)
qed

end

section \<open>Properties\<close>

text \<open>
  C34. If the objects under a partition's prefix are its backups, \<^verbatim>\<open>getLatestBackupOffset\<close>
  returns the greatest offset and the name of that backup, however the bucket pages its
  answer; except that a backup at offset 0 alone is not found, since the search starts with
  0 as the newest offset.
\<close>

theorem getLatestBackupOffset_newest:
  assumes "s3_bucket A s3_map"
    and "s3_list A s (backup_prefix (Namespace p) (ID p)) = (pages, None)"
    and "0 \<le> ID p"
    and "{k \<in> dom (s3_map s). prefix (backup_prefix (Namespace p) (ID p)) k} =
      backup_key (Namespace p) (ID p) ` offs"
    and "\<forall>off \<in> offs. 0 \<le> off \<and> int64_range off"
  shows "getLatestBackupOffset A s p =
    (if \<exists>off \<in> offs. 0 < off then Ok (Max offs, backup_key (Namespace p) (ID p) (Max offs))
     else Err ErrBackupNotFound)"
  by (rule s3_bucket.latest [OF assms])

definition demo_bucket :: "mem mem_s3" where
  "demo_bucket = [(backup_key ''ns'' 0 5, []), (backup_key ''ns'' 0 40, []), (backup_key ''ns'' 0 9, [])]"

theorem getLatestBackupOffset_newest_witness:
  "getLatestBackupOffset mem_s3 demo_bucket (demo_part [] None) = Ok (40, ''firescroll/ns/0-40.bdb'')"
proof -
  let ?p = "demo_part [] None"
  have p: "Namespace ?p = ''ns''" "ID ?p = 0" by (simp_all add: demo_part_def)
  obtain page where list: "s3_list mem_s3 demo_bucket (backup_prefix ''ns'' 0) = ([page], None)"
    by (simp add: mem_s3_def)
  have "{k \<in> dom (map_of demo_bucket). prefix (backup_prefix ''ns'' 0) k} = backup_key ''ns'' 0 ` {5, 40, 9}"
    by (auto simp: demo_bucket_def backup_key_prefix dom_map_of_conv_image_fst)
  with list have "getLatestBackupOffset mem_s3 demo_bucket ?p = Ok (40, backup_key ''ns'' 0 40)"
    using getLatestBackupOffset_newest [OF mem_s3.s3_bucket_axioms, of demo_bucket ?p "[page]" "{5, 40, 9}"] p
    by (simp add: int64_range_def)
  then show ?thesis by code_simp
qed

text \<open>
  Backups are told apart by their prefix: the search for one partition never sees the
  backups of another partition or of another namespace (of namespaces without a slash).
\<close>

theorem backup_prefix_isolates:
  assumes "CHR ''/'' \<notin> set ns" and "CHR ''/'' \<notin> set ns'" and "0 \<le> i" and "0 \<le> i'"
  shows "prefix (backup_prefix ns i) (backup_key ns' i' off) \<longleftrightarrow> ns = ns' \<and> i = i'"
  using assms by (rule backup_key_prefix)

theorem backup_prefix_isolates_witness:
  "\<not> prefix (backup_prefix ''ns'' 1) (backup_key ''ns'' 11 7)"
  using backup_prefix_isolates [of "''ns''" "''ns''" 1 11 7] by simp

text \<open>
  An object whose name does not parse hides every object listed after it on its page,
  not just itself.
\<close>

theorem getLatestBackupOffset_stray:
  assumes "parse_backup stray = Ok None"
    and "\<forall>k \<in> set before. \<exists>off. parse_backup k = Ok (Some off)"
    and "s3_list A s (backup_prefix (Namespace p) (ID p)) = ([before @ stray # behind], None)"
    and "s3_list A s' (backup_prefix (Namespace p) (ID p)) = ([before], None)"
  shows "getLatestBackupOffset A s p = getLatestBackupOffset A s' p"
proof -
  have "scan_page (before @ stray # behind) st = scan_page (before @ []) st" for st
    unfolding scan_page_append [OF assms(2)] by (cases "scan_page before st") (simp_all add: assms(1))
  with assms(3,4) show ?thesis by (simp add: getLatestBackupOffset_def)
qed

theorem getLatestBackupOffset_stray_witness:
  "getLatestBackupOffset mem_s3 [(''firescroll/ns/0-1x.bdb'', []), (''firescroll/ns/0-7.bdb'', [])]
     (demo_part [] None) = (Err ErrBackupNotFound :: (int \<times> string) go)"
proof -
  let ?s = "[(''firescroll/ns/0-1x.bdb'', [] :: mem), (''firescroll/ns/0-7.bdb'', [])]"
  let ?p = "demo_part [] None"
  have "parse_backup ''firescroll/ns/0-1x.bdb'' = Ok None" by code_simp
  moreover have "s3_list mem_s3 ?s (backup_prefix (Namespace ?p) (ID ?p)) =
      ([[] @ ''firescroll/ns/0-1x.bdb'' # [''firescroll/ns/0-7.bdb'']], None)" by code_simp
  moreover have "s3_list mem_s3 ([] :: mem mem_s3) (backup_prefix (Namespace ?p) (ID ?p)) = ([[]], None)"
    by (simp add: mem_s3_def)
  ultimately have "getLatestBackupOffset mem_s3 ?s ?p = getLatestBackupOffset mem_s3 ([] :: mem mem_s3) ?p"
    by (intro getLatestBackupOffset_stray) auto
  then show ?thesis
    by (simp add: getLatestBackupOffset_def mem_s3_def)
qed

text \<open>
  When \<^verbatim>\<open>DB.Backup\<close> fails half way the error is reported, but what it had written is in
  the bucket under the name of a complete backup.
\<close>

theorem runBackup_keeps_truncated_backup:
  assumes "s3_bucket A s3_map" and "LastOffset p = Some off"
    and "b_backup K d = (stream, Some e)"
    and "s3_upload A s (backup_key (Namespace p) (ID p) off) stream = Uploaded s'"
  shows "runBackup A K p d s = (Finished (Err e), s') \<and>
    s3_map s' (backup_key (Namespace p) (ID p) off) = Some stream"
  using s3_bucket.upload_map [OF assms(1,4)] assms(2-4) by (simp add: runBackup_def Let_def)

theorem runBackup_keeps_truncated_backup_witness:
  "runBackup mem_s3 \<lparr>b_backup = (\<lambda>d. (take 1 d, Some (External ''io''))), b_load = (\<lambda>d b. (b, None))\<rparr>
     (demo_part demo_db (Some 3)) demo_db [] =
   (Finished (Err (External ''io'')), [(backup_key ''ns'' 0 3, take 1 demo_db)])"
  using runBackup_keeps_truncated_backup [OF mem_s3.s3_bucket_axioms, of "demo_part demo_db (Some 3)" 3
      "\<lparr>b_backup = (\<lambda>d. (take 1 d, Some (External ''io''))), b_load = (\<lambda>d b. (b, None))\<rparr>" demo_db
      "take 1 demo_db" "External ''io''" "[]" "[(backup_key ''ns'' 0 3, take 1 demo_db)]"]
  by (simp add: demo_part_def mem_s3_def)

end
