(* ===== verification/Lifecycle.thy ===== *)
theory Lifecycle
  imports Backup
begin

text \<open>
  The life of a partition in \<^verbatim>\<open>partitions/partition.go\<close>: how it is opened (\<^verbatim>\<open>createLocalDB\<close>,
  \<^verbatim>\<open>newPartition\<close>), the two goroutines that belong to it (\<^verbatim>\<open>gcTickHandler\<close> and, of
  \<^verbatim>\<open>backup.go\<close>, \<^verbatim>\<open>backupInterval\<close>), and how it is shut down and deleted. Opening is a function
  on the directory of databases; the goroutines, the channel between them and the caller of
  \<^verbatim>\<open>Shutdown\<close> are a step relation.
\<close>

section \<open>Opening\<close>

text \<open>
  What the node is configured with and what it calls: \<open>env_open\<close> is \<^verbatim>\<open>badger.Open\<close> on a
  directory with the given content (\<open>None\<close>: there is none), \<open>env_session\<close> the error of
  \<^verbatim>\<open>session.NewSession\<close>, \<open>env_created\<close> the success of \<^verbatim>\<open>os.Create\<close>, \<open>env_text\<close> the text
  \<^verbatim>\<open>json.Marshal\<close> writes for a document, \<open>env_close\<close> and \<open>env_remove\<close> the errors of
  \<^verbatim>\<open>DB.Close\<close> and \<^verbatim>\<open>os.RemoveAll\<close>.
\<close>

record ('db, 'txn, 's3, 'bk) node_env =
  env_B :: "('db, 'txn) badger_api"
  env_K :: "('db, 'bk) backup_api"
  env_A :: "('s3, 'bk) s3_api"
  env_open :: "'db option \<Rightarrow> go_error + 'db"
  env_session :: "go_error option"
  env_created :: bool
  env_text :: "json \<Rightarrow> bytes"
  env_close :: "'db \<Rightarrow> go_error option"
  env_remove :: "string \<Rightarrow> go_error option"
  env_BackupEnabled :: bool
  env_S3RestoreEnabled :: bool

text \<open>
  The directory \<^verbatim>\<open>DB_PATH\<close>: the content of the database in each of its entries, as it will
  be found when it is opened.
\<close>

type_synonym 'db disk = "string \<Rightarrow> 'db option"

definition getPartitionPath :: "int \<Rightarrow> string" where
  "getPartitionPath i = int_str i @ ''.db''"

definition createLocalDB :: "('db, 'txn, 's3, 'bk) node_env \<Rightarrow> 'db disk \<Rightarrow> int \<Rightarrow> ('db \<times> bool) go \<times> 'db disk" where
  "createLocalDB E disk i =
     (let partitionPath = getPartitionPath i;
          exists = disk partitionPath \<noteq> None
      in case env_open E (disk partitionPath) of
           Inl e \<Rightarrow> (Err e, disk)
         | Inr db \<Rightarrow> (Ok (db, exists), disk(partitionPath \<mapsto> db)))"

definition wire_bytes :: "('db, 'txn, 's3, 'bk) node_env \<Rightarrow> wire \<Rightarrow> bytes" where
  "wire_bytes E w = (case w of Raw b \<Rightarrow> b | Doc j \<Rightarrow> env_text E j)"

text \<open>
  The offset is read back from its key. An error of \<^verbatim>\<open>txn.Get\<close> other than
  \<^verbatim>\<open>ErrKeyNotFound\<close> is not tested: the nil item is used, which panics.
\<close>

definition readLastOffset :: "('db, 'txn, 's3, 'bk) node_env \<Rightarrow> 'db \<Rightarrow> int option go" where
  "readLastOffset E db =
     bind_go (db_View (env_B E) db (\<lambda>txn. case txn of
         None \<Rightarrow> Panic
       | Some t \<Rightarrow>
           (case b_get (env_B E) t LastOffsetKey of
              NotFound \<Rightarrow> Ok []
            | GetErr e \<Rightarrow> Panic
            | Item (Inl e) \<Rightarrow> Err e
            | Item (Inr w) \<Rightarrow> Ok (wire_bytes E w))))
       (\<lambda>b. if length b > 0 then bind_go (Uint64 b) (\<lambda>x. Ok (Some (wrap64 x))) else Ok None)"

definition newPartition :: "('db, 'txn, 's3, 'bk) node_env \<Rightarrow> 's3 \<Rightarrow> 'db disk \<Rightarrow> string \<Rightarrow> int \<Rightarrow>
    'db Partition go \<times> 'db disk" where
  "newPartition E s disk namespace i =
     (case createLocalDB E disk i of
        (Err e, disk') \<Rightarrow> (Err e, disk')
      | (Panic, disk') \<Rightarrow> (Panic, disk')
      | (Ok (db, restored), disk') \<Rightarrow>
          (let part = \<lparr>ID = i, DB = db, LastOffset = None, Namespace = namespace\<rparr>;
               sessionErr = (if env_BackupEnabled E \<or> env_S3RestoreEnabled E then env_session E else None)
           in (case sessionErr of Some e \<Rightarrow> Err e | None \<Rightarrow>
                 bind_go (if restored then readLastOffset E db else Ok None) (\<lambda>off.
                   let part = part\<lparr>LastOffset := off\<rparr>
                   in if env_S3RestoreEnabled E
                      then (case checkAndRestoreFromS3 (env_A E) (env_K E) (env_created E) s part of
                          (Ok _, part') \<Rightarrow> Ok part'
                        | (Err e, part') \<Rightarrow>
                            if e = ErrBackupNotFound \<or> e = ErrRemoteOffsetLower then Ok part' else Err e
                        | (Panic, _) \<Rightarrow> Panic)
                      else Ok part),
               disk')))"

text \<open>\<^verbatim>\<open>Shutdown\<close> closes the database, whose content is then what the directory holds.\<close>

definition close_db :: "('db, 'txn, 's3, 'bk) node_env \<Rightarrow> 'db Partition \<Rightarrow> 'db disk \<Rightarrow> unit go \<times> 'db disk" where
  "close_db E p disk =
     (case env_close E (DB p) of
        Some e \<Rightarrow> (Err e, disk)
      | None \<Rightarrow> (Ok (), disk(getPartitionPath (ID p) \<mapsto> DB p)))"

definition remove_dir :: "('db, 'txn, 's3, 'bk) node_env \<Rightarrow> int \<Rightarrow> 'db disk \<Rightarrow> unit go \<times> 'db disk" where
  "remove_dir E i disk =
     (case env_remove E (getPartitionPath i) of
        Some e \<Rightarrow> (Err e, disk)
      | None \<Rightarrow> (Ok (), disk(getPartitionPath i := None)))"

lemma getPartitionPath_inject [simp]: "getPartitionPath i = getPartitionPath j \<longleftrightarrow> i = j"
  by (auto simp: getPartitionPath_def dest: int_str_inj)

section \<open>The goroutines and the channel\<close>

text \<open>
  The garbage collector waits in its \<^verbatim>\<open>select\<close>, then (after a tick) for the running backup to
  end (\<open>Pausing\<close>), then works; the backup goroutine waits or works. A goroutine that has
  returned, or was never started, is \<open>Exited\<close>.
\<close>

datatype phase = Waiting | Pausing | Working | Exited

text \<open>The steps of the function that shuts a partition down.\<close>

datatype action = StopTicker | Send | CloseDB | RemoveDir

text \<open>
  \<open>chan\<close> counts the tokens in \<^verbatim>\<open>closeChan\<close> (of capacity 2), \<open>pending\<close> says that a tick waits
  in the collector's ticker. The backup's ticker is never stopped, so it can always tick.
\<close>

record threads =
  chan :: nat
  gc :: phase
  backup :: phase
  ticking :: bool
  pending :: bool
  todo :: "action list"
  db_open :: bool
  on_disk :: bool

definition Shutdown_actions :: "action list" where
  "Shutdown_actions = [StopTicker, Send, Send, CloseDB]"

definition delete_actions :: "action list" where
  "delete_actions = Shutdown_actions @ [RemoveDir]"

text \<open>\<^verbatim>\<open>PartitionManager.RemovePartition\<close> of a partition it has: \<^verbatim>\<open>Shutdown\<close>, then \<^verbatim>\<open>delete\<close>.\<close>

definition RemovePartition_actions :: "action list" where
  "RemovePartition_actions = Shutdown_actions @ delete_actions"

definition start_threads :: "bool \<Rightarrow> action list \<Rightarrow> threads" where
  "start_threads backupEnabled acts = \<lparr>chan = 0, gc = Waiting,
     backup = (if backupEnabled then Waiting else Exited), ticking = True, pending = False,
     todo = acts, db_open = True, on_disk = True\<rparr>"

text \<open>\<^verbatim>\<open>gcTickHandler\<close>; a tick that waits is taken or not, as \<^verbatim>\<open>select\<close> likes.\<close>

inductive gc_step :: "threads \<Rightarrow> threads \<Rightarrow> bool" where
  gc_ticks: "gc t = Waiting \<Longrightarrow> pending t \<Longrightarrow> gc_step t (t\<lparr>pending := False, gc := Pausing\<rparr>)"
| gc_works: "gc t = Pausing \<Longrightarrow> backup t \<noteq> Working \<Longrightarrow> gc_step t (t\<lparr>gc := Working\<rparr>)"
| gc_rests: "gc t = Working \<Longrightarrow> gc_step t (t\<lparr>gc := Waiting\<rparr>)"
| gc_exits: "gc t = Waiting \<Longrightarrow> 0 < chan t \<Longrightarrow> gc_step t (t\<lparr>gc := Exited, chan := chan t - 1\<rparr>)"

text \<open>\<^verbatim>\<open>backupInterval\<close>: the error of a backup is logged and the loop goes on.\<close>

inductive backup_step :: "threads \<Rightarrow> threads \<Rightarrow> bool" where
  backup_ticks: "backup t = Waiting \<Longrightarrow> backup_step t (t\<lparr>backup := Working\<rparr>)"
| backup_rests: "backup t = Working \<Longrightarrow> backup_step t (t\<lparr>backup := Waiting\<rparr>)"
| backup_exits: "backup t = Waiting \<Longrightarrow> 0 < chan t \<Longrightarrow> backup_step t (t\<lparr>backup := Exited, chan := chan t - 1\<rparr>)"

text \<open>The caller: \<^verbatim>\<open>Shutdown\<close>, \<^verbatim>\<open>delete\<close>. A send waits for room in the channel.\<close>

inductive shutdown_step :: "threads \<Rightarrow> threads \<Rightarrow> bool" where
  stops: "todo t = StopTicker # acts \<Longrightarrow> shutdown_step t (t\<lparr>ticking := False, todo := acts\<rparr>)"
| sends: "todo t = Send # acts \<Longrightarrow> chan t < 2 \<Longrightarrow> shutdown_step t (t\<lparr>chan := chan t + 1, todo := acts\<rparr>)"
| closes: "todo t = CloseDB # acts \<Longrightarrow> shutdown_step t (t\<lparr>db_open := False, todo := acts\<rparr>)"
| removes: "todo t = RemoveDir # acts \<Longrightarrow> shutdown_step t (t\<lparr>on_disk := False, todo := acts\<rparr>)"

inductive thread_step :: "threads \<Rightarrow> threads \<Rightarrow> bool" where
  tick: "ticking t \<Longrightarrow> thread_step t (t\<lparr>pending := True\<rparr>)"
| by_gc: "gc_step t t' \<Longrightarrow> thread_step t t'"
| by_backup: "backup_step t t' \<Longrightarrow> thread_step t t'"
| by_caller: "shutdown_step t t' \<Longrightarrow> thread_step t t'"

lemmas gc_tick = by_gc [OF gc_ticks] and gc_work = by_gc [OF gc_works] and gc_done = by_gc [OF gc_rests]
  and gc_exit = by_gc [OF gc_exits]
lemmas backup_tick = by_backup [OF backup_ticks] and backup_done = by_backup [OF backup_rests]
  and backup_exit = by_backup [OF backup_exits]
lemmas stop_ticker = by_caller [OF stops] and send = by_caller [OF sends] and close = by_caller [OF closes]
  and remove = by_caller [OF removes]

inductive_cases gc_stepE: "gc_step t t'"
inductive_cases backup_stepE: "backup_step t t'"
inductive_cases shutdown_stepE: "shutdown_step t t'"
inductive_cases thread_stepE: "thread_step t t'"

lemmas thread_stepEs = thread_stepE gc_stepE backup_stepE shutdown_stepE

abbreviation thread_steps :: "threads \<Rightarrow> threads \<Rightarrow> bool" where
  "thread_steps \<equiv> thread_step\<^sup>*\<^sup>*"

definition exits :: "threads \<Rightarrow> nat" where
  "exits t = of_bool (gc t = Exited) + of_bool (backup t = Exited)"

definition sends :: "threads \<Rightarrow> nat" where
  "sends t = count_list (todo t) Send"

text \<open>
  Every token that was sent is in the channel or has ended a goroutine: \<open>n\<close> is the number
  of tokens of the whole program, \<open>n0\<close> that of the goroutines that never ran.
\<close>

definition tokens_inv :: "nat \<Rightarrow> nat \<Rightarrow> threads \<Rightarrow> bool" where
  "tokens_inv n n0 t \<longleftrightarrow> chan t + exits t + sends t = n + n0 \<and> chan t \<le> 2"

lemma tokens_step: "thread_step t t' \<Longrightarrow> tokens_inv n n0 t \<Longrightarrow> tokens_inv n n0 t'"
  by (auto elim!: thread_stepEs simp: tokens_inv_def exits_def sends_def)

lemma tokens_steps: "thread_steps t t' \<Longrightarrow> tokens_inv n n0 t \<Longrightarrow> tokens_inv n n0 t'"
  by (induction rule: rtranclp_induct) (auto intro: tokens_step)

lemma tokens_start: "tokens_inv (count_list acts Send) (of_bool (\<not> b)) (start_threads b acts)"
  by (simp add: tokens_inv_def exits_def sends_def start_threads_def)

text \<open>What the caller has done so far decides whether the database is open and on disk.\<close>

definition caller_inv :: "action list \<Rightarrow> threads \<Rightarrow> bool" where
  "caller_inv acts t \<longleftrightarrow> (\<exists>pre. acts = pre @ todo t \<and> (db_open t \<longleftrightarrow> CloseDB \<notin> set pre) \<and>
     (on_disk t \<longleftrightarrow> RemoveDir \<notin> set pre))"

lemmas action_defs = RemovePartition_actions_def delete_actions_def Shutdown_actions_def

lemma caller_acts:
  assumes "caller_inv acts t" and "todo t = a # r" and "todo t' = r"
    and "db_open t' \<longleftrightarrow> db_open t \<and> a \<noteq> CloseDB" and "on_disk t' \<longleftrightarrow> on_disk t \<and> a \<noteq> RemoveDir"
  shows "caller_inv acts t'"
proof -
  obtain pre where "acts = pre @ a # r" "db_open t \<longleftrightarrow> CloseDB \<notin> set pre" "on_disk t \<longleftrightarrow> RemoveDir \<notin> set pre"
    using assms(1,2) by (auto simp: caller_inv_def)
  then show ?thesis using assms(3-5) by (auto simp: caller_inv_def intro!: exI [of _ "pre @ [a]"])
qed

lemma caller_step: "thread_step t t' \<Longrightarrow> caller_inv acts t \<Longrightarrow> caller_inv acts t'"
proof (erule thread_stepE)
  assume "caller_inv acts t" "shutdown_step t t'"
  then show "caller_inv acts t'" by (elim shutdown_stepE) (auto elim!: caller_acts)
qed (auto simp: caller_inv_def elim!: gc_stepE backup_stepE)

lemma caller_steps: "thread_steps t t' \<Longrightarrow> caller_inv acts t \<Longrightarrow> caller_inv acts t'"
  by (induction rule: rtranclp_induct) (auto intro: caller_step)

lemma caller_start: "caller_inv acts (start_threads b acts)"
  by (simp add: caller_inv_def start_threads_def)

lemma backup_stays_exited: "thread_steps t t' \<Longrightarrow> backup t = Exited \<Longrightarrow> backup t' = Exited"
proof (induction rule: rtranclp_induct)
  case (step y z)
  from step(2,3,4) show ?case by (auto elim!: thread_stepEs)
qed

lemma exits_le: "exits t \<le> 2"
  by (simp add: exits_def)

section \<open>Progress\<close>

text \<open>A goroutine that is alive can be driven to take a token from the channel.\<close>

lemma steps_trans: "thread_step s t \<Longrightarrow> thread_steps t u \<Longrightarrow> thread_steps s u"
  by (rule converse_rtranclp_into_rtranclp)

lemma gc_takes:
  assumes "gc t \<noteq> Exited" and "0 < chan t"
  shows "\<exists>t'. thread_steps t t' \<and> chan t' = chan t - 1 \<and> todo t' = todo t"
proof -
  have waiting: "\<exists>t'. thread_steps s t' \<and> chan t' = chan s - 1 \<and> todo t' = todo s"
    if "gc s = Waiting" "0 < chan s" for s
    using steps_trans [OF gc_exit [OF that] rtranclp.rtrancl_refl] by fastforce
  have working: "\<exists>t'. thread_steps s t' \<and> chan t' = chan s - 1 \<and> todo t' = todo s"
    if "gc s = Working" "0 < chan s" for s
    using waiting [of "s\<lparr>gc := Waiting\<rparr>"] that steps_trans [OF gc_done [OF that(1)]] by fastforce
  have pausing: "\<exists>t'. thread_steps s t' \<and> chan t' = chan s - 1 \<and> todo t' = todo s"
    if "gc s = Pausing" "backup s \<noteq> Working" "0 < chan s" for s
    using working [of "s\<lparr>gc := Working\<rparr>"] that steps_trans [OF gc_work [OF that(1,2)]] by fastforce
  have busy: "\<exists>t'. thread_steps s t' \<and> chan t' = chan s - 1 \<and> todo t' = todo s"
    if "gc s = Pausing" "backup s = Working" "0 < chan s" for s
    using pausing [of "s\<lparr>backup := Waiting\<rparr>"] that steps_trans [OF backup_done [OF that(2)]] by fastforce
  show ?thesis
    using assms waiting [of t] working [of t] pausing [of t] busy [of t] by (cases "gc t") blast+
qed

lemma backup_takes:
  assumes "backup t = Waiting \<or> backup t = Working" and "0 < chan t"
  shows "\<exists>t'. thread_steps t t' \<and> chan t' = chan t - 1 \<and> todo t' = todo t"
proof -
  have waiting: "\<exists>t'. thread_steps s t' \<and> chan t' = chan s - 1 \<and> todo t' = todo s"
    if "backup s = Waiting" "0 < chan s" for s
    using steps_trans [OF backup_exit [OF that] rtranclp.rtrancl_refl] by fastforce
  moreover have "\<exists>t'. thread_steps s t' \<and> chan t' = chan s - 1 \<and> todo t' = todo s"
    if "backup s = Working" "0 < chan s" for s
    using waiting [of "s\<lparr>backup := Waiting\<rparr>"] that steps_trans [OF backup_done [OF that(1)]] by fastforce
  ultimately show ?thesis using assms by blast
qed

text \<open>The backup goroutine never waits for another one.\<close>

lemma backup_phase: "thread_steps t t' \<Longrightarrow> backup t \<noteq> Pausing \<Longrightarrow> backup t' \<noteq> Pausing"
proof (induction rule: rtranclp_induct)
  case (step y z)
  from step(2,3,4) show ?case by (auto elim!: thread_stepEs)
qed

lemma completes:
  "tokens_inv n n0 t \<Longrightarrow> n + n0 \<le> 4 \<Longrightarrow> backup t \<noteq> Pausing \<Longrightarrow> \<exists>t'. thread_steps t t' \<and> todo t' = []"
proof (induction "todo t" arbitrary: t)
  case (Cons a acts)
  have go: ?case if "thread_step s s'" "todo s' = acts" "thread_steps t s" for s s'
  proof -
    have reach: "thread_steps t s'" using that by (meson rtranclp.rtrancl_into_rtrancl)
    then have "\<exists>t'. thread_steps s' t' \<and> todo t' = []"
      using Cons.hyps(1) [OF that(2) [symmetric]] tokens_steps backup_phase Cons.prems by blast
    with reach show ?thesis by (meson rtranclp_trans)
  qed
  show ?case
  proof (cases a)
    case StopTicker
    then show ?thesis by (intro go [OF stop_ticker [of t acts]]) (simp_all add: Cons.hyps(2) [symmetric])
  next
    case CloseDB
    then show ?thesis by (intro go [OF close [of t acts]]) (simp_all add: Cons.hyps(2) [symmetric])
  next
    case RemoveDir
    then show ?thesis by (intro go [OF remove [of t acts]]) (simp_all add: Cons.hyps(2) [symmetric])
  next
    case Send
    have "\<exists>s. thread_steps t s \<and> chan s < 2 \<and> todo s = todo t"
    proof (cases "chan t < 2")
      case False
      then have "exits t < 2" "chan t = 2"
        using Cons.prems Send by (auto simp: tokens_inv_def sends_def Cons.hyps(2) [symmetric])
      then have "gc t \<noteq> Exited \<or> backup t = Waiting \<or> backup t = Working"
        using Cons.prems(3) by (cases "backup t") (auto simp: exits_def)
      with gc_takes backup_takes \<open>chan t = 2\<close> show ?thesis
        by (metis diff_less less_numeral_extra(1) zero_less_numeral)
    qed auto
    then obtain s where "thread_steps t s" "chan s < 2" "todo s = Send # acts"
      using Cons.hyps(2) Send by metis
    then show ?thesis by (intro go [OF send]) auto
  qed
qed auto

text \<open>
  Whether a caller can return: its tokens must fit into the channel and the goroutines that
  were started.
\<close>

definition can_return :: "bool \<Rightarrow> action list \<Rightarrow> bool" where
  "can_return backupEnabled acts \<longleftrightarrow>
     count_list acts Send \<le> 2 + length ([()] @ (if backupEnabled then [()] else []))"

lemma can_return_iff:
  "can_return b acts \<longleftrightarrow> (\<exists>t. thread_steps (start_threads b acts) t \<and> todo t = [])"
proof
  assume "can_return b acts"
  then show "\<exists>t. thread_steps (start_threads b acts) t \<and> todo t = []"
    by (intro completes [OF tokens_start]) (auto simp: can_return_def start_threads_def)
next
  assume "\<exists>t. thread_steps (start_threads b acts) t \<and> todo t = []"
  then obtain t where "tokens_inv (count_list acts Send) (of_bool (\<not> b)) t" "todo t = []"
    using tokens_steps [OF _ tokens_start] by blast
  then show "can_return b acts"
    using exits_le [of t] by (cases b) (auto simp: can_return_def tokens_inv_def sends_def)
qed

section \<open>The directory as it is documented\<close>

text \<open>
  \<^verbatim>\<open>badger.Open\<close> finds what was there, or an empty database in a new directory; closing and
  removing succeed.
\<close>

locale node_disk = badger_reliable "env_B E" db_map txn_map
  for E :: "('db, 'txn, 's3, 'bk) node_env" and db_map txn_map +
  assumes open_existing: "\<exists>d'. env_open E (Some d) = Inr d' \<and> db_map d' = db_map d"
    and open_new: "\<exists>d'. env_open E None = Inr d' \<and> db_map d' = Map.empty"
    and close_ok: "env_close E d = None"
    and remove_ok: "env_remove E path = None"
begin

lemma readLastOffset_eq:
  assumes "store_ok (db_map d)"
  shows "readLastOffset E d = Ok (abs_offset (db_map d))"
proof -
  obtain t where t: "b_begin (env_B E) d = Inr (Some t)" "txn_map t = db_map d"
    by (rule begin_cases)
  show ?thesis
  proof (cases "db_map d LastOffsetKey")
    case None
    with t show ?thesis
      by (simp add: readLastOffset_def db_View_def get_eq abs_offset_def)
  next
    case (Some w)
    with assms obtain i where "decode_offset w = Some i" by (auto simp: store_ok_def)
    then obtain b x where "w = Raw b" "Uint64 b = Ok x" "i = wrap64 x"
      by (auto simp: decode_offset_def split: wire.splits go.splits)
    with t Some show ?thesis
      by (auto simp: readLastOffset_def db_View_def get_eq abs_offset_def decode_offset_def
          wire_bytes_def Uint64_def split: if_splits)
  qed
qed

lemma newPartition_local:
  assumes "disk (getPartitionPath i) = Some d" and "store_ok (db_map d)"
    and "\<not> env_S3RestoreEnabled E" and "env_session E = None"
  shows "\<exists>p. newPartition E s disk ns i = (Ok p, disk(getPartitionPath i \<mapsto> DB p)) \<and> ID p = i \<and>
    Namespace p = ns \<and> part_ok db_map p \<and> db_map (DB p) = db_map d"
proof -
  obtain d' where d': "env_open E (Some d) = Inr d'" "db_map d' = db_map d"
    using open_existing by blast
  with assms show ?thesis
    by (simp add: newPartition_def createLocalDB_def Let_def readLastOffset_eq part_ok_def)
qed

lemma newPartition_new:
  assumes "disk (getPartitionPath i) = None" and "\<not> env_S3RestoreEnabled E" and "env_session E = None"
  shows "\<exists>p. newPartition E s disk ns i = (Ok p, disk(getPartitionPath i \<mapsto> DB p)) \<and> ID p = i \<and>
    Namespace p = ns \<and> part_ok db_map p \<and> db_map (DB p) = Map.empty"
proof -
  obtain d' where d': "env_open E None = Inr d'" "db_map d' = Map.empty"
    using open_new by blast
  with assms show ?thesis
    by (simp add: newPartition_def createLocalDB_def Let_def part_ok_def store_ok_empty abs_offset_def)
qed

end

text \<open>The reference node: directories that never fail.\<close>

definition mem_env :: "bool \<Rightarrow> bool \<Rightarrow> (mem, mem, mem mem_s3, mem) node_env" where
  "mem_env backupEnabled restore = \<lparr>
     env_B = mem_badger, env_K = mem_backup, env_A = mem_s3,
     env_open = (\<lambda>d. Inr (case d of None \<Rightarrow> [] | Some m \<Rightarrow> m)),
     env_session = None, env_created = True, env_text = (\<lambda>_. []),
     env_close = (\<lambda>_. None), env_remove = (\<lambda>_. None),
     env_BackupEnabled = backupEnabled, env_S3RestoreEnabled = restore\<rparr>"

interpretation mem_node: node_disk "mem_env b r" map_of map_of
  by (intro node_disk.intro node_disk_axioms.intro)
    (simp_all add: mem_env_def mem.badger_reliable_axioms)

section \<open>Properties\<close>





text \<open>
  A single \<^verbatim>\<open>Shutdown\<close> never blocks: in every reachable state the caller's next action can
  be taken at once, whatever the goroutines do.
\<close>

theorem Shutdown_never_blocks:
  assumes "thread_steps (start_threads b Shutdown_actions) t" and "todo t \<noteq> []"
  shows "\<exists>t'. thread_step t t' \<and> todo t' = tl (todo t)"
proof -
  obtain a acts where todo: "todo t = a # acts" using assms(2) by (meson neq_Nil_conv)
  have tok: "tokens_inv 2 (of_bool (\<not> b)) t"
    using tokens_steps [OF assms(1) tokens_start [of Shutdown_actions b]]
    by (simp add: action_defs eval_nat_numeral)
  have "\<not> b \<Longrightarrow> backup t = Exited"
    using backup_stays_exited [OF assms(1)] by (simp add: start_threads_def)
  then have "of_bool (\<not> b) \<le> exits t" by (auto simp: exits_def)
  with tok have room: "a = Send \<Longrightarrow> chan t < 2"
    by (simp add: tokens_inv_def sends_def todo)
  show ?thesis
    using stop_ticker [of t acts] send [of t acts] close [of t acts] remove [of t acts] room todo
    by (cases a) fastforce+
qed

theorem Shutdown_never_blocks_witness:
  "\<exists>t'. thread_step (start_threads False Shutdown_actions) t' \<and> todo t' = [Send, Send, CloseDB]"
  using Shutdown_never_blocks [OF rtranclp.rtrancl_refl, of False]
  by (simp add: start_threads_def action_defs)

text \<open>
  But \<^verbatim>\<open>Shutdown\<close> does not wait for the goroutines it signals: it can return, with the
  database closed, while a backup of that database is running.
\<close>

theorem Shutdown_returns_during_backup:
  "\<exists>t. thread_steps (start_threads True Shutdown_actions) t \<and> todo t = [] \<and> \<not> db_open t \<and> backup t = Working"
proof -
  let ?t0 = "start_threads True Shutdown_actions"
  let ?t1 = "?t0\<lparr>backup := Working\<rparr>"
  let ?t2 = "?t1\<lparr>ticking := False, todo := [Send, Send, CloseDB]\<rparr>"
  let ?t3 = "?t2\<lparr>chan := 1, todo := [Send, CloseDB]\<rparr>"
  let ?t4 = "?t3\<lparr>chan := 2, todo := [CloseDB]\<rparr>"
  let ?u = "?t4\<lparr>db_open := False, todo := []\<rparr>"
  have "thread_step ?t0 ?t1" "thread_step ?t1 ?t2" "thread_step ?t2 ?t3" "thread_step ?t3 ?t4"
    "thread_step ?t4 ?u"
    using backup_tick [of ?t0] stop_ticker [of ?t1] send [of ?t2] send [of ?t3] close [of ?t4]
    by (simp_all add: start_threads_def action_defs eval_nat_numeral)
  then have "thread_steps ?t0 ?u" by (meson rtranclp.rtrancl_refl steps_trans)
  then show ?thesis by (intro exI [of _ ?u]) simp
qed

text \<open>
  A partition that is shut down and opened again is the partition it was: the same
  records, the same recorded offset, and the invariant between them.
\<close>

theorem reopen_after_Shutdown:
  assumes "node_disk E db_map txn_map" and "part_ok db_map p"
    and "\<not> env_S3RestoreEnabled E" and "env_session E = None"
  shows "\<exists>disk' p'. close_db E p disk = (Ok (), disk') \<and>
    fst (newPartition E s disk' (Namespace p) (ID p)) = Ok p' \<and> part_ok db_map p' \<and>
    abs_store (db_map (DB p')) = abs_store (db_map (DB p)) \<and> LastOffset p' = LastOffset p"
proof -
  let ?disk = "disk(getPartitionPath (ID p) \<mapsto> DB p)"
  have "close_db E p disk = (Ok (), ?disk)"
    by (simp add: close_db_def node_disk.close_ok [OF assms(1)])
  moreover have "\<exists>p'. newPartition E s ?disk (Namespace p) (ID p) = (Ok p', ?disk(getPartitionPath (ID p) \<mapsto> DB p')) \<and>
      ID p' = ID p \<and> Namespace p' = Namespace p \<and> part_ok db_map p' \<and> db_map (DB p') = db_map (DB p)"
    using assms(2) by (intro node_disk.newPartition_local [OF assms(1) _ _ assms(3,4)]) (auto simp: part_ok_def)
  ultimately show ?thesis using assms(2) by (auto simp: part_ok_def)
qed

theorem reopen_after_Shutdown_witness:
  "\<exists>disk' p'. close_db (mem_env False False) (demo_part demo_db None) Map.empty = (Ok (), disk') \<and>
    fst (newPartition (mem_env False False) [] disk' ''ns'' 0) = Ok p' \<and>
    abs_store (map_of (DB p')) = abs_store (map_of demo_db) \<and> LastOffset p' = None"
proof -
  have "part_ok map_of (demo_part demo_db None)"
    using demo_db_ok by (simp add: part_ok_def demo_part_def abs_offset_def demo_db_def)
  from reopen_after_Shutdown [OF mem_node.node_disk_axioms this, of False False Map.empty "[]"]
  show ?thesis by (auto simp: mem_env_def demo_part_def)
qed

text \<open>
  A store that fails to read the offset's key (any error but "not found") makes
  \<^verbatim>\<open>newPartition\<close> panic instead of returning the error.
\<close>

lemma newPartition_panics_on_get_error:
  assumes "disk (getPartitionPath i) = Some d" and "env_open E (Some d) = Inr db"
    and "env_session E = None" and "b_begin (env_B E) db = Inr (Some t)"
    and "b_get (env_B E) t LastOffsetKey = GetErr e"
  shows "fst (newPartition E s disk ns i) = Panic"
  using assms by (simp add: newPartition_def createLocalDB_def readLastOffset_def db_View_def Let_def)

definition failing_env :: "(mem, mem, mem mem_s3, mem) node_env" where
  "failing_env = (mem_env False False)\<lparr>env_B := mem_badger\<lparr>b_get := (\<lambda>t k. GetErr (External ''io''))\<rparr>\<rparr>"

lemma newPartition_panics_on_get_error_witness:
  "fst (newPartition failing_env [] [getPartitionPath 3 \<mapsto> demo_db] ''ns'' 3) = Panic"
  by (rule newPartition_panics_on_get_error [of _ _ demo_db _ demo_db demo_db "External ''io''"])
    (simp_all add: failing_env_def mem_env_def mem_badger_def)

text \<open>
  C25. A new node that restores the newest backup of a partition gets exactly the records and
  the offset of the partition that was backed up, if no mutation was applied between the
  naming of the backup and its snapshot.
\<close>

theorem restore_after_backup:
  assumes node: "node_disk E db_map txn_map" and bk: "badger_backup (env_K E) db_map bk_map"
    and s3: "s3_bucket (env_A E) s3_map"
    and p: "part_ok db_map p" "LastOffset p = Some off" "0 < off" "int64_range off" "0 \<le> ID p"
    and run: "runBackup (env_A E) (env_K E) p (DB p) s = (Finished (Ok ()), s')"
    and bucket: "{k \<in> dom (s3_map s'). prefix (backup_prefix (Namespace p) (ID p)) k} =
      backup_key (Namespace p) (ID p) ` offs" "\<forall>o' \<in> offs. 0 \<le> o' \<and> o' \<le> off"
    and up: "s3_list (env_A E) s' (backup_prefix (Namespace p) (ID p)) = (pages, None)"
      "s3_download (env_A E) s' (backup_key (Namespace p) (ID p) off) = Inr stream"
      "env_created E" "\<And>d b. snd (b_load (env_K E) d b) = None"
    and env: "env_S3RestoreEnabled E" "env_session E = None" "disk (getPartitionPath (ID p)) = None"
  shows "\<exists>p'. fst (newPartition E s' disk (Namespace p) (ID p)) = Ok p' \<and> part_ok db_map p' \<and>
    abs_store (db_map (DB p')) = abs_store (db_map (DB p)) \<and> LastOffset p' = Some off"
proof -
  let ?key = "backup_key (Namespace p) (ID p)"
  obtain b where b: "b_backup (env_K E) (DB p) = (b, None)"
      "s3_upload (env_A E) s (?key off) b = Uploaded s'"
    using run p(2) by (auto simp: runBackup_def Let_def split: prod.splits upload.splits if_splits option.splits)
  have s': "s3_map s' = (s3_map s)(?key off \<mapsto> b)"
    by (rule s3_bucket.upload_map [OF s3 b(2)])
  have stream: "stream = b" using s3_bucket.download_map [OF s3 up(2)] s' by simp
  have "?key off \<in> {k \<in> dom (s3_map s'). prefix (backup_prefix (Namespace p) (ID p)) k}"
    by (simp add: s' backup_key_def backup_prefix_def)
  then have "off \<in> offs"
    using bucket p(3) by (auto dest: backup_key_inject [rotated 2])
  have range: "\<forall>o' \<in> offs. 0 \<le> o' \<and> int64_range o'"
    using bucket(2) p(4) by (auto simp: int64_range_def)
  have "finite (?key ` offs)"
    using s3_bucket.list_keys [OF s3 up(1)] bucket(1) by (metis List.finite_set)
  moreover have "inj_on ?key offs" using bucket(2) by (auto intro!: inj_onI backup_key_inject)
  ultimately have "finite offs" by (rule finite_imageD)
  then have Max: "Max offs = off" using \<open>off \<in> offs\<close> bucket(2) by (auto intro!: Max_eqI)
  have latest: "getLatestBackupOffset (env_A E) s' q = Ok (off, ?key off)"
    if "Namespace q = Namespace p" "ID q = ID p" for q :: "'a Partition"
    using s3_bucket.latest [OF s3, of s' q pages offs] up(1) p(3,5) bucket(1) range Max \<open>off \<in> offs\<close> that
    by (simp split: if_splits)
  obtain d where d: "env_open E None = Inr d" "db_map d = Map.empty"
    using node_disk.open_new [OF node] by blast
  obtain d' where d': "b_load (env_K E) d b = (d', None)" by (metis up(4) prod.collapse)
  have "db_map d' = db_map (DB p)"
    using badger_backup.load_empty [OF bk d(2) d'] badger_backup.backup_map [OF bk b(1)] by simp
  then show ?thesis
    using p(1,2) env up(2,3) stream d(1) d' latest
    by (simp add: newPartition_def createLocalDB_def checkAndRestoreFromS3_def Let_def part_ok_def)
qed

definition demo_offset_db :: mem where
  "demo_offset_db = (LastOffsetKey, Raw (PutUint64 7)) # demo_db"

theorem restore_after_backup_witness:
  "\<exists>s' p'. runBackup mem_s3 mem_backup (demo_part demo_offset_db (Some 7)) demo_offset_db [] = (Finished (Ok ()), s') \<and>
    fst (newPartition (mem_env True True) s' Map.empty ''ns'' 0) = Ok p' \<and>
    abs_store (map_of (DB p')) = abs_store (map_of demo_offset_db) \<and> LastOffset p' = Some 7"
proof -
  let ?p = "demo_part demo_offset_db (Some 7)"
  let ?s = "[(backup_key ''ns'' 0 7, demo_offset_db)]"
  let ?E = "mem_env True True"
  have p: "ID ?p = 0" "Namespace ?p = ''ns''" "DB ?p = demo_offset_db" by (simp_all add: demo_part_def)
  have "map_of demo_offset_db = (map_of demo_db)(LastOffsetKey \<mapsto> Raw (PutUint64 (uint64 7)))"
    by (simp add: demo_offset_db_def uint64_def)
  then have ok: "part_ok map_of ?p"
    using store_ok_offset [OF demo_db_ok] by (simp add: part_ok_def demo_part_def int64_range_def)
  have run: "runBackup (env_A ?E) (env_K ?E) ?p (DB ?p) [] = (Finished (Ok ()), ?s)"
    by (simp add: mem_env_def mem_s3_def mem_backup_def runBackup_def demo_part_def)
  have pre: "prefix (backup_prefix ''ns'' 0) (backup_key ''ns'' 0 7)"
    by (simp add: backup_key_prefix)
  have "\<exists>p'. fst (newPartition ?E ?s Map.empty (Namespace ?p) (ID ?p)) = Ok p' \<and> part_ok map_of p' \<and>
      abs_store (map_of (DB p')) = abs_store (map_of (DB ?p)) \<and> LastOffset p' = Some 7"
  proof (rule restore_after_backup [OF _ _ _ ok _ _ _ _ run, where offs = "{7}"])
    show "node_disk ?E map_of map_of" by (rule mem_node.node_disk_axioms)
    show "badger_backup (env_K ?E) map_of map_of"
      using mem_backup.badger_backup_axioms by (simp add: mem_env_def)
    show "s3_bucket (env_A ?E) map_of" using mem_s3.s3_bucket_axioms by (simp add: mem_env_def)
    show "s3_list (env_A ?E) ?s (backup_prefix (Namespace ?p) (ID ?p)) = ([[backup_key ''ns'' 0 7]], None)"
      using pre by (simp add: p mem_env_def mem_s3_def)
    show "{k \<in> dom (map_of ?s). prefix (backup_prefix (Namespace ?p) (ID ?p)) k} =
        backup_key (Namespace ?p) (ID ?p) ` {7}"
      using pre by (auto simp: p)
  qed (simp_all add: mem_env_def mem_s3_def mem_backup_def demo_part_def int64_range_def)
  with run p show ?thesis by (auto simp: mem_env_def)
qed

end

