(* ===== verification/SyncMap.thy ===== *)
theory SyncMap
  imports Prelude "HOL-Library.AList"
begin

text \<open>
  \<^verbatim>\<open>syncx/map.go\<close>: the typed wrapper of \<^verbatim>\<open>sync.Map\<close> that holds a node's partitions. A map is
  the list of its entries; \<^verbatim>\<open>sync.Map\<close>'s \<^verbatim>\<open>Range\<close> visits them in no promised order, so the
  order of the list stands for one that can happen and no lemma of the interface speaks of it.
\<close>

section \<open>The operations\<close>

type_synonym ('k, 'v) Map = "('k \<times> 'v) list"

definition NewMap :: "('k, 'v) Map" where
  "NewMap = []"

definition Load :: "('k, 'v) Map \<Rightarrow> 'k \<Rightarrow> 'v option" where
  "Load m key = map_of m key"

definition Delete :: "('k, 'v) Map \<Rightarrow> 'k \<Rightarrow> ('k, 'v) Map" where
  "Delete m key = AList.delete key m"

definition Store :: "('k, 'v) Map \<Rightarrow> 'k \<Rightarrow> 'v \<Rightarrow> ('k, 'v) Map" where
  "Store m key value = AList.update key value m"

definition LoadAndDelete :: "('k, 'v) Map \<Rightarrow> 'k \<Rightarrow> 'v option \<times> ('k, 'v) Map" where
  "LoadAndDelete m key = (Load m key, Delete m key)"

text \<open>The result's flag tells whether the value was there before.\<close>

definition LoadOrStore :: "('k, 'v) Map \<Rightarrow> 'k \<Rightarrow> 'v \<Rightarrow> ('v \<times> bool) \<times> ('k, 'v) Map" where
  "LoadOrStore m key value = (case Load m key of
     Some v \<Rightarrow> ((v, True), m) | None \<Rightarrow> ((value, False), Store m key value))"

text \<open>The callback of \<^verbatim>\<open>Range\<close> updates what it captured and says whether to go on.\<close>

fun Range :: "('k \<Rightarrow> 'v \<Rightarrow> 's \<Rightarrow> bool \<times> 's) \<Rightarrow> ('k, 'v) Map \<Rightarrow> 's \<Rightarrow> 's" where
  "Range f [] s = s"
| "Range f ((k, v) # m) s = (case f k v s of (True, s') \<Rightarrow> Range f m s' | (False, s') \<Rightarrow> s')"

section \<open>The interface\<close>

text \<open>
  What the clients rely on: \<open>ok\<close> is the invariant, \<open>content\<close> the map that is held. \<open>range\<close>
  with a callback that never stops sees every entry once.
\<close>

locale sync_map =
  fixes ok :: "'m \<Rightarrow> bool"
    and new :: 'm
    and load :: "'m \<Rightarrow> 'k \<Rightarrow> 'v option"
    and store :: "'m \<Rightarrow> 'k \<Rightarrow> 'v \<Rightarrow> 'm"
    and del :: "'m \<Rightarrow> 'k \<Rightarrow> 'm"
    and entries :: "'m \<Rightarrow> ('k \<times> 'v) list"
  assumes ok_new: "ok new" and load_new: "load new k = None"
    and ok_store: "ok m \<Longrightarrow> ok (store m k v)"
    and load_store: "ok m \<Longrightarrow> load (store m k v) k' = (if k' = k then Some v else load m k')"
    and ok_del: "ok m \<Longrightarrow> ok (del m k)"
    and load_del: "ok m \<Longrightarrow> load (del m k) k' = (if k' = k then None else load m k')"
    and distinct_entries: "ok m \<Longrightarrow> distinct (map fst (entries m))"
    and set_entries: "ok m \<Longrightarrow> (k, v) \<in> set (entries m) \<longleftrightarrow> load m k = Some v"
begin

lemma keys_entries: "ok m \<Longrightarrow> fst ` set (entries m) = dom (load m)"
  by (auto simp: set_entries intro: image_eqI [where x = "(_, _)"])

lemma finite_keys: "ok m \<Longrightarrow> finite (dom (load m))"
  by (metis keys_entries List.finite_set finite_imageI)

lemma dom_store: "ok m \<Longrightarrow> dom (load (store m k v)) = insert k (dom (load m))"
  by (auto simp: dom_def load_store)

lemma dom_del: "ok m \<Longrightarrow> dom (load (del m k)) = dom (load m) - {k}"
  by (auto simp: dom_def load_del split: if_splits)

lemma card_keys: "ok m \<Longrightarrow> card (dom (load m)) = length (entries m)"
  by (metis keys_entries distinct_entries distinct_card length_map set_map)

end

section \<open>\<^verbatim>\<open>sync.Map\<close> as modelled provides it\<close>

definition map_ok :: "('k, 'v) Map \<Rightarrow> bool" where
  "map_ok m \<longleftrightarrow> distinct (map fst m)"

lemmas sync_map_defs = map_ok_def NewMap_def Load_def Store_def Delete_def

lemma distinct_delete: "distinct (map fst m) \<Longrightarrow> distinct (map fst (AList.delete k m))"
  by (induction m) (auto simp: AList.delete_eq)

interpretation sm: sync_map map_ok NewMap Load Store Delete "\<lambda>m. m"
  by unfold_locales
    (auto simp: sync_map_defs update_conv' delete_conv' distinct_update distinct_delete)

lemma Range_all:
  "(\<And>k v s. fst (f k v s)) \<Longrightarrow> Range f m s = fold (\<lambda>(k, v) s. snd (f k v s)) m s"
  by (induction f m s rule: Range.induct) (auto split: prod.splits bool.splits, metis fst_conv)

lemma Range_collect: "Range (\<lambda>k v s. (True, s @ [g k v])) m s = s @ map (\<lambda>(k, v). g k v) m"
  by (induction m arbitrary: s) auto

lemma LoadOrStore_load: "map_ok m \<Longrightarrow> LoadOrStore m k v = ((v', b), m') \<Longrightarrow> Load m' k = Some v'"
  by (auto simp: LoadOrStore_def sm.load_store split: option.splits)

end
