(* ===== verification/Manager.thy ===== *)
theory Manager
  imports Lifecycle SyncMap
begin

text \<open>
  \<^verbatim>\<open>partitions/partition_manager.go\<close>: the partitions of a node. The manager's map holds
  pointers; a partition is reached through the map only, so an update of the partition is an
  update of its entry. The directory of databases is passed along.
\<close>

section \<open>State\<close>

record 'db PartitionManager =
  Partitions :: "(int, 'db Partition) Map"
  pm_Namespace :: string

definition NewPartitionManager :: "string \<Rightarrow> 'db PartitionManager" where
  "NewPartitionManager namespace = \<lparr>Partitions = NewMap, pm_Namespace = namespace\<rparr>"

definition GetPartitionIDs :: "'db PartitionManager \<Rightarrow> int list" where
  "GetPartitionIDs pm = Range (\<lambda>i _ ids. (True, ids @ [i])) (Partitions pm) []"

section \<open>Adding and removing\<close>

definition AddPartition :: "('db, 'txn, 's3, 'bk) node_env \<Rightarrow> 's3 \<Rightarrow> 'db PartitionManager \<Rightarrow> 'db disk \<Rightarrow> int \<Rightarrow>
    int option go \<times> 'db PartitionManager \<times> 'db disk" where
  "AddPartition E s pm disk i =
     (case Load (Partitions pm) i of
        Some _ \<Rightarrow> (Err ErrPartitionAlreadyExists, pm, disk)
      | None \<Rightarrow>
          (case newPartition E s disk (pm_Namespace pm) i of
             (Err e, disk') \<Rightarrow> (Err e, pm, disk')
           | (Panic, disk') \<Rightarrow> (Panic, pm, disk')
           | (Ok part, disk') \<Rightarrow>
               (Ok (LastOffset part), pm\<lparr>Partitions := Store (Partitions pm) i part\<rparr>, disk')))"

text \<open>
  \<^verbatim>\<open>part.Shutdown()\<close>, then \<^verbatim>\<open>part.delete()\<close>, which begins with another \<^verbatim>\<open>Shutdown\<close>. Whether
  the second one returns is decided by the goroutines (\<open>can_return\<close>); when it does, closing
  again does nothing (\<^verbatim>\<open>DB.Close\<close> does its work once). A partition that is not in the map is
  a nil pointer, on which \<^verbatim>\<open>delete\<close> panics. \<open>Blocks\<close>: the call does not return.
\<close>

datatype 'a call = Returns "'a go" | Blocks

definition RemovePartition :: "('db, 'txn, 's3, 'bk) node_env \<Rightarrow> 'db PartitionManager \<Rightarrow> 'db disk \<Rightarrow> int \<Rightarrow>
    unit call \<times> 'db PartitionManager \<times> 'db disk" where
  "RemovePartition E pm disk i =
     (case LoadAndDelete (Partitions pm) i of
        (None, m) \<Rightarrow> (Returns Panic, pm\<lparr>Partitions := m\<rparr>, disk)
      | (Some part, m) \<Rightarrow>
          (let pm' = pm\<lparr>Partitions := m\<rparr>
           in case close_db E part disk of
                (Err e, disk') \<Rightarrow> (Returns (Err e), pm', disk')
              | (Panic, disk') \<Rightarrow> (Returns Panic, pm', disk')
              | (Ok _, disk') \<Rightarrow>
                  if can_return (env_BackupEnabled E) RemovePartition_actions
                  then (case remove_dir E (ID part) disk' of (r, disk'') \<Rightarrow> (Returns r, pm', disk''))
                  else (Blocks, pm', disk')))"

text \<open>
  The manager's \<^verbatim>\<open>Shutdown\<close> stops at the first partition that fails to close; the map is
  not changed.
\<close>

fun shutdown_all :: "('db, 'txn, 's3, 'bk) node_env \<Rightarrow> 'db Partition list \<Rightarrow> 'db disk \<Rightarrow> unit go \<times> 'db disk" where
  "shutdown_all E [] disk = (Ok (), disk)"
| "shutdown_all E (part # parts) disk =
     (case close_db E part disk of
        (Ok _, disk') \<Rightarrow> shutdown_all E parts disk'
      | (Err e, disk') \<Rightarrow> (Err e, disk')
      | (Panic, disk') \<Rightarrow> (Panic, disk'))"

definition pm_Shutdown :: "('db, 'txn, 's3, 'bk) node_env \<Rightarrow> 'db PartitionManager \<Rightarrow> 'db disk \<Rightarrow>
    unit go \<times> 'db disk" where
  "pm_Shutdown E pm disk =
     shutdown_all E (Range (\<lambda>_ part parts. (True, parts @ [part])) (Partitions pm) []) disk"

section \<open>Data operations\<close>

definition pm_HandleMutation :: "('db, 'txn) badger_api \<Rightarrow> 'prog expr_lib \<Rightarrow> 'db PartitionManager \<Rightarrow> int \<Rightarrow>
    wire \<Rightarrow> int \<Rightarrow> unit go \<times> 'db PartitionManager" where
  "pm_HandleMutation B X pm partitionID mutationBytes offset =
     (case unmarshal_RecordMutation mutationBytes zero_RecordMutation of
        Err e \<Rightarrow> (Err e, pm)
      | Panic \<Rightarrow> (Panic, pm)
      | Ok mutation \<Rightarrow>
          (case Load (Partitions pm) partitionID of
             None \<Rightarrow> (Err ErrPartitionNotFound, pm)
           | Some part \<Rightarrow>
               (case HandleMutation B X part mutation offset of
                  (r, part') \<Rightarrow> (r, pm\<lparr>Partitions := Store (Partitions pm) partitionID part'\<rparr>))))"

text \<open>
  The request is a Go map, iterated in some order (that of the list). The inner \<^verbatim>\<open>res, err :=\<close>
  shadows the result \<^verbatim>\<open>err\<close>, so an error of a partition is dropped with its records.
\<close>

fun pm_ReadRecords :: "('db, 'txn) badger_api \<Rightarrow> 'db PartitionManager \<Rightarrow> (int \<times> RecordKey list) list \<Rightarrow>
    Record list \<Rightarrow> Record list go" where
  "pm_ReadRecords B pm [] records = Ok records"
| "pm_ReadRecords B pm ((part_id, keys) # partMap) records =
     (case Load (Partitions pm) part_id of
        None \<Rightarrow> pm_ReadRecords B pm partMap records
      | Some part \<Rightarrow>
          (case ReadRecords B part keys of
             Ok res \<Rightarrow> pm_ReadRecords B pm partMap (records @ res)
           | Err _ \<Rightarrow> pm_ReadRecords B pm partMap records
           | Panic \<Rightarrow> Panic))"

definition pm_ListRecords :: "('db, 'txn) badger_api \<Rightarrow> 'prog expr_lib \<Rightarrow> 'db PartitionManager \<Rightarrow> int \<Rightarrow>
    string \<Rightarrow> string \<Rightarrow> int \<Rightarrow> string option \<Rightarrow> bool \<Rightarrow> Record list go" where
  "pm_ListRecords B X pm part_id pk skPrefix limit ifStmt ifStop =
     (case Load (Partitions pm) part_id of
        None \<Rightarrow> Err ErrPartitionNotFound
      | Some part \<Rightarrow> ListRecords B X part pk skPrefix limit ifStmt ifStop)"

section \<open>Invariant and abstraction\<close>

definition pm_ok :: "('db \<Rightarrow> bytes \<Rightarrow> wire option) \<Rightarrow> 'db PartitionManager \<Rightarrow> bool" where
  "pm_ok db_map pm \<longleftrightarrow> map_ok (Partitions pm) \<and>
     (\<forall>i p. Load (Partitions pm) i = Some p \<longrightarrow>
        ID p = i \<and> Namespace p = pm_Namespace pm \<and> part_ok db_map p)"

text \<open>A node is a map from partition numbers to replicas.\<close>

type_synonym node = "int \<Rightarrow> replica option"

definition abs_node :: "('db \<Rightarrow> bytes \<Rightarrow> wire option) \<Rightarrow> 'db PartitionManager \<Rightarrow> node" where
  "abs_node db_map pm = (\<lambda>i. map_option (\<lambda>p. abs_store (db_map (DB p))) (Load (Partitions pm) i))"

definition spec_node_mutation :: "'prog expr_lib \<Rightarrow> node \<Rightarrow> int \<Rightarrow> RecordMutation \<Rightarrow> int \<Rightarrow> node go" where
  "spec_node_mutation X n i m off = (case n i of
     None \<Rightarrow> Err ErrPartitionNotFound
   | Some st \<Rightarrow> bind_go (spec_mutation X st m off) (\<lambda>st'. Ok (n(i \<mapsto> st'))))"

lemma GetPartitionIDs_map: "GetPartitionIDs pm = map fst (Partitions pm)"
  by (simp add: GetPartitionIDs_def Range_collect [of "\<lambda>i _. i"] case_prod_unfold)

lemma set_GetPartitionIDs: "map_ok (Partitions pm) \<Longrightarrow> set (GetPartitionIDs pm) = dom (Load (Partitions pm))"
  by (simp add: GetPartitionIDs_map sm.keys_entries [symmetric])

lemma GetPartitionIDs_iff:
  "map_ok (Partitions pm) \<Longrightarrow> i \<in> set (GetPartitionIDs pm) \<longleftrightarrow> Load (Partitions pm) i \<noteq> None"
  by (auto simp: set_GetPartitionIDs)

lemma pm_ok_new: "pm_ok db_map (NewPartitionManager ns)"
  by (simp add: pm_ok_def NewPartitionManager_def sm.ok_new sm.load_new)

lemma abs_node_new: "abs_node db_map (NewPartitionManager ns) i = None"
  by (simp add: abs_node_def NewPartitionManager_def sm.load_new)

lemma pm_ok_store:
  "pm_ok db_map pm \<Longrightarrow> ID p = i \<Longrightarrow> Namespace p = pm_Namespace pm \<Longrightarrow> part_ok db_map p \<Longrightarrow>
    pm_ok db_map (pm\<lparr>Partitions := Store (Partitions pm) i p\<rparr>)"
  by (auto simp: pm_ok_def sm.ok_store sm.load_store split: if_splits)

lemma pm_ok_delete: "pm_ok db_map pm \<Longrightarrow> pm_ok db_map (pm\<lparr>Partitions := Delete (Partitions pm) i\<rparr>)"
  by (auto simp: pm_ok_def sm.ok_del sm.load_del split: if_splits)

lemma abs_node_store:
  "map_ok (Partitions pm) \<Longrightarrow> abs_node db_map (pm\<lparr>Partitions := Store (Partitions pm) i p\<rparr>) =
    (abs_node db_map pm)(i \<mapsto> abs_store (db_map (DB p)))"
  by (auto simp: abs_node_def fun_eq_iff sm.load_store)

lemma abs_node_delete:
  "map_ok (Partitions pm) \<Longrightarrow> abs_node db_map (pm\<lparr>Partitions := Delete (Partitions pm) i\<rparr>) =
    (abs_node db_map pm)(i := None)"
  by (auto simp: abs_node_def fun_eq_iff sm.load_del)

section \<open>Lemmas\<close>

context badger_reliable
begin

lemma pm_HandleMutation_refines:
  assumes ok: "pm_ok db_map pm" and m: "unmarshal_RecordMutation w zero_RecordMutation = Ok m" "mutation_ok m"
    and off: "int64_range off"
  shows "case spec_node_mutation X (abs_node db_map pm) i m off of
      Ok n \<Rightarrow> \<exists>pm'. pm_HandleMutation B X pm i w off = (Ok (), pm') \<and> abs_node db_map pm' = n \<and> pm_ok db_map pm'
    | Err e \<Rightarrow> \<exists>pm'. pm_HandleMutation B X pm i w off = (Err e, pm') \<and>
        abs_node db_map pm' = abs_node db_map pm \<and> pm_ok db_map pm'
    | Panic \<Rightarrow> fst (pm_HandleMutation B X pm i w off) = Panic \<and>
        abs_node db_map (snd (pm_HandleMutation B X pm i w off)) = abs_node db_map pm"
proof (cases "Load (Partitions pm) i")
  case None
  with m ok show ?thesis by (simp add: pm_HandleMutation_def spec_node_mutation_def abs_node_def)
next
  case (Some p)
  have mok: "map_ok (Partitions pm)" and p: "ID p = i" "Namespace p = pm_Namespace pm" "part_ok db_map p"
    using ok Some by (auto simp: pm_ok_def)
  have n: "abs_node db_map pm i = Some (abs_store (db_map (DB p)))"
    using Some by (simp add: abs_node_def)
  then have same: "(abs_node db_map pm)(i \<mapsto> abs_store (db_map (DB p))) = abs_node db_map pm"
    by (rule map_upd_triv)
  note step = HandleMutation_refines [OF p(3) m(2) off, of X]
  show ?thesis
  proof (cases "spec_mutation X (abs_store (db_map (DB p))) m off")
    case (Ok st)
    with step obtain p' where "HandleMutation B X p m off = (go.Ok (), p')" "abs_store (db_map (DB p')) = st"
        "part_ok db_map p'" "ID p' = i" "Namespace p' = pm_Namespace pm" using p by auto
    with Ok Some n mok m ok show ?thesis
      by (simp add: pm_HandleMutation_def spec_node_mutation_def abs_node_store pm_ok_store)
  next
    case (Err e)
    with step Some n mok m same p ok show ?thesis
      by (simp add: pm_HandleMutation_def spec_node_mutation_def abs_node_store pm_ok_store)
  next
    case Panic
    with step Some n mok m same show ?thesis
      by (simp add: pm_HandleMutation_def spec_node_mutation_def abs_node_store)
  qed
qed

end

lemma pm_ReadRecords_no_error: "pm_ReadRecords B pm partMap rs \<noteq> Err e"
  by (induction B pm partMap rs rule: pm_ReadRecords.induct) (auto split: option.splits go.splits)

lemma pm_ReadRecords_spec:
  assumes "badger_reliable B db_map txn_map" and ok: "pm_ok db_map pm"
    and pks: "\<forall>(i, keys) \<in> set partMap. \<forall>k \<in> set keys. no_nul (Pk k)"
  shows "pm_ReadRecords B pm partMap rs = Ok (rs @ concat (map (\<lambda>(i, keys).
    case abs_node db_map pm i of None \<Rightarrow> [] | Some st \<Rightarrow> spec_read (fst st) keys) partMap))"
  using pks
proof (induction partMap arbitrary: rs)
  case (Cons ik partMap)
  obtain i keys where ik: "ik = (i, keys)" by fastforce
  show ?case
  proof (cases "Load (Partitions pm) i")
    case None
    with Cons ik show ?thesis by (simp add: abs_node_def)
  next
    case (Some p)
    then have p: "part_ok db_map p" using ok by (auto simp: pm_ok_def)
    moreover have "\<forall>k \<in> set keys. no_nul (Pk k)" using Cons.prems ik by auto
    ultimately have "ReadRecords B p keys = Ok (spec_read (fst (abs_store (db_map (DB p)))) keys)"
      using badger_reliable.ReadRecords_spec [OF assms(1)] by (simp add: abs_store_def part_ok_def)
    with Cons ik Some show ?thesis by (simp add: abs_node_def)
  qed
qed simp

section \<open>Properties\<close>

text \<open>
  C24. The manager is a map from partition numbers to replicas: a mutation takes the specified
  step in the partition it is addressed to and leaves every other partition alone; for a
  partition the node does not have it reports \<^verbatim>\<open>ErrPartitionNotFound\<close>; on an error nothing
  changes.
\<close>

theorem pm_HandleMutation_implements_node:
  assumes "badger_reliable B db_map txn_map" and "pm_ok db_map pm"
    and "unmarshal_RecordMutation w zero_RecordMutation = Ok m" and "mutation_ok m" and "int64_range off"
  shows "case spec_node_mutation X (abs_node db_map pm) i m off of
      Ok n \<Rightarrow> \<exists>pm'. pm_HandleMutation B X pm i w off = (Ok (), pm') \<and> abs_node db_map pm' = n \<and> pm_ok db_map pm'
    | Err e \<Rightarrow> \<exists>pm'. pm_HandleMutation B X pm i w off = (Err e, pm') \<and>
        abs_node db_map pm' = abs_node db_map pm \<and> pm_ok db_map pm'
    | Panic \<Rightarrow> fst (pm_HandleMutation B X pm i w off) = Panic \<and>
        abs_node db_map (snd (pm_HandleMutation B X pm i w off)) = abs_node db_map pm"
  by (rule badger_reliable.pm_HandleMutation_refines [OF assms])

definition demo_pm :: "mem PartitionManager" where
  "demo_pm = \<lparr>Partitions = [(0, demo_part [] None)], pm_Namespace = ''ns''\<rparr>"

lemma demo_pm_ok: "pm_ok map_of demo_pm"
  using demo_empty_ok
  by (auto simp: pm_ok_def demo_pm_def map_ok_def Load_def demo_part_def split: if_splits)

theorem pm_HandleMutation_implements_node_witness:
  "fst (pm_HandleMutation mem_badger demo_expr demo_pm 5 (marshal_RecordMutation (demo_put ''a'' ''x'' None 7)) 3)
     = Err ErrPartitionNotFound \<and>
   (\<exists>pm'. pm_HandleMutation mem_badger demo_expr demo_pm 0 (marshal_RecordMutation (demo_put ''a'' ''x'' None 7)) 3
     = (Ok (), pm') \<and> pm_ok map_of pm')"
proof -
  let ?m = "demo_put ''a'' ''x'' None 7"
  have ok: "mutation_ok ?m" by (rule demo_mutation_ok) (simp add: time_ok_def)
  have w: "unmarshal_RecordMutation (marshal_RecordMutation ?m) zero_RecordMutation = Ok ?m"
    by (rule unmarshal_marshal_RecordMutation) (simp_all add: demo_put_def data_ok_def int64_range_def)
  note step = pm_HandleMutation_implements_node [OF mem.badger_reliable_axioms demo_pm_ok w ok, of 3 demo_expr]
  have "abs_node map_of demo_pm 5 = None" "abs_node map_of demo_pm 0 = Some (abs_store (map_of []))"
    by (simp_all add: abs_node_def demo_pm_def Load_def demo_part_def)
  then have "spec_node_mutation demo_expr (abs_node map_of demo_pm) 5 ?m 3 = Err ErrPartitionNotFound"
    and "\<exists>n. spec_node_mutation demo_expr (abs_node map_of demo_pm) 0 ?m 3 = Ok n"
    by (simp_all add: spec_node_mutation_def spec_mutation_def spec_put_def demo_put_def check_if_def abs_store_def Let_def)
  then show ?thesis
    using step [of 5] step [of 0] by (auto simp: int64_range_def)
qed

text \<open>
  A partition that cannot be read is reported as one that holds none of the keys:
  \<^verbatim>\<open>PartitionManager.ReadRecords\<close> never returns an error.
\<close>

theorem pm_ReadRecords_swallows_errors:
  assumes "Load (Partitions pm) i = Some p" and "b_begin B (DB p) = Inl e"
  shows "ReadRecords B p keys = Err e \<and>
    pm_ReadRecords B pm ((i, keys) # partMap) [] = pm_ReadRecords B pm partMap []"
  using assms by (simp add: ReadRecords_def db_View_def)

theorem pm_ReadRecords_swallows_errors_witness:
  "pm_ReadRecords (mem_badger\<lparr>b_begin := (\<lambda>d. Inl (External ''closed''))\<rparr>) demo_pm
     [(0, [\<lparr>Pk = ''pk1'', Sk = ''a''\<rparr>])] [] = Ok []"
  using pm_ReadRecords_swallows_errors [of demo_pm 0 "demo_part [] None"
      "mem_badger\<lparr>b_begin := (\<lambda>d. Inl (External ''closed''))\<rparr>" "External ''closed''"]
  by (simp add: demo_pm_def Load_def)

text \<open>
  \<^verbatim>\<open>RemovePartition\<close> of a partition the node has: with backups it deletes the partition
  and its directory, so that a later \<^verbatim>\<open>AddPartition\<close> (without restore) starts an empty
  partition with no offset; without backups it blocks, after it has taken the partition from
  the map. Of a partition the node does not have, it panics.
\<close>

theorem RemovePartition_outcomes:
  assumes node: "node_disk E db_map txn_map" and ok: "pm_ok db_map pm"
    and env: "\<not> env_S3RestoreEnabled E" "env_session E = None"
  shows "case RemovePartition E pm disk i of (r, pm', disk') \<Rightarrow>
    r = (if Load (Partitions pm) i = None then Returns Panic
         else if env_BackupEnabled E then Returns (Ok ()) else Blocks) \<and>
    abs_node db_map pm' = (abs_node db_map pm)(i := None) \<and> pm_ok db_map pm' \<and>
    (r = Returns (Ok ()) \<longrightarrow>
       (\<exists>pm'' disk''. AddPartition E s pm' disk' i = (Ok None, pm'', disk'') \<and>
         abs_node db_map pm'' = (abs_node db_map pm)(i \<mapsto> (\<lambda>_. None, None))))"
proof (cases "Load (Partitions pm) i")
  case None
  with ok show ?thesis
    by (auto simp: RemovePartition_def LoadAndDelete_def abs_node_delete pm_ok_delete pm_ok_def [of _ pm])
next
  case (Some p)
  have mok: "map_ok (Partitions pm)" and p: "ID p = i" using ok Some by (auto simp: pm_ok_def)
  let ?pm = "pm\<lparr>Partitions := Delete (Partitions pm) i\<rparr>"
  let ?disk = "(disk(getPartitionPath i \<mapsto> DB p))(getPartitionPath i := None)"
  have close: "close_db E p disk = (Ok (), disk(getPartitionPath i \<mapsto> DB p))"
    by (simp add: close_db_def node_disk.close_ok [OF node] p)
  have remove: "remove_dir E (ID p) d = (Ok (), d(getPartitionPath i := None))" for d
    by (simp add: remove_dir_def node_disk.remove_ok [OF node] p)
  have ret: "can_return (env_BackupEnabled E) RemovePartition_actions \<longleftrightarrow> env_BackupEnabled E"
    by (simp add: can_return_def action_defs)
  obtain q where q: "newPartition E s ?disk (pm_Namespace pm) i = (Ok q, ?disk(getPartitionPath i \<mapsto> DB q))"
      "part_ok db_map q" "db_map (DB q) = Map.empty"
    using node_disk.newPartition_new [OF node _ env, of ?disk i s "pm_Namespace pm"] by auto
  have off: "LastOffset q = None" using q(2,3) by (simp add: part_ok_def abs_offset_def)
  have abs: "abs_store Map.empty = (\<lambda>_. None, None)"
    by (auto simp: abs_store_def abs_records_def abs_offset_def fun_eq_iff)
  have del: "map_ok (Delete (Partitions pm) i)" by (rule sm.ok_del [OF mok])
  then have gone: "Load (Partitions ?pm) i = None" by (simp add: sm.load_del [OF mok])
  have add: "AddPartition E s ?pm ?disk i =
      (Ok None, ?pm\<lparr>Partitions := Store (Partitions ?pm) i q\<rparr>, ?disk(getPartitionPath i \<mapsto> DB q))"
    using gone q(1) off by (simp add: AddPartition_def)
  have "abs_node db_map (?pm\<lparr>Partitions := Store (Partitions ?pm) i q\<rparr>) =
      (abs_node db_map pm)(i \<mapsto> (\<lambda>_. None, None))"
    using abs_node_store [of ?pm db_map i q] del mok q(3) by (simp add: abs_node_delete abs)
  with add Some ok mok close remove ret show ?thesis
    by (simp add: RemovePartition_def LoadAndDelete_def Let_def abs_node_delete pm_ok_delete)
qed

theorem RemovePartition_outcomes_witness:
  "fst (RemovePartition (mem_env True False) demo_pm Map.empty 0) = Returns (Ok ()) \<and>
   fst (RemovePartition (mem_env False False) demo_pm Map.empty 0) = Blocks \<and>
   fst (RemovePartition (mem_env False False) demo_pm Map.empty 5) = Returns Panic"
proof -
  have e: "env_BackupEnabled (mem_env b r) = b" "env_session (mem_env b r) = None"
    "env_S3RestoreEnabled (mem_env b r) = r" for b r by (simp_all add: mem_env_def)
  have l: "Load (Partitions demo_pm) 0 \<noteq> None" "Load (Partitions demo_pm) 5 = None"
    by (simp_all add: demo_pm_def Load_def)
  show ?thesis
    using RemovePartition_outcomes [OF mem_node.node_disk_axioms demo_pm_ok, where b1 = True and r1 = False and disk = Map.empty and i = 0 and s = "[]"]
      RemovePartition_outcomes [OF mem_node.node_disk_axioms demo_pm_ok, where b1 = False and r1 = False and disk = Map.empty and i = 0 and s = "[]"]
      RemovePartition_outcomes [OF mem_node.node_disk_axioms demo_pm_ok, where b1 = False and r1 = False and disk = Map.empty and i = 5 and s = "[]"]
      e l by (simp add: split_def)
qed

end
