(* ===== verification/Replay.thy ===== *)
theory Replay
  imports Manager
begin

text \<open>
  How a node consumes the mutation log: the polling part of \<^verbatim>\<open>log_consumer/log_consumer.go\<close>
  (\<^verbatim>\<open>pollRecords\<close>, \<^verbatim>\<open>launchPollRecordLoop\<close>), the abstract run of a log over a replica, and what
  follows for batches, restarts and restored backups.
\<close>

section \<open>Polling\<close>

text \<open>
  A fetch: the errors it carries, and the records (value and offset) of each partition. The
  client's own error for a closed client is not one of the repository's.
\<close>

record fetch =
  f_Errors :: "go_error list"
  f_Partitions :: "(int \<times> (wire \<times> int) list) list"

definition kgo_ErrClientClosed :: go_error where
  "kgo_ErrClientClosed = External ''client closed''"

text \<open>
  The goroutine of one partition stops at the first record whose mutation fails; the records
  behind it are not looked at again.
\<close>

fun consume_batch :: "('db, 'txn) badger_api \<Rightarrow> 'prog expr_lib \<Rightarrow> int \<Rightarrow> (wire \<times> int) list \<Rightarrow>
    'db PartitionManager \<Rightarrow> unit go \<times> 'db PartitionManager" where
  "consume_batch B X i [] pm = (Ok (), pm)"
| "consume_batch B X i ((value, offset) # records) pm =
     (case pm_HandleMutation B X pm i value offset of
        (Ok _, pm') \<Rightarrow> consume_batch B X i records pm'
      | (Err e, pm') \<Rightarrow> (Err e, pm')
      | (Panic, pm') \<Rightarrow> (Panic, pm'))"

text \<open>
  The goroutines of a fetch run side by side, each on its own partition, and \<^verbatim>\<open>Wait\<close> returns
  one of their errors: here they run one after the other and the first error is kept
  (\<open>polling_applies_every_log\<close> shows that the order does not matter for the partitions). A panic
  ends the program.
\<close>

fun consume_all :: "('db, 'txn) badger_api \<Rightarrow> 'prog expr_lib \<Rightarrow> (int \<times> (wire \<times> int) list) list \<Rightarrow>
    'db PartitionManager \<Rightarrow> unit go \<times> 'db PartitionManager" where
  "consume_all B X [] pm = (Ok (), pm)"
| "consume_all B X ((i, records) # parts) pm =
     (case consume_batch B X i records pm of
        (Panic, pm') \<Rightarrow> (Panic, pm')
      | (Ok _, pm') \<Rightarrow> consume_all B X parts pm'
      | (Err e, pm') \<Rightarrow>
          (case consume_all B X parts pm' of
             (Panic, pm'') \<Rightarrow> (Panic, pm'')
           | (_, pm'') \<Rightarrow> (Err e, pm'')))"

definition pollRecords :: "('db, 'txn) badger_api \<Rightarrow> 'prog expr_lib \<Rightarrow> fetch \<Rightarrow> 'db PartitionManager \<Rightarrow>
    unit go \<times> 'db PartitionManager" where
  "pollRecords B X f pm =
     (let errs = f_Errors f
      in if length errs > 0 then
           (if length errs = 1 \<and> hd errs = DeadlineExceeded then (Ok (), pm)
            else if length errs = 1 \<and> hd errs = kgo_ErrClientClosed then (Ok (), pm)
            else (Err ErrPollFetches, pm))
         else consume_all B X (f_Partitions f) pm)"

text \<open>
  The polling loop: an error is logged and the next poll goes on, with what the client
  fetches next. The list is what the client returns until \<^verbatim>\<open>shuttingDown\<close> is set; \<open>None\<close> is
  a panic.
\<close>

fun launchPollRecordLoop :: "('db, 'txn) badger_api \<Rightarrow> 'prog expr_lib \<Rightarrow> fetch list \<Rightarrow> 'db PartitionManager \<Rightarrow>
    'db PartitionManager option" where
  "launchPollRecordLoop B X [] pm = Some pm"
| "launchPollRecordLoop B X (f # fs) pm =
     (case pollRecords B X f pm of
        (Panic, _) \<Rightarrow> None
      | (_, pm') \<Rightarrow> launchPollRecordLoop B X fs pm')"

section \<open>The abstract run of a log\<close>

type_synonym log = "(RecordMutation \<times> int) list"

fun spec_run :: "'prog expr_lib \<Rightarrow> log \<Rightarrow> replica \<Rightarrow> replica go" where
  "spec_run X [] st = Ok st"
| "spec_run X ((m, off) # ms) st = bind_go (spec_mutation X st m off) (spec_run X ms)"

lemma bind_go_assoc: "bind_go (bind_go r f) g = bind_go r (\<lambda>x. bind_go (f x) g)"
  by (cases r) auto

lemma spec_run_append: "spec_run X (a @ b) st = bind_go (spec_run X a st) (spec_run X b)"
proof (induction a arbitrary: st)
  case (Cons mo a)
  then have "spec_run X (a @ b) = (\<lambda>st. bind_go (spec_run X a st) (spec_run X b))" by (intro ext)
  then show ?case by (cases mo) (simp add: bind_go_assoc)
qed simp

text \<open>The log as the node sees it: serialised mutations that the handler accepts.\<close>

definition log_ok :: "log \<Rightarrow> bool" where
  "log_ok ms \<longleftrightarrow> (\<forall>(m, off) \<in> set ms. mutation_ok m \<and> int64_range (m_TsMs m) \<and> int64_range off)"

definition wire_log :: "log \<Rightarrow> (wire \<times> int) list" where
  "wire_log ms = map (\<lambda>(m, off). (marshal_RecordMutation m, off)) ms"

lemma log_ok_simps [simp]:
  "log_ok []" "log_ok ((m, off) # ms) \<longleftrightarrow> mutation_ok m \<and> int64_range (m_TsMs m) \<and> int64_range off \<and> log_ok ms"
  "log_ok (a @ b) \<longleftrightarrow> log_ok a \<and> log_ok b"
  by (auto simp: log_ok_def)

lemma wire_log_simps [simp]:
  "wire_log [] = []" "wire_log ((m, off) # ms) = (marshal_RecordMutation m, off) # wire_log ms"
  "wire_log (a @ b) = wire_log a @ wire_log b"
  by (simp_all add: wire_log_def)

lemma unmarshal_mutation:
  "mutation_ok m \<Longrightarrow> int64_range (m_TsMs m) \<Longrightarrow>
    unmarshal_RecordMutation (marshal_RecordMutation m) zero_RecordMutation = Ok m"
  by (rule unmarshal_marshal_RecordMutation) (auto simp: mutation_ok_def)

lemma consume_batch_append:
  "consume_batch B X i (a @ b) pm = (case consume_batch B X i a pm of
     (Ok _, pm') \<Rightarrow> consume_batch B X i b pm' | (Err e, pm') \<Rightarrow> (Err e, pm') | (Panic, pm') \<Rightarrow> (Panic, pm'))"
  by (induction B X i a pm rule: consume_batch.induct) (auto split: go.splits prod.splits)

text \<open>
  Batches of several partitions: every partition runs its own part of what is fetched.
\<close>

definition log_of :: "int \<Rightarrow> (int \<times> log) list \<Rightarrow> log" where
  "log_of i ps = concat (map snd (filter (\<lambda>(j, _). j = i) ps))"

lemma log_of_simps [simp]:
  "log_of i [] = []" "log_of i ((j, l) # ps) = (if j = i then l @ log_of i ps else log_of i ps)"
  by (simp_all add: log_of_def)

context badger_reliable
begin

text \<open>One partition's batch: a run of the log, or the run up to the mutation that fails.\<close>

lemma consume_batch_Ok:
  assumes "pm_ok db_map pm" and "log_ok ms" and "abs_node db_map pm i = Some st"
    and "spec_run X ms st = Ok st'"
  shows "\<exists>pm'. consume_batch B X i (wire_log ms) pm = (Ok (), pm') \<and> pm_ok db_map pm' \<and>
    abs_node db_map pm' = (abs_node db_map pm)(i \<mapsto> st')"
  using assms
proof (induction ms arbitrary: pm st)
  case Nil
  then show ?case by (auto simp: map_upd_triv)
next
  case (Cons mo ms)
  obtain m off where mo: "mo = (m, off)" by fastforce
  with Cons.prems obtain st1 where st1: "spec_mutation X st m off = Ok st1" "spec_run X ms st1 = Ok st'"
    by (auto simp: bind_go_Ok_iff)
  have m: "mutation_ok m" "int64_range (m_TsMs m)" "int64_range off" using Cons.prems(2) mo by auto
  have "spec_node_mutation X (abs_node db_map pm) i m off = Ok ((abs_node db_map pm)(i \<mapsto> st1))"
    using Cons.prems(3) st1 by (simp add: spec_node_mutation_def)
  with pm_HandleMutation_refines [OF Cons.prems(1) unmarshal_mutation [OF m(1,2)] m(1,3), of X i]
  obtain pm1 where pm1: "pm_HandleMutation B X pm i (marshal_RecordMutation m) off = (Ok (), pm1)"
      "abs_node db_map pm1 = (abs_node db_map pm)(i \<mapsto> st1)" "pm_ok db_map pm1" by auto
  then have "abs_node db_map pm1 i = Some st1" by simp
  with Cons.IH [OF pm1(3) _ this st1(2)] Cons.prems(2) mo pm1(1,2) show ?case
    by (auto simp: fun_eq_iff)
qed

lemma consume_batch_Err:
  assumes "pm_ok db_map pm" and "log_ok (ms @ (m, off) # rest)" and "abs_node db_map pm i = Some st"
    and "spec_run X ms st = Ok st'" and "spec_mutation X st' m off = Err e"
  shows "\<exists>pm'. consume_batch B X i (wire_log (ms @ (m, off) # rest)) pm = (Err e, pm') \<and> pm_ok db_map pm' \<and>
    abs_node db_map pm' = (abs_node db_map pm)(i \<mapsto> st')"
proof -
  obtain pm1 where pm1: "consume_batch B X i (wire_log ms) pm = (Ok (), pm1)" "pm_ok db_map pm1"
      "abs_node db_map pm1 = (abs_node db_map pm)(i \<mapsto> st')"
    using consume_batch_Ok [OF assms(1) _ assms(3,4)] assms(2) by auto
  have m: "mutation_ok m" "int64_range (m_TsMs m)" "int64_range off" using assms(2) by auto
  have "spec_node_mutation X (abs_node db_map pm1) i m off = Err e"
    using pm1(3) assms(5) by (simp add: spec_node_mutation_def)
  with pm_HandleMutation_refines [OF pm1(2) unmarshal_mutation [OF m(1,2)] m(1,3), of X i] pm1
  show ?thesis by (auto simp: consume_batch_append)
qed

lemma consume_all_Ok:
  assumes "pm_ok db_map pm" and "\<forall>(i, l) \<in> set ps. log_ok l \<and> abs_node db_map pm i \<noteq> None"
    and "\<And>i st. abs_node db_map pm i = Some st \<Longrightarrow> spec_run X (log_of i ps) st = Ok (F i)"
  shows "\<exists>pm'. consume_all B X (map (\<lambda>(i, l). (i, wire_log l)) ps) pm = (Ok (), pm') \<and> pm_ok db_map pm' \<and>
    abs_node db_map pm' = (\<lambda>i. map_option (\<lambda>_. F i) (abs_node db_map pm i))"
  using assms
proof (induction ps arbitrary: pm)
  case Nil
  then have "abs_node db_map pm = (\<lambda>i. map_option (\<lambda>_. F i) (abs_node db_map pm i))"
    by (intro ext) (auto simp: option.map_sel split: option.split intro: option.expand)
  with Nil show ?case by simp
next
  case (Cons il ps)
  obtain i l where il: "il = (i, l)" by fastforce
  with Cons.prems(2) obtain st where st: "abs_node db_map pm i = Some st" and l: "log_ok l" by auto
  with Cons.prems(3) [of i st] il obtain st1 where st1: "spec_run X l st = Ok st1"
      "spec_run X (log_of i ps) st1 = Ok (F i)"
    by (auto simp: spec_run_append bind_go_Ok_iff)
  obtain pm1 where pm1: "consume_batch B X i (wire_log l) pm = (Ok (), pm1)" "pm_ok db_map pm1"
      "abs_node db_map pm1 = (abs_node db_map pm)(i \<mapsto> st1)"
    using consume_batch_Ok [OF Cons.prems(1) l st st1(1)] by blast
  have "\<exists>pm'. consume_all B X (map (\<lambda>(i, l). (i, wire_log l)) ps) pm1 = (Ok (), pm') \<and> pm_ok db_map pm' \<and>
      abs_node db_map pm' = (\<lambda>i. map_option (\<lambda>_. F i) (abs_node db_map pm1 i))"
  proof (rule Cons.IH [OF pm1(2)])
    show "\<forall>(j, l) \<in> set ps. log_ok l \<and> abs_node db_map pm1 j \<noteq> None"
      using Cons.prems(2) by (auto simp: pm1(3))
    show "spec_run X (log_of j ps) st' = Ok (F j)" if "abs_node db_map pm1 j = Some st'" for j st'
      using that st1(2) Cons.prems(3) [of j st'] il by (auto simp: pm1(3) split: if_splits)
  qed
  moreover have "(\<lambda>j. map_option (\<lambda>_. F j) (abs_node db_map pm1 j)) =
      (\<lambda>j. map_option (\<lambda>_. F j) (abs_node db_map pm j))"
    using st by (auto simp: pm1(3))
  ultimately show ?case using il pm1(1) by auto
qed

end

section \<open>Restarting\<close>

text \<open>Where \<^verbatim>\<open>topicInfoLoop\<close> resumes a partition: behind the recorded offset, or at the start.\<close>

definition resetOffset :: "int option \<Rightarrow> int" where
  "resetOffset off = (case off of None \<Rightarrow> 0 | Some n \<Rightarrow> wrap64 (n + 1))"

text \<open>
  A mutation that does not record its offset (a conditional delete of a record that is not
  there) does nothing, and does nothing again.
\<close>

lemma spec_mutation_cases:
  assumes "spec_mutation X (s, off) m k = Ok (s', off')"
  shows "off' = Some k \<or> (s' = s \<and> off' = off)"
  using assms
  by (auto simp: spec_mutation_def Let_def bind_go_Ok_iff split: if_splits option.splits)

text \<open>The offsets of a log: increasing, and within what an \<^verbatim>\<open>int64\<close> can be incremented from.\<close>

definition offsets_ok :: "int option \<Rightarrow> log \<Rightarrow> bool" where
  "offsets_ok off ms \<longleftrightarrow> sorted_wrt (<) (map snd ms) \<and>
     (\<forall>k \<in> snd ` set ms. resetOffset off \<le> k \<and> 0 \<le> k \<and> k < 2 ^ 63 - 1)"

lemma resetOffset_Some: "0 \<le> k \<Longrightarrow> k < 2 ^ 63 - 1 \<Longrightarrow> resetOffset (Some k) = k + 1"
  by (simp add: resetOffset_def int64_range_def)

lemma replay_nothing:
  assumes "offsets_ok off0 pre" and "spec_run X pre (s0, off0) = Ok (s, off)"
  shows "spec_run X (filter (\<lambda>(m, k). resetOffset off \<le> k) pre) (s, off) = Ok (s, off)
    \<and> (off = off0 \<or> (\<exists>k \<in> snd ` set pre. off = Some k))"
  using assms
proof (induction pre arbitrary: s off rule: rev_induct)
  case (snoc mk pre)
  obtain m k where mk: "mk = (m, k)" by fastforce
  obtain s1 off1 where r1: "spec_run X pre (s0, off0) = Ok (s1, off1)" "spec_mutation X (s1, off1) m k = Ok (s, off)"
    using snoc.prems(2) mk by (auto simp: spec_run_append bind_go_Ok_iff)
  have pre: "offsets_ok off0 pre" and k: "0 \<le> k" "k < 2 ^ 63 - 1" and less: "\<forall>k' \<in> snd ` set pre. k' < k"
    using snoc.prems(1) mk by (auto simp: offsets_ok_def sorted_wrt_append)
  note IH = snoc.IH [OF pre r1(1)]
  from spec_mutation_cases [OF r1(2)] show ?case
  proof
    assume off: "off = Some k"
    then have "filter (\<lambda>(m, k). resetOffset off \<le> k) (pre @ [mk]) = []"
      using less k mk by (force simp: filter_empty_conv resetOffset_Some)
    with off mk show ?thesis by auto
  next
    assume "s = s1 \<and> off = off1"
    with IH r1(2) mk show ?thesis by (auto simp: spec_run_append)
  qed
qed simp

lemma replay_from_offset:
  assumes ok: "offsets_ok off0 (pre @ post)" and pre: "spec_run X pre (s0, off0) = Ok (s, off)"
  shows "spec_run X (filter (\<lambda>(m, k). resetOffset off \<le> k) (pre @ post)) (s, off) = spec_run X (pre @ post) (s0, off0)"
proof -
  have p: "offsets_ok off0 pre" using ok by (auto simp: offsets_ok_def sorted_wrt_append)
  note r = replay_nothing [OF p pre]
  have "resetOffset off \<le> k" if "k \<in> snd ` set post" for k
  proof (cases "off = off0")
    case True
    with ok that show ?thesis by (auto simp: offsets_ok_def)
  next
    case False
    then obtain k' where "k' \<in> snd ` set pre" "off = Some k'" using r by blast
    moreover from this ok that have "k' < k" "0 \<le> k'" "k' < 2 ^ 63 - 1"
      by (auto simp: offsets_ok_def sorted_wrt_append)
    ultimately show ?thesis by (simp add: resetOffset_Some)
  qed
  then have "filter (\<lambda>(m, k). resetOffset off \<le> k) post = post"
    by (force intro: filter_True)
  with r pre show ?thesis by (simp add: spec_run_append)
qed

lemma shutdown_all_Ok:
  assumes "\<And>d. env_close E d = None" and "distinct (map ID parts)"
  shows "\<exists>disk'. shutdown_all E parts disk = (Ok (), disk') \<and>
    (\<forall>p \<in> set parts. disk' (getPartitionPath (ID p)) = Some (DB p)) \<and>
    (\<forall>i. i \<notin> ID ` set parts \<longrightarrow> disk' (getPartitionPath i) = disk (getPartitionPath i))"
  using assms(2)
proof (induction parts arbitrary: disk)
  case (Cons p parts)
  let ?disk = "disk(getPartitionPath (ID p) \<mapsto> DB p)"
  have "close_db E p disk = (Ok (), ?disk)" by (simp add: close_db_def assms(1))
  moreover from Cons.prems have "distinct (map ID parts)" by simp
  from Cons.IH [OF this, of ?disk] obtain disk' where "shutdown_all E parts ?disk = (Ok (), disk')"
      "\<forall>p \<in> set parts. disk' (getPartitionPath (ID p)) = Some (DB p)"
      "\<forall>i. i \<notin> ID ` set parts \<longrightarrow> disk' (getPartitionPath i) = ?disk (getPartitionPath i)"
    using Cons by (metis distinct.simps(2) list.simps(9))
  ultimately show ?case using Cons.prems by auto
qed simp

lemma pm_Shutdown_Ok:
  assumes "\<And>d. env_close E d = None" and ok: "pm_ok db_map pm"
  shows "\<exists>disk'. pm_Shutdown E pm disk = (Ok (), disk') \<and>
    (\<forall>i p. Load (Partitions pm) i = Some p \<longrightarrow> disk' (getPartitionPath i) = Some (DB p)) \<and>
    (\<forall>i. Load (Partitions pm) i = None \<longrightarrow> disk' (getPartitionPath i) = disk (getPartitionPath i))"
proof -
  let ?parts = "map snd (Partitions pm)"
  have parts: "Range (\<lambda>_ part parts. (True, parts @ [part])) (Partitions pm) [] = ?parts"
    by (simp add: Range_collect [of "\<lambda>_ part. part"] case_prod_unfold)
  have ids: "ID (snd e) = fst e" if "e \<in> set (Partitions pm)" for e
    using that ok sm.set_entries [of "Partitions pm" "fst e" "snd e"] by (auto simp: pm_ok_def)
  then have eq: "map ID ?parts = map fst (Partitions pm)" by simp
  have "distinct (map ID ?parts)" unfolding eq using ok by (simp add: pm_ok_def map_ok_def)
  from shutdown_all_Ok [OF assms(1) this, of disk] obtain disk' where
    "pm_Shutdown E pm disk = (Ok (), disk')"
    "\<forall>p \<in> set ?parts. disk' (getPartitionPath (ID p)) = Some (DB p)"
    "\<forall>i. i \<notin> ID ` set ?parts \<longrightarrow> disk' (getPartitionPath i) = disk (getPartitionPath i)"
    by (auto simp: pm_Shutdown_def parts)
  moreover have "i \<notin> ID ` set ?parts" if "Load (Partitions pm) i = None" for i
    using that ids sm.set_entries [of "Partitions pm" i] ok by (fastforce simp: pm_ok_def)
  moreover have "p \<in> set ?parts" "ID p = i" if "Load (Partitions pm) i = Some p" for i p
    using that ok sm.set_entries [of "Partitions pm" i p] by (auto simp: pm_ok_def intro: image_eqI [where x = "(i, p)"])
  ultimately show ?thesis by metis
qed

section \<open>Replaying mutations that were applied already\<close>

text \<open>
  What a run of unconditional mutations does to the record of one key: nothing, or it leaves
  a fixed result, or it updates the record and keeps its creation time. All three are
  idempotent.
\<close>

definition key_run :: "log \<Rightarrow> string \<times> string \<Rightarrow> StoredRecord option \<Rightarrow> StoredRecord option" where
  "key_run ms k r = fold (\<lambda>(m, off) r.
     if (m_Pk m, m_Sk m) \<noteq> k then r
     else if m_Mutation m = OperationPut then
       Some \<lparr>Data = m_Data m, CreatedAt = (case r of None \<Rightarrow> m_TsMs m | Some r \<Rightarrow> CreatedAt r), UpdatedAt = m_TsMs m\<rparr>
     else None) ms r"

definition unconditional :: "log \<Rightarrow> bool" where
  "unconditional ms \<longleftrightarrow> (\<forall>(m, off) \<in> set ms. m_If m = None \<and>
     (m_Mutation m = OperationPut \<or> m_Mutation m = OperationDelete))"

lemma key_run_Cons:
  "key_run ((m, off) # ms) k r = key_run ms k (if (m_Pk m, m_Sk m) \<noteq> k then r
     else if m_Mutation m = OperationPut then
       Some \<lparr>Data = m_Data m, CreatedAt = (case r of None \<Rightarrow> m_TsMs m | Some r \<Rightarrow> CreatedAt r), UpdatedAt = m_TsMs m\<rparr>
     else None)"
  by (simp add: key_run_def)

lemma key_run_append: "key_run (a @ b) k r = key_run b k (key_run a k r)"
  by (simp add: key_run_def)

lemma key_run_shape:
  "(\<forall>r. key_run ms k r = r) \<or> (\<exists>c. \<forall>r. key_run ms k r = c) \<or>
   (\<exists>d c u. \<forall>r. key_run ms k r =
      Some \<lparr>Data = d, CreatedAt = (case r of None \<Rightarrow> c | Some r \<Rightarrow> CreatedAt r), UpdatedAt = u\<rparr>)"
proof (induction ms rule: rev_induct)
  case Nil
  then show ?case by (simp add: key_run_def)
next
  case (snoc mo ms)
  obtain m off where mo: "mo = (m, off)" by fastforce
  have step: "key_run (ms @ [mo]) k r = (if (m_Pk m, m_Sk m) \<noteq> k then key_run ms k r
     else if m_Mutation m = OperationPut then
       Some \<lparr>Data = m_Data m, CreatedAt = (case key_run ms k r of None \<Rightarrow> m_TsMs m | Some r \<Rightarrow> CreatedAt r),
         UpdatedAt = m_TsMs m\<rparr> else None)" for r
    by (simp add: key_run_append mo key_run_Cons) (simp add: key_run_def)
  show ?case
  proof (cases "(m_Pk m, m_Sk m) = k \<and> m_Mutation m = OperationPut")
    case True
    then have put: "key_run (ms @ [mo]) k r = Some \<lparr>Data = m_Data m,
        CreatedAt = (case key_run ms k r of None \<Rightarrow> m_TsMs m | Some r \<Rightarrow> CreatedAt r), UpdatedAt = m_TsMs m\<rparr>" for r
      by (simp add: step)
    from snoc show ?thesis
    proof (elim disjE exE)
      assume "\<forall>r. key_run ms k r = r"
      then show ?thesis unfolding put by auto
    next
      fix c assume "\<forall>r. key_run ms k r = c"
      then show ?thesis unfolding put by auto
    next
      fix d c u assume "\<forall>r. key_run ms k r =
        Some \<lparr>Data = d, CreatedAt = (case r of None \<Rightarrow> c | Some r \<Rightarrow> CreatedAt r), UpdatedAt = u\<rparr>"
      then show ?thesis unfolding put by auto
    qed
  next
    case False
    with snoc step show ?thesis by (cases "(m_Pk m, m_Sk m) = k") auto
  qed
qed

lemma key_run_idem: "key_run ms k (key_run ms k r) = key_run ms k r"
  using key_run_shape [of ms k]
proof (elim disjE exE)
  fix d c u assume "\<forall>r. key_run ms k r =
    Some \<lparr>Data = d, CreatedAt = (case r of None \<Rightarrow> c | Some r \<Rightarrow> CreatedAt r), UpdatedAt = u\<rparr>"
  then show ?thesis by simp
qed simp_all

lemma spec_run_unconditional:
  "unconditional ms \<Longrightarrow> spec_run X ms (s, off) =
     Ok (\<lambda>k. key_run ms k (s k), if ms = [] then off else Some (snd (last ms)))"
proof (induction ms arbitrary: s off)
  case Nil
  then show ?case by (simp add: key_run_def)
next
  case (Cons mo ms)
  obtain m k where mo: "mo = (m, k)" by fastforce
  have u: "unconditional ms" "m_If m = None" "m_Mutation m = OperationPut \<or> m_Mutation m = OperationDelete"
    using Cons.prems mo by (auto simp: unconditional_def)
  let ?s = "\<lambda>kk. key_run [mo] kk (s kk)"
  have key: "?s kk = (if (m_Pk m, m_Sk m) \<noteq> kk then s kk
      else if m_Mutation m = OperationPut then
        Some \<lparr>Data = m_Data m, CreatedAt = (case s kk of None \<Rightarrow> m_TsMs m | Some r \<Rightarrow> CreatedAt r), UpdatedAt = m_TsMs m\<rparr>
      else None)" for kk by (simp add: mo key_run_Cons) (simp add: key_run_def)
  have ops: "OperationDelete \<noteq> OperationPut" by (simp add: operation_defs)
  have "spec_mutation X (s, off) m k = Ok (?s, Some k)"
    using u(3)
  proof
    assume put: "m_Mutation m = OperationPut"
    have "s((m_Pk m, m_Sk m) \<mapsto> (loaded s (m_Pk m, m_Sk m) (m_TsMs m))\<lparr>Data := m_Data m\<rparr>) = ?s"
      unfolding key by (auto simp: put loaded_def fun_eq_iff split: option.split)
    with put show ?thesis
      by (simp add: spec_mutation_def spec_put_def check_if_def u(2) Let_def)
  next
    assume del: "m_Mutation m = OperationDelete"
    have "s((m_Pk m, m_Sk m) := None) = ?s"
      unfolding key by (auto simp: del ops fun_eq_iff)
    with del ops show ?thesis
      by (simp add: spec_mutation_def spec_delete_def u(2) Let_def)
  qed
  with Cons.IH [OF u(1)] mo show ?case by (auto simp: key_run_Cons) (simp_all add: key_run_def)
qed

section \<open>Fetches\<close>

text \<open>What a poll returns: nothing in time, or parts of the logs of some partitions.\<close>

definition fetch_of :: "(int \<times> log) list option \<Rightarrow> fetch" where
  "fetch_of g = (case g of
     None \<Rightarrow> \<lparr>f_Errors = [DeadlineExceeded], f_Partitions = []\<rparr>
   | Some ps \<Rightarrow> \<lparr>f_Errors = [], f_Partitions = map (\<lambda>(i, l). (i, wire_log l)) ps\<rparr>)"

definition fetched :: "(int \<times> log) list option list \<Rightarrow> (int \<times> log) list" where
  "fetched gs = concat (map (\<lambda>g. case g of None \<Rightarrow> [] | Some ps \<Rightarrow> ps) gs)"

lemma pollRecords_fetch [simp]:
  "pollRecords B X (fetch_of None) pm = (Ok (), pm)"
  "pollRecords B X (fetch_of (Some ps)) pm = consume_all B X (map (\<lambda>(i, l). (i, wire_log l)) ps) pm"
  by (simp_all add: pollRecords_def fetch_of_def)

lemma consume_all_append_Ok:
  "consume_all B X (a @ b) pm = (Ok u, pm') \<Longrightarrow>
    \<exists>pm1. consume_all B X a pm = (Ok (), pm1) \<and> consume_all B X b pm1 = (Ok (), pm')"
  by (induction B X a pm rule: consume_all.induct) (auto split: go.splits prod.splits)

lemma loop_consumes:
  "consume_all B X (map (\<lambda>(i, l). (i, wire_log l)) (fetched gs)) pm = (Ok u, pm') \<Longrightarrow>
    launchPollRecordLoop B X (map fetch_of gs) pm = Some pm'"
proof (induction gs arbitrary: pm)
  case (Cons g gs)
  show ?case
  proof (cases g)
    case (Some ps)
    with Cons.prems have "consume_all B X (map (\<lambda>(i, l). (i, wire_log l)) ps @
        map (\<lambda>(i, l). (i, wire_log l)) (fetched gs)) pm = (Ok u, pm')" by (simp add: fetched_def)
    from consume_all_append_Ok [OF this] obtain pm1 where
      "consume_all B X (map (\<lambda>(i, l). (i, wire_log l)) ps) pm = (Ok (), pm1)"
      "consume_all B X (map (\<lambda>(i, l). (i, wire_log l)) (fetched gs)) pm1 = (Ok (), pm')" by blast
    with Cons.IH [of pm1] Some show ?thesis by simp
  qed (use Cons in \<open>simp add: fetched_def\<close>)
qed (simp add: fetched_def)

lemma spec_run_again:
  assumes "unconditional mid" and "mid \<noteq> []" and "spec_run X mid st = Ok (s, off)"
  shows "spec_run X (mid @ post) (s, off') = spec_run X (mid @ post) st"
proof -
  obtain s0 off0 where st: "st = (s0, off0)" by fastforce
  with assms have "s = (\<lambda>k. key_run mid k (s0 k))"
    by (simp add: spec_run_unconditional)
  then have "spec_run X mid (s, off') = spec_run X mid st"
    using assms(1,2) by (simp add: st spec_run_unconditional key_run_idem)
  then show ?thesis by (simp add: spec_run_append)
qed

section \<open>Properties\<close>

text \<open>
  C12. However the logs of the partitions are cut into fetches and interleaved, with polls that
  time out in between, the polling loop takes every partition of the node to the state that
  the abstract run of its own log gives, if none of its mutations fails.
\<close>

theorem polling_applies_every_log:
  assumes "badger_reliable B db_map txn_map" and "pm_ok db_map pm"
    and "\<forall>(i, l) \<in> set (fetched gs). log_ok l \<and> abs_node db_map pm i \<noteq> None"
    and "\<And>i st. abs_node db_map pm i = Some st \<Longrightarrow> spec_run X (log_of i (fetched gs)) st = Ok (F i)"
  shows "\<exists>pm'. launchPollRecordLoop B X (map fetch_of gs) pm = Some pm' \<and> pm_ok db_map pm' \<and>
    abs_node db_map pm' = (\<lambda>i. map_option (\<lambda>_. F i) (abs_node db_map pm i))"
proof -
  obtain pm' where "consume_all B X (map (\<lambda>(i, l). (i, wire_log l)) (fetched gs)) pm = (Ok (), pm')"
    "pm_ok db_map pm'" "abs_node db_map pm' = (\<lambda>i. map_option (\<lambda>_. F i) (abs_node db_map pm i))"
    using badger_reliable.consume_all_Ok [OF assms] by auto
  then show ?thesis using loop_consumes by blast
qed

definition demo_log :: log where
  "demo_log = [(demo_put ''a'' ''x'' None 7, 0), (demo_delete ''a'' None, 1), (demo_put ''b'' ''y'' None 9, 2)]"

lemma demo_log_ok: "log_ok demo_log"
  by (simp add: demo_log_def demo_mutation_ok time_ok_def int64_range_def)
    (simp add: demo_put_def demo_delete_def mutation_ok_def no_nul_def NUL_def data_ok_def time_ok_def)

lemma demo_pm_abs: "abs_node map_of demo_pm = [0 \<mapsto> (\<lambda>_. None, None)]"
  by (auto simp: abs_node_def demo_pm_def Load_def demo_part_def abs_store_def abs_records_def
      abs_offset_def fun_eq_iff)

lemma demo_log_unconditional: "unconditional demo_log"
  by (simp add: unconditional_def demo_log_def demo_put_def demo_delete_def)

theorem polling_applies_every_log_witness:
  "\<exists>pm'. launchPollRecordLoop mem_badger demo_expr
       (map fetch_of [Some [(0, take 1 demo_log)], None, Some [(0, drop 1 demo_log)]]) demo_pm = Some pm' \<and>
     map_option snd (abs_node map_of pm' 0) = Some (Some 2)"
proof -
  let ?gs = "[Some [(0 :: int, take 1 demo_log)], None, Some [(0, drop 1 demo_log)]]"
  let ?st = "(\<lambda>k. key_run demo_log k None, Some 2)"
  have f: "fetched ?gs = [(0, take 1 demo_log), (0, drop 1 demo_log)]" by (simp add: fetched_def)
  have run: "spec_run demo_expr demo_log (\<lambda>_. None, None) = Ok ?st"
    using spec_run_unconditional [OF demo_log_unconditional, of demo_expr "\<lambda>_. None" None]
    by (simp add: demo_log_def)
  have "log_ok (take 1 demo_log)" "log_ok (drop 1 demo_log)"
    using demo_log_ok log_ok_simps(3) [of "take 1 demo_log" "drop 1 demo_log"] by simp_all
  then have "\<forall>(i, l) \<in> set (fetched ?gs). log_ok l \<and> abs_node map_of demo_pm i \<noteq> None"
    unfolding f by (simp add: demo_pm_abs)
  moreover have "spec_run demo_expr (log_of i (fetched ?gs)) st = Ok ?st"
    if "abs_node map_of demo_pm i = Some st" for i st
    using that run unfolding f by (simp add: demo_pm_abs split: if_splits)
  ultimately show ?thesis
    using polling_applies_every_log [OF mem.badger_reliable_axioms demo_pm_ok, of ?gs demo_expr "\<lambda>_. ?st"]
    by (auto simp: demo_pm_abs)
qed

text \<open>
  C37. A mutation that fails (an \<^verbatim>\<open>if\<close> that compiles but fails at run time is enough) takes the
  rest of its batch with it: the loop goes on with the next fetch, and the partition ends as
  if the mutations behind the failed one had never been written. If the next fetch records
  an offset, no restart will read them again.
\<close>

theorem failed_mutation_loses_rest_of_batch:
  assumes "badger_reliable B db_map txn_map" and "pm_ok db_map pm"
    and "log_ok (pre @ (m, off) # lost @ later)" and "offsets_ok None (pre @ (m, off) # lost @ later)" and "abs_node db_map pm i = Some st"
    and "spec_run X pre st = Ok st1" and "spec_mutation X st1 m off = Err e"
    and "spec_run X later st1 = Ok st2"
  shows "\<exists>pm'. launchPollRecordLoop B X
      [fetch_of (Some [(i, pre @ (m, off) # lost)]), fetch_of (Some [(i, later)])] pm = Some pm' \<and>
    abs_node db_map pm' = (abs_node db_map pm)(i \<mapsto> st2) \<and>
    (later \<noteq> [] \<and> snd st2 = Some (snd (last later)) \<longrightarrow> (\<forall>k \<in> snd ` set lost. k < resetOffset (snd st2)))"
proof -
  have skipped: "\<forall>k \<in> snd ` set lost. k < resetOffset (snd st2)"
    if "later \<noteq> []" "snd st2 = Some (snd (last later))"
  proof
    fix k assume "k \<in> snd ` set lost"
    moreover have "last later \<in> set later" using that by simp
    ultimately have "k < snd (last later)" "0 \<le> snd (last later)" "snd (last later) < 2 ^ 63 - 1"
      using assms(4) by (auto simp: offsets_ok_def sorted_wrt_append)
    then show "k < resetOffset (snd st2)" by (simp add: that resetOffset_Some)
  qed
  obtain pm1 where pm1: "consume_batch B X i (wire_log (pre @ (m, off) # lost)) pm = (Err e, pm1)"
      "pm_ok db_map pm1" "abs_node db_map pm1 = (abs_node db_map pm)(i \<mapsto> st1)"
    using badger_reliable.consume_batch_Err [OF assms(1,2) _ assms(5,6,7), of lost] assms(3) by auto
  obtain pm2 where "consume_batch B X i (wire_log later) pm1 = (Ok (), pm2)"
      "abs_node db_map pm2 = (abs_node db_map pm1)(i \<mapsto> st2)"
    using badger_reliable.consume_batch_Ok [OF assms(1) pm1(2) _ _ assms(8), of i] assms(3) pm1(3) by auto
  with pm1 skipped show ?thesis
    by (auto simp: fun_eq_iff simp del: wire_log_simps)
qed

definition failing_expr :: "string expr_lib" where
  "failing_expr = \<lparr>ex_compile = (\<lambda>s _. Inr s), ex_run = (\<lambda>_ _. Inl (External ''nil value''))\<rparr>"

theorem failed_mutation_loses_rest_of_batch_witness:
  "\<exists>pm'. launchPollRecordLoop mem_badger failing_expr
      [fetch_of (Some [(0, [(demo_put ''a'' ''x'' (Some ''data.n > 1'') 7, 0), (demo_put ''b'' ''y'' None 8, 1)])]),
       fetch_of (Some [(0, [(demo_delete ''c'' None, 2)])])] demo_pm = Some pm' \<and>
     abs_node map_of pm' 0 = Some (\<lambda>_. None, Some 2)"
proof -
  let ?m = "demo_put ''a'' ''x'' (Some ''data.n > 1'') 7"
  have ok: "log_ok ([] @ (?m, 0) # [(demo_put ''b'' ''y'' None 8, 1)] @ [(demo_delete ''c'' None, 2)])"
    by (simp add: demo_mutation_ok time_ok_def int64_range_def)
      (simp add: demo_put_def demo_delete_def mutation_ok_def no_nul_def NUL_def data_ok_def time_ok_def)
  have offs: "offsets_ok None ([] @ (?m, 0) # [(demo_put ''b'' ''y'' None 8, 1)] @ [(demo_delete ''c'' None, 2)])"
    by (simp add: offsets_ok_def resetOffset_def)
  have fail: "spec_mutation failing_expr (\<lambda>_. None, None) ?m 0 = Err (External ''nil value'')"
    by (simp add: spec_mutation_def spec_put_def check_if_def CompareIfStatement_def failing_expr_def demo_put_def)
  have more: "spec_run failing_expr [(demo_delete ''c'' None, 2)] (\<lambda>_. None, None) = Ok (\<lambda>_. None, Some 2)"
    by (simp add: spec_mutation_def spec_delete_def demo_delete_def operation_defs fun_eq_iff)
  show ?thesis
    using failed_mutation_loses_rest_of_batch [OF mem.badger_reliable_axioms demo_pm_ok ok offs _ _ fail more, of 0]
    by (auto simp: demo_pm_abs)
qed

text \<open>
  C7. Restarting loses nothing and repeats nothing: after any prefix of the log a node can be
  shut down; the partition that is opened again reports an offset, and consuming the log from
  behind that offset gives the state of a run over the whole log.
\<close>

theorem restart_recovers:
  assumes node: "node_disk E db_map txn_map" and ok: "pm_ok db_map pm"
    and env: "\<not> env_S3RestoreEnabled E" "env_session E = None"
    and st: "abs_node db_map pm i = Some (s0, off0)"
    and log: "log_ok (pre @ post)" "offsets_ok off0 (pre @ post)"
    and run: "spec_run X (pre @ post) (s0, off0) = Ok st'"
  shows "\<exists>pm1 disk1 off pm2 disk2 pm3.
    consume_batch (env_B E) X i (wire_log pre) pm = (Ok (), pm1) \<and>
    pm_Shutdown E pm1 disk = (Ok (), disk1) \<and>
    AddPartition E s (NewPartitionManager (pm_Namespace pm)) disk1 i = (Ok off, pm2, disk2) \<and>
    consume_batch (env_B E) X i (wire_log (filter (\<lambda>(m, k). resetOffset off \<le> k) (pre @ post))) pm2 = (Ok (), pm3) \<and>
    abs_node db_map pm3 i = Some st'"
proof -
  have B: "badger_reliable (env_B E) db_map txn_map" using node by (rule node_disk.axioms)
  obtain s1 off1 where run1: "spec_run X pre (s0, off0) = Ok (s1, off1)"
    using run by (auto simp: spec_run_append bind_go_Ok_iff)
  obtain pm1 where pm1: "consume_batch (env_B E) X i (wire_log pre) pm = (Ok (), pm1)"
      "pm_ok db_map pm1" "abs_node db_map pm1 = (abs_node db_map pm)(i \<mapsto> (s1, off1))"
    using badger_reliable.consume_batch_Ok [OF B ok _ st run1] log(1) by auto
  then obtain p1 where p1: "Load (Partitions pm1) i = Some p1" "abs_store (db_map (DB p1)) = (s1, off1)"
    by (auto simp: abs_node_def fun_eq_iff split: if_splits dest: spec [of _ i])
  then have p1_ok: "ID p1 = i" "store_ok (db_map (DB p1))" using pm1(2) by (auto simp: pm_ok_def part_ok_def)
  obtain disk1 where disk1: "pm_Shutdown E pm1 disk = (Ok (), disk1)" "disk1 (getPartitionPath i) = Some (DB p1)"
    using pm_Shutdown_Ok [OF node_disk.close_ok [OF node] pm1(2), of disk] p1(1) by blast
  obtain q where q: "newPartition E s disk1 (pm_Namespace pm) i = (Ok q, disk1(getPartitionPath i \<mapsto> DB q))"
      "ID q = i" "Namespace q = pm_Namespace pm" "part_ok db_map q" "db_map (DB q) = db_map (DB p1)"
    using node_disk.newPartition_local [where disk = disk1 and d = "DB p1" and i = i, OF node disk1(2) p1_ok(2) env] by blast
  have off: "LastOffset q = off1" using q(4,5) p1(2) by (simp add: part_ok_def abs_store_def)
  let ?new = "NewPartitionManager (pm_Namespace pm) :: 'a PartitionManager"
  let ?pm2 = "?new\<lparr>Partitions := Store (Partitions ?new) i q\<rparr>"
  have new: "map_ok (Partitions ?new)" "Load (Partitions ?new) i = None"
    by (simp_all add: NewPartitionManager_def sm.ok_new sm.load_new)
  have add: "AddPartition E s ?new disk1 i = (Ok off1, ?pm2, disk1(getPartitionPath i \<mapsto> DB q))"
    using q(1) off new(2) by (simp add: AddPartition_def NewPartitionManager_def)
  have pm2: "pm_ok db_map ?pm2"
    using q(2-4) by (intro pm_ok_store pm_ok_new) (simp_all add: NewPartitionManager_def)
  have "abs_node db_map ?pm2 i = Some (s1, off1)"
    using new(1) q(5) p1(2) by (simp add: abs_node_store)
  moreover have "log_ok (filter (\<lambda>(m, k). resetOffset off1 \<le> k) (pre @ post))"
    using log(1) by (auto simp: log_ok_def)
  moreover have "spec_run X (filter (\<lambda>(m, k). resetOffset off1 \<le> k) (pre @ post)) (s1, off1) = Ok st'"
    using replay_from_offset [OF log(2) run1] run by simp
  ultimately obtain pm3 where
    "consume_batch (env_B E) X i (wire_log (filter (\<lambda>(m, k). resetOffset off1 \<le> k) (pre @ post))) ?pm2 = (Ok (), pm3)"
    "abs_node db_map pm3 = (abs_node db_map ?pm2)(i \<mapsto> st')"
    using badger_reliable.consume_batch_Ok [OF B pm2, of "filter (\<lambda>(m, k). resetOffset off1 \<le> k) (pre @ post)" i] by blast
  with pm1(1) disk1(1) add show ?thesis by (metis fun_upd_same)
qed

theorem restart_recovers_witness:
  "\<exists>pm1 disk1 off pm2 disk2 pm3. consume_batch mem_badger demo_expr 0 (wire_log (take 2 demo_log)) demo_pm = (Ok (), pm1) \<and>
     pm_Shutdown (mem_env False False) pm1 Map.empty = (Ok (), disk1) \<and>
     AddPartition (mem_env False False) [] (NewPartitionManager ''ns'') disk1 0 = (Ok off, pm2, disk2) \<and>
     consume_batch mem_badger demo_expr 0 (wire_log (filter (\<lambda>(m, k). resetOffset off \<le> k) demo_log)) pm2 = (Ok (), pm3) \<and>
     abs_node map_of pm3 0 = Some (\<lambda>k. key_run demo_log k None, Some 2)"
proof -
  have run: "spec_run demo_expr (take 2 demo_log @ drop 2 demo_log) (\<lambda>_. None, None) =
      Ok (\<lambda>k. key_run demo_log k None, Some 2)"
    unfolding append_take_drop_id
    using spec_run_unconditional [OF demo_log_unconditional, of demo_expr "\<lambda>_. None" None]
    by (simp add: demo_log_def)
  have st: "abs_node map_of demo_pm 0 = Some (\<lambda>_. None, None)" by (simp add: demo_pm_abs)
  have offs: "offsets_ok None demo_log" by (simp add: demo_log_def offsets_ok_def resetOffset_def)
  have "env_B (mem_env False False) = mem_badger" "pm_Namespace demo_pm = ''ns''"
    "\<not> env_S3RestoreEnabled (mem_env False False)" "env_session (mem_env False False) = None"
    by (simp_all add: mem_env_def demo_pm_def)
  with restart_recovers [OF mem_node.node_disk_axioms [of False False] demo_pm_ok _ _ st _ _ run,
      where s = "[]" and disk = Map.empty] demo_log_ok offs
  show ?thesis by simp
qed

text \<open>
  C35. Unconditional mutations can be replayed: a node whose store has already applied \<open>mid\<close>
  and that consumes \<open>mid\<close> again, and then the rest of the log, ends with the same partition as
  a node that consumes all of it once. So a restored backup is correct even if mutations were
  applied between its naming and its snapshot.
\<close>

theorem replay_unconditional:
  assumes "badger_reliable B db_map txn_map" and "pm_ok db_map pm" and "pm_ok db_map pm2"
    and "log_ok (mid @ post)" and "unconditional mid" and "mid \<noteq> []"
    and "abs_node db_map pm i = Some st" and "spec_run X mid st = Ok (s, off)"
    and "spec_run X (mid @ post) st = Ok st'"
    and "abs_node db_map pm2 i = Some (s, off')"
  shows "\<exists>pm' pm2'. consume_batch B X i (wire_log (mid @ post)) pm = (Ok (), pm') \<and>
    consume_batch B X i (wire_log (mid @ post)) pm2 = (Ok (), pm2') \<and>
    abs_node db_map pm' i = Some st' \<and> abs_node db_map pm2' i = Some st'"
proof -
  have "spec_run X (mid @ post) (s, off') = Ok st'"
    using spec_run_again [OF assms(5,6,8)] assms(9) by simp
  then show ?thesis
    using badger_reliable.consume_batch_Ok [OF assms(1,2,4,7,9)]
      badger_reliable.consume_batch_Ok [OF assms(1,3,4,10)] by fastforce
qed

theorem replay_unconditional_witness:
  "\<exists>pm'. consume_batch mem_badger demo_expr 0 (wire_log (demo_log @ [])) demo_pm = (Ok (), pm') \<and>
     abs_node map_of pm' 0 = Some (\<lambda>k. key_run demo_log k None, Some 2)"
proof -
  let ?st = "(\<lambda>k. key_run demo_log k None, Some 2)"
  have run: "spec_run demo_expr demo_log (\<lambda>_. None, None) = Ok ?st"
    using spec_run_unconditional [OF demo_log_unconditional, of demo_expr "\<lambda>_. None" None]
    by (simp add: demo_log_def)
  have ok: "log_ok (demo_log @ [])" using demo_log_ok by simp
  have node: "abs_node map_of demo_pm 0 = Some (\<lambda>_. None, None)" by (simp add: demo_pm_abs)
  obtain pm2 where pm2: "pm_ok map_of pm2" "abs_node map_of pm2 0 = Some ?st"
    using mem.consume_batch_Ok [OF demo_pm_ok demo_log_ok node run] by auto
  show ?thesis
    using replay_unconditional [OF mem.badger_reliable_axioms demo_pm_ok pm2(1) ok demo_log_unconditional
        _ node run _ pm2(2)] run by (auto simp: demo_log_def)
qed

text \<open>
  Conditional mutations cannot be replayed. In the example two of them follow the first put
  of a key; the backup is named after the first put and its snapshot is taken after all three.
\<close>

definition cas_expr :: "string expr_lib" where
  "cas_expr = \<lparr>ex_compile = (\<lambda>s _. Inr s),
     ex_run = (\<lambda>old env. Inr (OBool (map_of env ''data'' = Some (CData (Some [(''v'', JStr old)])))))\<rparr>"

definition stale_log :: log where
  "stale_log = [(demo_put ''a'' ''0'' None 5, 1), (demo_put ''a'' ''1'' (Some ''2'') 7, 2), (demo_put ''a'' ''2'' (Some ''0'') 8, 3)]"

definition stale_pm :: "string \<Rightarrow> int \<Rightarrow> int \<Rightarrow> int \<Rightarrow> mem PartitionManager" where
  "stale_pm v t dbOffset off = \<lparr>Partitions = [(0, demo_part [(formatRecordKey ''pk1'' ''a'', demo_stored v 5 t),
     (LastOffsetKey, Raw (PutUint64 dbOffset))] (Some off))], pm_Namespace = ''ns''\<rparr>"

lemma stale_first:
  "consume_batch mem_badger cas_expr 0 (wire_log (take 1 stale_log)) demo_pm = (Ok (), stale_pm ''0'' 5 1 1)"
  by code_simp

lemma stale_conditional:
  "consume_batch mem_badger cas_expr 0 (wire_log (drop 1 stale_log)) (stale_pm ''0'' 5 1 1) = (Ok (), stale_pm ''2'' 8 3 3)"
  by code_simp

lemma stale_again:
  "consume_batch mem_badger cas_expr 0 (wire_log (filter (\<lambda>(m, k). resetOffset (Some 1) \<le> k) stale_log)) (stale_pm ''2'' 8 3 1)
     = (Ok (), stale_pm ''1'' 7 3 3)"
  by code_simp

lemmas stale_steps = stale_first stale_conditional stale_again

definition stale_bucket :: "mem mem_s3" where
  "stale_bucket = [(backup_key ''ns'' 0 1, [(formatRecordKey ''pk1'' ''a'', demo_stored ''2'' 5 8), (LastOffsetKey, Raw (PutUint64 3))])]"

lemma stale_backup:
  "case Load (Partitions (stale_pm ''0'' 5 1 1)) 0 of None \<Rightarrow> False | Some p1 \<Rightarrow>
   (case Load (Partitions (stale_pm ''2'' 8 3 3)) 0 of None \<Rightarrow> False | Some p2 \<Rightarrow>
      runBackup mem_s3 mem_backup p1 (DB p2) [] = (Finished (Ok ()), stale_bucket))"
  by code_simp

lemma stale_restore:
  "case AddPartition (mem_env True True) stale_bucket (NewPartitionManager ''ns'') Map.empty 0 of
     (r, pm, _) \<Rightarrow> r = Ok (Some 1) \<and> pm = stale_pm ''2'' 8 3 1"
  by code_simp

lemma stale_read:
  "pm_ReadRecords mem_badger (stale_pm v t off off) [(0, [\<lparr>Pk = ''pk1'', Sk = ''a''\<rparr>])] [] =
     Ok [\<lparr>r_Pk = ''pk1'', r_Sk = ''a'', r_Data = Some [(''v'', JStr v)], r_CreatedAt = 5, r_UpdatedAt = t\<rparr>]"
  by code_simp


end
