(* ===== verification/Restore.thy ===== *)
theory Restore
  imports Lifecycle
begin

text \<open>
  What a partition holds when it has been opened: what its directory has, or, with
  \<^verbatim>\<open>S3_RESTORE\<close>, the newest of its backups. The claims about single backups are in \<open>Backup\<close> and
  \<open>Lifecycle\<close>; here are the facts that \<open>LogConsumer\<close> and \<open>System\<close> need of \<^verbatim>\<open>newPartition\<close> and of a
  bucket that several nodes write.
\<close>

section \<open>Opening\<close>

text \<open>What the directory of a partition holds: nothing, if there is none.\<close>

definition stored :: "('db \<Rightarrow> bytes \<Rightarrow> wire option) \<Rightarrow> 'db disk \<Rightarrow> int \<Rightarrow> bytes \<Rightarrow> wire option" where
  "stored db_map disk i = (case disk (getPartitionPath i) of None \<Rightarrow> Map.empty | Some d \<Rightarrow> db_map d)"

lemma abs_store_empty: "abs_store Map.empty = (Map.empty, None)"
  by (simp add: abs_store_def abs_records_def abs_offset_def fun_eq_iff)

text \<open>The partition opens, and then it holds the given records with the given offset.\<close>

definition opens :: "('db \<Rightarrow> bytes \<Rightarrow> wire option) \<Rightarrow> ('db, 'txn, 's3, 'bk) node_env \<Rightarrow> 's3 \<Rightarrow> 'db disk \<Rightarrow> string \<Rightarrow> int \<Rightarrow> replica \<Rightarrow> bool" where
  "opens db_map E s disk ns i st \<longleftrightarrow> (\<exists>p d. newPartition E s disk ns i = (Ok p, disk(getPartitionPath i \<mapsto> d)) \<and>
     ID p = i \<and> Namespace p = ns \<and> part_ok db_map p \<and> abs_store (db_map (DB p)) = st)"

text \<open>Only the directory of the partition matters, and only it changes.\<close>

lemma newPartition_disk:
  "newPartition E s disk ns i = (fst (newPartition E s disk ns i),
     case env_open E (disk (getPartitionPath i)) of Inl _ \<Rightarrow> disk | Inr d \<Rightarrow> disk(getPartitionPath i \<mapsto> d))"
  "disk' (getPartitionPath i) = disk (getPartitionPath i) \<Longrightarrow> fst (newPartition E s disk' ns i) = fst (newPartition E s disk ns i)"
  by (simp_all add: newPartition_def createLocalDB_def Let_def split: sum.split)

lemma opens_cong:
  assumes "disk' (getPartitionPath i) = disk (getPartitionPath i)" and "opens db_map E s disk ns i st"
  shows "opens db_map E s disk' ns i st"
proof -
  obtain p d where p: "newPartition E s disk ns i = (Ok p, disk(getPartitionPath i \<mapsto> d))"
    "ID p = i" "Namespace p = ns" "part_ok db_map p" "abs_store (db_map (DB p)) = st"
    using assms(2) by (auto simp: opens_def)
  have "fst (newPartition E s disk' ns i) = Ok p" using newPartition_disk(2) [where disk = disk and disk' = disk' and i = i, OF assms(1), of E s ns] p(1) by simp
  then obtain d' where "newPartition E s disk' ns i = (Ok p, disk'(getPartitionPath i \<mapsto> d'))"
    using newPartition_disk(1) [of E s disk' ns i] assms(1)
    by (cases "env_open E (disk (getPartitionPath i))") (auto simp: newPartition_def createLocalDB_def)
  with p(2-) show ?thesis by (auto simp: opens_def)
qed

text \<open>What is left to do when the directory has been opened.\<close>

definition restored :: "('db, 'txn, 's3, 'bk) node_env \<Rightarrow> 's3 \<Rightarrow> 'db Partition \<Rightarrow> 'db Partition go" where
  "restored E s part = (case checkAndRestoreFromS3 (env_A E) (env_K E) (env_created E) s part of
     (Ok _, part') \<Rightarrow> Ok part'
   | (Err e, part') \<Rightarrow> if e = ErrBackupNotFound \<or> e = ErrRemoteOffsetLower then Ok part' else Err e
   | (Panic, _) \<Rightarrow> Panic)"

context node_disk
begin

lemma open_dir: "\<exists>d. env_open E (disk (getPartitionPath i)) = Inr d \<and> db_map d = stored db_map disk i"
  using open_new open_existing by (cases "disk (getPartitionPath i)") (auto simp: stored_def)

text \<open>Before the bucket is looked at, the partition is the one of its directory.\<close>

lemma newPartition_opened:
  assumes "env_session E = None" and "\<And>d. disk (getPartitionPath i) = Some d \<Longrightarrow> store_ok (db_map d)"
  shows "\<exists>d. db_map d = stored db_map disk i \<and> newPartition E s disk ns i =
    (let part = \<lparr>ID = i, DB = d, LastOffset = abs_offset (stored db_map disk i), Namespace = ns\<rparr>
     in if env_S3RestoreEnabled E then restored E s part else Ok part, disk(getPartitionPath i \<mapsto> d))"
proof -
  obtain d where d: "env_open E (disk (getPartitionPath i)) = Inr d" "db_map d = stored db_map disk i"
    using open_dir by blast
  have "(if disk (getPartitionPath i) \<noteq> None then readLastOffset E d else Ok None) = Ok (abs_offset (stored db_map disk i))"
  proof (cases "disk (getPartitionPath i)")
    case None
    then show ?thesis by (simp add: stored_def abs_offset_def)
  next
    case (Some d')
    then have "store_ok (db_map d)" using assms(2) d(2) by (simp add: stored_def)
    from readLastOffset_eq [OF this] d(2) Some show ?thesis by simp
  qed
  with d assms(1) show ?thesis
    by (intro exI [of _ d]) (simp add: newPartition_def createLocalDB_def Let_def restored_def)
qed

lemma opens_stored:
  assumes "\<not> env_S3RestoreEnabled E" and "env_session E = None"
    and "\<And>d. disk (getPartitionPath i) = Some d \<Longrightarrow> store_ok (db_map d)"
  shows "opens db_map E s disk ns i (abs_store (stored db_map disk i))"
proof -
  have "store_ok (stored db_map disk i)"
    using assms(3) by (simp add: stored_def store_ok_empty split: option.split)
  with newPartition_opened [where disk = disk and i = i, OF assms(2,3), of s ns] assms(1) show ?thesis
    by (auto simp: opens_def part_ok_def)
qed

end

section \<open>Restoring\<close>

text \<open>
  The bucket as it is documented, with every call succeeding but for uploads. Into a database that
  holds something a backup is not loaded in a documented way; \<open>restores_clean\<close> says that this is not
  done: a partition that is on disk is not older than the newest backup.
\<close>

locale backup_node = node_disk E db_map txn_map + bucket: s3_bucket "env_A E" s3_map + backups: badger_backup "env_K E" db_map bk_map
  for E :: "('db, 'txn, 's3, 'bk) node_env" and db_map txn_map s3_map bk_map +
  assumes lists: "\<exists>pages. s3_list (env_A E) s pfx = (pages, None)"
    and downloads: "s3_map s k = Some b \<Longrightarrow> s3_download (env_A E) s k = Inr b"
    and created: "env_created E"
    and loads: "snd (b_load (env_K E) d b) = None"
    and backs_up: "snd (b_backup (env_K E) d) = None"

interpretation mem_backup_node: backup_node "mem_env b r" map_of map_of map_of map_of
proof (intro backup_node.intro backup_node_axioms.intro mem_node.node_disk_axioms)
  show "s3_bucket (env_A (mem_env b r)) map_of" using mem_s3.s3_bucket_axioms by (simp add: mem_env_def)
  show "badger_backup (env_K (mem_env b r)) map_of map_of" using mem_backup.badger_backup_axioms by (simp add: mem_env_def)
qed (simp_all add: mem_env_def mem_s3_def mem_backup_def)

definition restores_clean :: "('db, 'txn, 's3, 'bk) node_env \<Rightarrow> 's3 \<Rightarrow> 'db disk \<Rightarrow> string \<Rightarrow> int \<Rightarrow> bool" where
  "restores_clean E s disk ns i \<longleftrightarrow> (\<forall>d p off key. disk (getPartitionPath i) = Some d \<longrightarrow> ID p = i \<longrightarrow> Namespace p = ns \<longrightarrow>
     getLatestBackupOffset (env_A E) s (p :: 'db Partition) = Ok (off, key) \<longrightarrow>
     (\<exists>l. readLastOffset E d = Ok (Some l) \<and> off \<le> l))"

text \<open>
  The objects a search for the backups of a partition sees are backups of replicas of which \<open>R\<close>
  holds, at the offsets in their names.
\<close>

definition backups_ok :: "('bk \<Rightarrow> bytes \<Rightarrow> wire option) \<Rightarrow> (string \<Rightarrow> 'bk option) \<Rightarrow> string \<Rightarrow> int \<Rightarrow> (replica \<Rightarrow> bool) \<Rightarrow> bool" where
  "backups_ok bk_map objects ns i R \<longleftrightarrow> (\<forall>k b. objects k = Some b \<longrightarrow> prefix (backup_prefix ns i) k \<longrightarrow>
     (\<exists>off. k = backup_key ns i off \<and> 0 \<le> off \<and> int64_range off \<and> store_ok (bk_map b) \<and>
        abs_offset (bk_map b) = Some off \<and> R (abs_store (bk_map b))))"

lemma backups_okD:
  assumes "backups_ok bk_map objects ns i R" and "objects (backup_key ns i off) = Some b" and "0 \<le> off"
  shows "store_ok (bk_map b) \<and> abs_offset (bk_map b) = Some off \<and> R (abs_store (bk_map b))"
proof -
  have "prefix (backup_prefix ns i) (backup_key ns i off)" by (simp add: backup_prefix_def backup_key_def)
  with assms(1,2) obtain off' where "backup_key ns i off = backup_key ns i off'" "0 \<le> off'" "store_ok (bk_map b)"
    "abs_offset (bk_map b) = Some off'" "R (abs_store (bk_map b))" unfolding backups_ok_def by blast
  with backup_key_inject [OF assms(3)] show ?thesis by blast
qed

lemma backup_key_partition: "0 \<le> i \<Longrightarrow> prefix (backup_prefix ns i) (backup_key ns j off) \<Longrightarrow> i = j"
proof -
  assume i: "0 \<le> i" and "prefix (backup_prefix ns i) (backup_key ns j off)"
  then obtain r where eq: "nat_str (nat i) @ CHR ''-'' # r = int_str j @ CHR ''-'' # int_str off @ ''.bdb''"
    by (auto simp: prefix_def backup_prefix_def backup_key_def int_str_nonneg)
  have "0 \<le> j"
  proof (rule ccontr)
    assume "\<not> 0 \<le> j"
    with eq have "hd (nat_str (nat i)) = CHR ''-''" by (cases "nat_str (nat i)") (auto simp: int_str_def)
    then show False using hd_in_set [of "nat_str (nat i)"] by simp
  qed
  with eq i show "i = j" by (auto simp: eq_at_first int_str_nonneg dest: nat_str_inj)
qed

context backup_node
begin

text \<open>A backup that is taken while no mutation is applied.\<close>

lemma runBackup_backups:
  assumes ok: "backups_ok bk_map (s3_map s) ns i R" and i: "0 \<le> i" and p: "part_ok db_map p" "Namespace p = ns"
    and st: "ID p = i \<Longrightarrow> R (abs_store (db_map (DB p)))" and off: "\<And>off. LastOffset p = Some off \<Longrightarrow> 0 \<le> off \<and> int64_range off"
    and run: "runBackup (env_A E) (env_K E) p (DB p) s = (r, s')"
  shows "backups_ok bk_map (s3_map s') ns i R"
proof (cases "s' = s")
  case False
  let ?key = "\<lambda>off. backup_key ns (ID p) off"
  obtain b where b: "b_backup (env_K E) (DB p) = (b, None)" by (metis backs_up prod.collapse)
  with run False p(2) obtain l where l: "LastOffset p = Some l" "s3_upload (env_A E) s (?key l) b = Uploaded s'"
    by (auto simp: runBackup_def Let_def split: option.splits upload.splits)
  have s': "s3_map s' = (s3_map s)(?key l \<mapsto> b)" by (rule bucket.upload_map [OF l(2)])
  have bk: "bk_map b = db_map (DB p)" by (rule backups.backup_map [OF b])
  show ?thesis unfolding backups_ok_def
  proof (intro allI impI)
    fix k b' assume k: "s3_map s' k = Some b'" "prefix (backup_prefix ns i) k"
    show "\<exists>off. k = backup_key ns i off \<and> 0 \<le> off \<and> int64_range off \<and> store_ok (bk_map b') \<and>
        abs_offset (bk_map b') = Some off \<and> R (abs_store (bk_map b'))"
    proof (cases "k = ?key l")
      case True
      with k(2) have id: "ID p = i" using backup_key_partition [OF i] by blast
      then have "R (abs_store (db_map (DB p)))" by (rule st)
      with True k(1) s' bk p(1) l(1) off [OF l(1)] id show ?thesis by (auto simp: part_ok_def)
    next
      case False
      with k s' ok show ?thesis by (auto simp: backups_ok_def)
    qed
  qed
qed (use ok in simp)

lemma latest_backup:
  assumes "backups_ok bk_map (s3_map s) (Namespace p) (ID p) R" and "0 \<le> ID p"
  shows "getLatestBackupOffset (env_A E) s p = Err ErrBackupNotFound \<or>
    (\<exists>off b. getLatestBackupOffset (env_A E) s p = Ok (off, backup_key (Namespace p) (ID p) off) \<and> 0 < off \<and>
      s3_map s (backup_key (Namespace p) (ID p) off) = Some b)"
proof -
  let ?key = "backup_key (Namespace p) (ID p)"
  let ?seen = "{k \<in> dom (s3_map s). prefix (backup_prefix (Namespace p) (ID p)) k}"
  let ?offs = "{off. 0 \<le> off \<and> int64_range off \<and> ?key off \<in> dom (s3_map s)}"
  obtain pages where pages: "s3_list (env_A E) s (backup_prefix (Namespace p) (ID p)) = (pages, None)" using lists by blast
  have eq: "?seen = ?key ` ?offs"
    using assms(1) by (fastforce simp: backups_ok_def backup_prefix_def backup_key_def)
  have "finite (?key ` ?offs)" using bucket.list_keys [OF pages] eq by (metis List.finite_set)
  moreover have "inj_on ?key ?offs" by (auto intro!: inj_onI backup_key_inject)
  ultimately have fin: "finite ?offs" by (rule finite_imageD)
  note search = bucket.latest [OF pages assms(2) eq]
  show ?thesis
  proof (cases "\<exists>off \<in> ?offs. 0 < off")
    case True
    then obtain o1 where "o1 \<in> ?offs" "0 < o1" by blast
    then have "Max ?offs \<in> ?offs" "0 < Max ?offs" using fin Max_in [of ?offs] Max_ge [of ?offs o1] by (blast, linarith)
    then show ?thesis using search True by (intro disjI2 exI [of _ "Max ?offs"]) auto
  next
    case False
    with search show ?thesis by auto
  qed
qed

lemma newPartition_restoring:
  assumes "env_S3RestoreEnabled E" and "env_session E = None" and "\<And>d. disk (getPartitionPath i) = Some d \<Longrightarrow> store_ok (db_map d)"
  shows "\<exists>d. db_map d = stored db_map disk i \<and> newPartition E s disk ns i = (restored E s
    \<lparr>ID = i, DB = d, LastOffset = abs_offset (stored db_map disk i), Namespace = ns\<rparr>, disk(getPartitionPath i \<mapsto> d))"
  using newPartition_opened [where disk = disk and i = i and s = s and ns = ns, OF assms(2,3)] assms(1) by (auto simp: Let_def)

lemma opens_backup:
  assumes env: "env_S3RestoreEnabled E" "env_session E = None" and none: "disk (getPartitionPath i) = None"
    and newest: "\<And>p. ID p = i \<Longrightarrow> Namespace p = ns \<Longrightarrow> getLatestBackupOffset (env_A E) s (p :: 'db Partition) = Ok (off, key)"
    and b: "s3_map s key = Some b" "store_ok (bk_map b)" "abs_offset (bk_map b) = Some off"
  shows "opens db_map E s disk ns i (abs_store (bk_map b))"
proof -
  from newPartition_restoring [where disk = disk and i = i and s = s and ns = ns, OF env] none obtain d where
    d: "db_map d = stored db_map disk i" "newPartition E s disk ns i = (restored E s
        \<lparr>ID = i, DB = d, LastOffset = abs_offset (stored db_map disk i), Namespace = ns\<rparr>, disk(getPartitionPath i \<mapsto> d))" by auto
  have empty: "stored db_map disk i = Map.empty" using none by (simp add: stored_def)
  with d(1) have "db_map d = Map.empty" by simp
  moreover obtain d' where d': "b_load (env_K E) d b = (d', None)" by (metis loads prod.collapse)
  ultimately have "db_map d' = bk_map b" by (rule backups.load_empty)
  with d(2) empty newest downloads [OF b(1)] created d' b(2,3) show ?thesis
    by (auto simp: restored_def checkAndRestoreFromS3_def opens_def part_ok_def abs_offset_def)
qed

lemma opens_restored:
  assumes env: "env_S3RestoreEnabled E" "env_session E = None" and i: "0 \<le> i"
    and ok: "backups_ok bk_map (s3_map s) ns i R" and clean: "restores_clean E s disk ns i"
    and new: "R (Map.empty, None)"
    and dir: "\<And>d. disk (getPartitionPath i) = Some d \<Longrightarrow> store_ok (db_map d) \<and> R (abs_store (db_map d))"
  shows "\<exists>st. opens db_map E s disk ns i st \<and> R st"
proof -
  let ?st = "abs_store (stored db_map disk i)"
  have st: "store_ok (stored db_map disk i)" "R ?st"
    using dir new by (auto simp: stored_def store_ok_empty abs_store_empty split: option.split)
  from newPartition_restoring [where disk = disk and i = i and s = s and ns = ns, OF env] dir obtain d where
    d: "db_map d = stored db_map disk i" "newPartition E s disk ns i = (restored E s
        \<lparr>ID = i, DB = d, LastOffset = abs_offset (stored db_map disk i), Namespace = ns\<rparr>, disk(getPartitionPath i \<mapsto> d))" by auto
  let ?p = "\<lparr>ID = i, DB = d, LastOffset = abs_offset (stored db_map disk i), Namespace = ns\<rparr>"
  have local: "opens db_map E s disk ns i ?st" if "newPartition E s disk ns i = (Ok ?p, disk(getPartitionPath i \<mapsto> d))"
    using that st(1) d(1) by (auto simp: opens_def part_ok_def)
  from latest_backup [of s ?p R] ok i consider "getLatestBackupOffset (env_A E) s ?p = Err ErrBackupNotFound"
    | off b where "getLatestBackupOffset (env_A E) s ?p = Ok (off, backup_key ns i off)" "0 < off" "s3_map s (backup_key ns i off) = Some b"
    by auto
  then show ?thesis
  proof cases
    case 1
    with d(2) have "opens db_map E s disk ns i ?st" by (intro local) (simp add: restored_def checkAndRestoreFromS3_def)
    with st(2) show ?thesis by blast
  next
    case 2
    show ?thesis
    proof (cases "\<exists>l. abs_offset (stored db_map disk i) = Some l \<and> off \<le> l")
      case True
      with 2 d(2) have "opens db_map E s disk ns i ?st" by (intro local) (auto simp: restored_def checkAndRestoreFromS3_def)
      with st(2) show ?thesis by blast
    next
      case False
      have "disk (getPartitionPath i) = None"
      proof (rule ccontr)
        assume "disk (getPartitionPath i) \<noteq> None"
        then obtain d0 where d0: "disk (getPartitionPath i) = Some d0" by blast
        from clean [unfolded restores_clean_def, rule_format, OF d0 _ _ 2(1)] obtain l where
          "readLastOffset E d0 = Ok (Some l)" "off \<le> l" by auto
        with False d0 dir [OF d0] readLastOffset_eq [of d0] show False by (auto simp: stored_def)
      qed
      moreover have "getLatestBackupOffset (env_A E) s p = Ok (off, backup_key ns i off)" if "ID p = i" "Namespace p = ns" for p :: "'db Partition"
        using 2(1) that by (simp add: getLatestBackupOffset_def)
      ultimately have "opens db_map E s disk ns i (abs_store (bk_map b))"
        using backups_okD [OF ok 2(3)] 2(2,3) by (intro opens_backup [OF env]) auto
      moreover have "R (abs_store (bk_map b))" using backups_okD [OF ok 2(3)] 2(2) by simp
      ultimately show ?thesis by blast
    qed
  qed
qed

end

end
