(* ===== verification/Murmur.thy ===== *)
theory Murmur
  imports Prelude
begin

text \<open>
  \<^verbatim>\<open>utils/utils.go\<close>: the partition hash (\<^verbatim>\<open>Murmur2\<close>, \<^verbatim>\<open>GetPartition\<close>), and the small helpers
  of that file (\<^verbatim>\<open>EnvOrDefault\<close>, \<^verbatim>\<open>MustEnv*\<close>, \<^verbatim>\<open>Min\<close>, \<^verbatim>\<open>Deref\<close>).
\<close>

unbundle bit_operations_syntax

section \<open>Murmur2\<close>

type_synonym uint32 = "32 word"

definition murmur_seed :: uint32 where "murmur_seed = 0x9747b28c"
definition murmur_m :: uint32 where "murmur_m = 0x5bd1e995"

text \<open>\<^verbatim>\<open>k *= m; k ^= k >> r; k *= m\<close>\<close>

definition murmur_k :: "uint32 \<Rightarrow> uint32" where
  "murmur_k k = (let k = k * murmur_m; k = k XOR drop_bit 24 k in k * murmur_m)"

text \<open>\<^verbatim>\<open>uint32(b[3])<<24 + uint32(b[2])<<16 + uint32(b[1])<<8 + uint32(b[0])\<close>\<close>

definition murmur_word :: "char \<Rightarrow> char \<Rightarrow> char \<Rightarrow> char \<Rightarrow> uint32" where
  "murmur_word b0 b1 b2 b3 =
     push_bit 24 (of_char b3) + push_bit 16 (of_char b2) + push_bit 8 (of_char b1) + of_char b0"

text \<open>The loop \<^verbatim>\<open>for len(b) >= 4\<close>: the hash so far, and the bytes that are left.\<close>

fun murmur_loop :: "uint32 \<Rightarrow> bytes \<Rightarrow> uint32 \<times> bytes" where
  "murmur_loop h (b0 # b1 # b2 # b3 # b) =
     murmur_loop (h * murmur_m XOR murmur_k (murmur_word b0 b1 b2 b3)) b"
| "murmur_loop h b = (h, b)"

text \<open>The \<^verbatim>\<open>switch\<close> on the remaining length, with its \<^verbatim>\<open>fallthrough\<close>s.\<close>

fun murmur_tail :: "uint32 \<Rightarrow> bytes \<Rightarrow> uint32" where
  "murmur_tail h [b0, b1, b2] =
     (let h = h XOR push_bit 16 (of_char b2); h = h XOR push_bit 8 (of_char b1);
          h = h XOR of_char b0 in h * murmur_m)"
| "murmur_tail h [b0, b1] =
     (let h = h XOR push_bit 8 (of_char b1); h = h XOR of_char b0 in h * murmur_m)"
| "murmur_tail h [b0] = (let h = h XOR of_char b0 in h * murmur_m)"
| "murmur_tail h b = h"

text \<open>\<^verbatim>\<open>h ^= h >> 13; h *= m; h ^= h >> 15\<close>\<close>

definition murmur_final :: "uint32 \<Rightarrow> uint32" where
  "murmur_final h =
     (let h = h XOR drop_bit 13 h; h = h * murmur_m in h XOR drop_bit 15 h)"

definition Murmur2 :: "bytes \<Rightarrow> uint32" where
  "Murmur2 b =
     (case murmur_loop (murmur_seed XOR of_nat (length b)) b of
        (h, rest) \<Rightarrow> murmur_final (murmur_tail h rest))"

text \<open>
  \<^verbatim>\<open>GetPartition\<close>: \<^verbatim>\<open>int32(Murmur2(k) % uint32(Env_NumPartitions))\<close>. The configured count is
  an \<^verbatim>\<open>int64\<close>; the conversion keeps its low 32 bits, a zero divisor panics, and the
  conversion to \<^verbatim>\<open>int32\<close> reads the word as two's complement.
\<close>

definition GetPartition :: "int \<Rightarrow> bytes \<Rightarrow> int go" where
  "GetPartition numPartitions k =
     (let n = word_of_int numPartitions :: uint32
      in if n = 0 then Panic else Ok (sint (Murmur2 k mod n)))"

section \<open>The helpers of the file\<close>

text \<open>The environment is a map from names to values; an unset variable reads as \<open>''''\<close>.\<close>

type_synonym environ = "string \<Rightarrow> string option"

definition Getenv :: "environ \<Rightarrow> string \<Rightarrow> string" where
  "Getenv env k = (case env k of None \<Rightarrow> [] | Some v \<Rightarrow> v)"

definition EnvOrDefault :: "environ \<Rightarrow> string \<Rightarrow> string \<Rightarrow> string" where
  "EnvOrDefault env k d = (let res = Getenv env k in if res \<noteq> [] then res else d)"

text \<open>\<^verbatim>\<open>log.Fatalf\<close> ends the process: \<open>None\<close>.\<close>

definition MustEnvOrDefaultInt64 :: "environ \<Rightarrow> string \<Rightarrow> int \<Rightarrow> int option" where
  "MustEnvOrDefaultInt64 env k d =
     (let res = Getenv env k in if res = [] then Some d else ParseInt res)"

definition MustEnvInt64 :: "environ \<Rightarrow> string \<Rightarrow> int option" where
  "MustEnvInt64 env k = (let res = Getenv env k in if res = [] then None else ParseInt res)"

definition MustEnv :: "environ \<Rightarrow> string \<Rightarrow> string option" where
  "MustEnv env k = (let res = Getenv env k in if res = [] then None else Some res)"

definition Min' :: "'a::linorder \<Rightarrow> 'a \<Rightarrow> 'a" where
  "Min' a b = (if a > b then b else a)"

definition Deref :: "'a option \<Rightarrow> 'a \<Rightarrow> 'a" where
  "Deref ref fallback = (case ref of None \<Rightarrow> fallback | Some x \<Rightarrow> x)"

section \<open>Every step of the hash is injective\<close>

lemma murmur_m_inv: "murmur_m * 0xe59b19bd = 1"
  by (simp add: murmur_m_def)

lemma mult_m_inj: 
  assumes "h * murmur_m = h' * murmur_m" shows "h = h'"
proof -
  from assms have "h * (murmur_m * 0xe59b19bd) = h' * (murmur_m * 0xe59b19bd)"
    by (simp only: mult.assoc [symmetric])
  then show ?thesis by (simp add: murmur_m_inv)
qed

lemma xor_cancel_right: "(a :: 'a::len word) XOR b = c XOR b \<longleftrightarrow> a = c"
  by (auto simp: bit_eq_iff bit_simps)

lemma xorshift_inj:
  fixes h h' :: uint32
  assumes eq: "h XOR drop_bit n h = h' XOR drop_bit n h'" and n: "0 < n"
  shows "h = h'"
proof -
  let ?d = "h XOR h'"
  have d: "?d = drop_bit n ?d"
    using eq by (auto simp: bit_eq_iff bit_simps)
  have "unat ?d = unat (drop_bit n ?d)" by (rule arg_cong [OF d])
  then have "unat ?d = drop_bit n (unat ?d)" by (simp only: unat_drop_bit_eq)
  then have "unat ?d = unat ?d div 2 ^ n" by (simp only: drop_bit_eq_div)
  moreover have "1 < (2::nat) ^ n" by (rule one_less_power) (use n in auto)
  ultimately have "unat ?d = 0"
    by (metis div_less_dividend gr0I less_irrefl)
  then have "?d = 0" by (simp add: unat_eq_zero)
  then show ?thesis by (simp add: bit_eq_iff bit_simps)
qed

lemma murmur_final_inj: "murmur_final h = murmur_final h' \<Longrightarrow> h = h'"
  unfolding murmur_final_def Let_def
  by (drule xorshift_inj, simp, drule mult_m_inj, erule xorshift_inj, simp)

lemma murmur_k_inj: "murmur_k k = murmur_k k' \<Longrightarrow> k = k'"
  unfolding murmur_k_def Let_def
  by (drule mult_m_inj, drule xorshift_inj, simp, erule mult_m_inj)

lemma murmur_tail_inj: "murmur_tail h b = murmur_tail h' b \<Longrightarrow> h = h'"
  by (cases "(h, b)" rule: murmur_tail.cases)
    (auto simp: Let_def xor_cancel_right dest!: mult_m_inj)

lemma murmur_loop_rest: "snd (murmur_loop h b) = snd (murmur_loop h' b)"
  by (induction h b arbitrary: h' rule: murmur_loop.induct) auto

lemma murmur_loop_inj: "fst (murmur_loop h b) = fst (murmur_loop h' b) \<Longrightarrow> h = h'"
proof (induction h b arbitrary: h' rule: murmur_loop.induct)
  case (1 h b0 b1 b2 b3 b)
  then have "h * murmur_m = h' * murmur_m"
    by (fastforce simp: xor_cancel_right)
  then show ?case by (rule mult_m_inj)
qed auto

lemma murmur_loop_append:
  "4 dvd length pre \<Longrightarrow> murmur_loop h (pre @ b) = murmur_loop (fst (murmur_loop h pre)) b"
proof (induction h pre rule: murmur_loop.induct)
  case (1 h b0 b1 b2 b3 pre)
  then have "4 dvd length pre" by (simp add: dvd_def) presburger
  with 1 show ?case by simp
qed (auto dest!: dvd_imp_le)

lemma base256: "256 * x + a = 256 * y + b \<Longrightarrow> a < 256 \<Longrightarrow> b < 256 \<Longrightarrow> x = y \<and> a = b"
  for a b x y :: nat
  by (metis add_left_cancel mod_less mod_mult_self4 mult.commute mult_cancel1 add.commute
      add_right_cancel zero_neq_numeral)

lemma murmur_word_inj:
  assumes "murmur_word b0 b1 b2 b3 = murmur_word c0 c1 c2 c3"
  shows "b0 = c0 \<and> b1 = c1 \<and> b2 = c2 \<and> b3 = c3"
proof -
  have lt: "(of_char b :: nat) < 256" for b :: char
    by (metis nat_of_char_less_256)
  have u: "unat (murmur_word b0 b1 b2 b3) =
    of_char b3 * 16777216 + of_char b2 * 65536 + of_char b1 * 256 + of_char b0" for b0 b1 b2 b3
  proof -
    have "murmur_word b0 b1 b2 b3 = of_nat (of_char b3 * 16777216 + of_char b2 * 65536 + of_char b1 * 256 + of_char b0)"
      by (simp add: murmur_word_def push_bit_eq_mult of_nat_of_char)
    moreover have "of_char b3 * 16777216 + of_char b2 * 65536 + of_char b1 * 256 + of_char b0
        < (4294967296 :: nat)"
      using lt [of b0] lt [of b1] lt [of b2] lt [of b3] by linarith
    ultimately show ?thesis
      by (simp add: unat_of_nat del: of_nat_add of_nat_mult)
  qed
  have "256 * (256 * (256 * of_char b3 + of_char b2) + of_char b1) + of_char b0
      = 256 * (256 * (256 * of_char c3 + of_char c2) + of_char c1) + (of_char c0 :: nat)"
    using arg_cong [OF assms, of unat] unfolding u by simp
  note e0 = base256 [OF this lt lt]
  note e1 = base256 [OF conjunct1 [OF e0] lt lt]
  note e2 = base256 [OF conjunct1 [OF e1] lt lt]
  show ?thesis using e0 e1 e2 by (simp add: of_char_eq_iff)
qed

lemma Murmur2_eq:
  "Murmur2 b = murmur_final (murmur_tail (fst (murmur_loop (murmur_seed XOR of_nat (length b)) b))
     (snd (murmur_loop (murmur_seed XOR of_nat (length b)) b)))"
  by (simp add: Murmur2_def split: prod.split)

lemma Murmur2_block_inj:
  assumes "4 dvd length pre" and "length b = 4" and "length c = 4"
    and "Murmur2 (pre @ b @ post) = Murmur2 (pre @ c @ post)"
  shows "b = c"
proof -
  obtain b0 b1 b2 b3 where b: "b = [b0, b1, b2, b3]"
    using assms(2) by (auto simp: length_Suc_conv numeral_eq_Suc)
  obtain c0 c1 c2 c3 where c: "c = [c0, c1, c2, c3]"
    using assms(3) by (auto simp: length_Suc_conv numeral_eq_Suc)
  define s where "s = murmur_seed XOR of_nat (length (pre @ b @ post))"
  let ?h = "fst (murmur_loop s pre)"
  let ?hb = "?h * murmur_m XOR murmur_k (murmur_word b0 b1 b2 b3)"
  let ?hc = "?h * murmur_m XOR murmur_k (murmur_word c0 c1 c2 c3)"
  have step: "murmur_loop s (pre @ x0 # x1 # x2 # x3 # post) =
      murmur_loop (?h * murmur_m XOR murmur_k (murmur_word x0 x1 x2 x3)) post" for x0 x1 x2 x3
    using assms(1) by (simp add: murmur_loop_append)
  have s': "s = murmur_seed XOR of_nat (length (pre @ c @ post))"
    using assms(2,3) by (simp add: s_def)
  have "murmur_tail (fst (murmur_loop ?hb post)) (snd (murmur_loop ?hb post))
      = murmur_tail (fst (murmur_loop ?hc post)) (snd (murmur_loop ?hc post))"
    using assms(4) unfolding Murmur2_eq [of "pre @ b @ post", folded s_def]
      Murmur2_eq [of "pre @ c @ post", folded s']
    unfolding b c append_Cons append_Nil step
    by (rule murmur_final_inj)
  then have "fst (murmur_loop ?hb post) = fst (murmur_loop ?hc post)"
    by (metis murmur_loop_rest murmur_tail_inj)
  then have "?hb = ?hc" by (rule murmur_loop_inj)
  then have "murmur_word b0 b1 b2 b3 = murmur_word c0 c1 c2 c3"
    by (metis murmur_k_inj xor.commute xor_cancel_right)
  then show ?thesis using murmur_word_inj b c by blast
qed

lemma GetPartition_pos:
  assumes "0 < n" and "n \<le> 2 ^ 31"
  shows "GetPartition n k = Ok (uint (Murmur2 k) mod n)"
proof -
  have w: "uint (word_of_int n :: uint32) = n"
    using assms by (simp add: uint_word_of_int)
  then have nz: "(word_of_int n :: uint32) \<noteq> 0" using assms(1) by (metis less_irrefl unsigned_0)
  have u: "uint (Murmur2 k mod word_of_int n) = uint (Murmur2 k) mod n"
    by (simp only: uint_mod w)
  have lt: "uint (Murmur2 k) mod n < 2 ^ 31" 
    using assms by (metis pos_mod_bound order_less_le_trans)
  have "sint (Murmur2 k mod word_of_int n) = uint (Murmur2 k) mod n"
    using lt u assms(1)
    by (simp add: sint_uint signed_take_bit_int_eq_self order_trans [OF _ pos_mod_sign])
  with nz show ?thesis by (simp add: GetPartition_def Let_def)
qed

lemma uint_mask31:
  fixes h :: uint32
  shows "uint (h AND 0x7fffffff) = uint h mod 2 ^ 31"
proof -
  have "h AND 0x7fffffff = take_bit 31 h"
    by (simp add: take_bit_eq_mask mask_eq_exp_minus_1)
  then have "uint (h AND 0x7fffffff) = take_bit 31 (uint h)"
    by (simp only: unsigned_take_bit_eq)
  then show ?thesis by (simp only: take_bit_eq_mod)
qed

section \<open>Properties\<close>

text \<open>
  Two keys of equal length that differ in exactly one aligned 4-byte block never
  collide under \<^verbatim>\<open>Murmur2\<close>: every step of the loop, of the tail and of the
  finalisation is a bijection of the 32-bit state.
\<close>

theorem Murmur2_block_injective:
  assumes "4 dvd length pre" and "length b = 4" and "length c = 4" and "b \<noteq> c"
  shows "Murmur2 (pre @ b @ post) \<noteq> Murmur2 (pre @ c @ post)"
  using assms Murmur2_block_inj by blast

theorem Murmur2_block_injective_witness:
  "Murmur2 ''tenant01'' \<noteq> Murmur2 ''tenant02''"
proof -
  have "4 dvd length ''tena''" by (rule dvdI [of _ _ 1]) simp
  then show ?thesis
    using Murmur2_block_injective [of "''tena''" "''nt01''" "''nt02''" "[]"] by simp
qed

text \<open>
  \<^verbatim>\<open>Murmur2\<close> computes Kafka's published reference vectors, with keys that exercise
  every length of the tail.
\<close>

theorem Murmur2_reference_vectors:
  "sint (Murmur2 ''21'') = - 973932308 \<and> sint (Murmur2 ''foobar'') = - 790332482
   \<and> sint (Murmur2 ''a-little-bit-long-string'') = - 985981536
   \<and> sint (Murmur2 ''a-little-bit-longer-string'') = - 1486304829
   \<and> sint (Murmur2 ''lkjh234lh9fiuh90y23oiuhsafujhadof229phr9h19h89h8'') = - 58897971
   \<and> sint (Murmur2 ''abc'') = 479470107"
  by code_simp

text \<open>
  With a partition count between 1 and \<open>2 ^ 31\<close>, \<^verbatim>\<open>GetPartition\<close> neither panics nor
  goes negative: it returns one of the partitions \<open>0 .. n - 1\<close>.
\<close>

theorem GetPartition_in_range:
  assumes "0 < n" and "n \<le> 2 ^ 31"
  shows "\<exists>p. GetPartition n k = Ok p \<and> 0 \<le> p \<and> p < n"
  using assms by (simp add: GetPartition_pos)

theorem GetPartition_in_range_witness:
  "\<exists>p. GetPartition 256 ''pk1'' = Ok p \<and> 0 \<le> p \<and> p < 256"
  by (rule GetPartition_in_range) simp_all

text \<open>
  C27. The partition the reader computes is the one the producer wrote to exactly when the
  hash has its top bit clear or the partition count divides \<open>2 ^ 31\<close>. The producer is the
  Kafka client's default keyed partitioner, which masks the sign bit of the hash before it
  takes the remainder (hypothesis \<open>doc\<close>); \<^verbatim>\<open>GetPartition\<close> does not mask.
\<close>

theorem GetPartition_kafka_iff:
  assumes n: "0 < n" "n \<le> 2 ^ 31"
    and doc: "\<And>key. producer key n = uint (Murmur2 key AND 0x7fffffff) mod n"
  shows "GetPartition n k = Ok (producer k n) \<longleftrightarrow> uint (Murmur2 k) < 2 ^ 31 \<or> n dvd 2 ^ 31"
proof -
  let ?h = "uint (Murmur2 k)"
  have h: "0 \<le> ?h" "?h < 2 ^ 32" using uint_lt2p [of "Murmur2 k"] by auto
  have "GetPartition n k = Ok (producer k n) \<longleftrightarrow> ?h mod n = (?h mod 2 ^ 31) mod n"
    using n by (simp add: GetPartition_pos doc uint_mask31)
  also have "\<dots> \<longleftrightarrow> ?h < 2 ^ 31 \<or> n dvd 2 ^ 31"
  proof (cases "?h < 2 ^ 31")
    case True
    then show ?thesis using h by simp
  next
    case False
    then have "(?h - 2 ^ 31) mod 2 ^ 31 = ?h - 2 ^ 31"
      using h by (intro mod_pos_pos_trivial) auto
    then have "?h mod 2 ^ 31 = ?h - 2 ^ 31" by (simp only: minus_mod_self2)
    then have "?h mod n = (?h mod 2 ^ 31) mod n \<longleftrightarrow> n dvd (?h - (?h - 2 ^ 31))"
      by (metis mod_eq_dvd_iff)
    with False show ?thesis by simp
  qed
  finally show ?thesis .
qed

theorem GetPartition_kafka_iff_witness:
  "GetPartition 3 ''21'' \<noteq> Ok (uint (Murmur2 ''21'' AND 0x7fffffff) mod 3)"
proof -
  have "\<not> uint (Murmur2 ''21'') < 2 ^ 31" by code_simp
  moreover have "\<not> (3 :: int) dvd 2 ^ 31" by simp
  ultimately show ?thesis
    using GetPartition_kafka_iff [of 3 "\<lambda>key n. uint (Murmur2 key AND 0x7fffffff) mod n" "''21''"]
    by simp
qed

end
