(* ===== verification/LogConsumer.thy ===== *)
theory LogConsumer
  imports Replay Restore Murmur
begin

text \<open>
  \<^verbatim>\<open>log_consumer/log_consumer.go\<close> apart from the polling of mutations (theory \<open>Replay\<close>): the
  start of a consumer and its check of the number of partitions, and the loop that follows
  the assignment of partitions (\<^verbatim>\<open>topicInfoLoop\<close>). What the Kafka clients return is the input
  of the definitions; what is asked of the consuming client is their output.
\<close>

section \<open>State\<close>

record LogConsumer =
  ConsumerGroup :: string
  lc_Namespace :: string
  MutationTopic :: string
  NumPartitions :: int
  Ready :: bool
  shuttingDown :: bool

definition formatMutationTopic :: "string \<Rightarrow> string" where
  "formatMutationTopic namespace = ''firescroll_'' @ namespace @ ''_mutations''"

definition formatPartitionTopic :: "string \<Rightarrow> string" where
  "formatPartitionTopic namespace = ''firescroll_'' @ namespace @ ''_partitions''"

text \<open>The message of the partition topic: \<^verbatim>\<open>PartitionMessage\<close>.\<close>

definition marshal_PartitionMessage :: "int \<Rightarrow> wire" where
  "marshal_PartitionMessage n = Doc (JObj [(''NumPartitions'', JInt n)])"

definition PartitionMessage_field :: "string \<Rightarrow> json \<Rightarrow> int \<Rightarrow> int go" where
  "PartitionMessage_field k v n = (if same_key k ''NumPartitions'' then dec_int64 v n else Ok n)"

definition unmarshal_PartitionMessage :: "wire \<Rightarrow> int go" where
  "unmarshal_PartitionMessage w = dec_struct PartitionMessage_field w 0"

section \<open>Starting\<close>

text \<open>What \<^verbatim>\<open>PollFetches\<close> returns to \<^verbatim>\<open>simplePollRecords\<close>.\<close>

record poll =
  pl_closed :: bool
  pl_errors :: "go_error list"
  pl_records :: "wire list"

definition simplePollRecords :: "poll \<Rightarrow> wire list go" where
  "simplePollRecords r =
     (if pl_closed r then Err ErrClientClosed
      else if length (pl_errors r) > 0 then Err (pl_errors r ! 0)
      else Ok (pl_records r))"

text \<open>
  The options of the two Kafka clients. \<open>DialTLSConfig None\<close> is the default configuration,
  \<open>DialTLSConfig (Some path)\<close> what \<^verbatim>\<open>tlscfg.New\<close> makes of the path of a CA certificate, which may
  be empty. \<open>kl_tls\<close> and \<open>kl_client\<close> are the errors of \<^verbatim>\<open>tlscfg.New\<close> and \<^verbatim>\<open>kgo.NewClient\<close>.
\<close>

datatype kgo_opt =
    SeedBrokers "string list"
  | ClientID string
  | InstanceID string
  | Group string
  | ConsumeTopics string
  | StickyKeyPartitioner
  | SessionTimeout int
  | ConsumeResetOffsetAtStart
  | SASL string string
  | DialTLSConfig "string option"

record kafka_lib =
  kl_tls :: "string \<Rightarrow> go_error option"
  kl_client :: "kgo_opt list \<Rightarrow> go_error option"

record kafka_env =
  ke_InstanceID :: string
  ke_Username :: string
  ke_Password :: string
  ke_TLS :: bool
  ke_TLSCAPath :: string

definition sasl_opts :: "kafka_env \<Rightarrow> kgo_opt list" where
  "sasl_opts e = (if ke_Username e \<noteq> [] \<and> ke_Password e \<noteq> [] then [SASL (ke_Username e) (ke_Password e)] else [])"

definition mutation_opts :: "kafka_lib \<Rightarrow> kafka_env \<Rightarrow> string \<Rightarrow> string \<Rightarrow> string list \<Rightarrow> int \<Rightarrow> kgo_opt list go" where
  "mutation_opts K e topic consumerGroup seeds sessionMS =
     (let opts = [SeedBrokers seeds, ClientID ''firescroll'', InstanceID (ke_InstanceID e), Group consumerGroup,
            ConsumeTopics topic, StickyKeyPartitioner, SessionTimeout (wrap64 (1000000 * sessionMS))] @ sasl_opts e
      in if ke_TLS e then
           if ke_TLSCAPath e \<noteq> [] then
             (case kl_tls K (ke_TLSCAPath e) of
                Some err \<Rightarrow> Err err
              | None \<Rightarrow> Ok (opts @ [DialTLSConfig (Some (ke_TLSCAPath e))]))
           else Ok (opts @ [DialTLSConfig None])
         else Ok opts)"

definition partition_opts :: "kafka_lib \<Rightarrow> kafka_env \<Rightarrow> string \<Rightarrow> string list \<Rightarrow> kgo_opt list go" where
  "partition_opts K e topic seeds =
     (let opts = [SeedBrokers seeds, ConsumeTopics topic, ConsumeResetOffsetAtStart] @ sasl_opts e
      in if ke_TLS e then
           (case kl_tls K (ke_TLSCAPath e) of
              Some err \<Rightarrow> Err err
            | None \<Rightarrow> Ok (opts @ [DialTLSConfig (Some (ke_TLSCAPath e))]))
         else Ok opts)"

definition NewClient :: "kafka_lib \<Rightarrow> kgo_opt list \<Rightarrow> unit go" where
  "NewClient K opts = (case kl_client K opts of Some err \<Rightarrow> Err err | None \<Rightarrow> Ok ())"

definition new_clients :: "kafka_lib \<Rightarrow> kafka_env \<Rightarrow> string \<Rightarrow> string \<Rightarrow> string list \<Rightarrow> int \<Rightarrow> unit go" where
  "new_clients K e namespace consumerGroup seeds sessionMS =
     bind_go (mutation_opts K e (formatMutationTopic namespace) consumerGroup seeds sessionMS) (\<lambda>opts.
     bind_go (NewClient K opts) (\<lambda>_.
     bind_go (partition_opts K e (formatPartitionTopic namespace) seeds) (NewClient K)))"

text \<open>
  \<open>r1\<close> and \<open>r2\<close> are what the two polls of the partition topic return, \<open>produce w\<close> the error of
  publishing \<open>w\<close>. The second component is what has been published. With an error \<^verbatim>\<open>records\<close> is
  nil, so that every error of the first poll is taken for a missing record. A log of level fatal
  ends the program (\<open>Panic\<close>).
\<close>

definition NewLogConsumer :: "int \<Rightarrow> kafka_lib \<Rightarrow> kafka_env \<Rightarrow> string \<Rightarrow> string \<Rightarrow> string list \<Rightarrow> int \<Rightarrow> poll \<Rightarrow> poll \<Rightarrow>
    (wire \<Rightarrow> go_error option) \<Rightarrow> LogConsumer go \<times> wire list" where
  "NewLogConsumer Env_NumPartitions K e namespace consumerGroup seeds sessionMS r1 r2 produce =
     (let consumer = \<lparr>ConsumerGroup = consumerGroup, lc_Namespace = namespace,
            MutationTopic = formatMutationTopic namespace, NumPartitions = Env_NumPartitions,
            Ready = False, shuttingDown = False\<rparr>;
          check = (\<lambda>records. if length records = 0 then Panic
            else bind_go (unmarshal_PartitionMessage (records ! 0)) (\<lambda>n.
              if n \<noteq> Env_NumPartitions then Err ErrPartitionMismatch else Ok consumer))
      in case new_clients K e namespace consumerGroup seeds sessionMS of
           Err err \<Rightarrow> (Err err, [])
         | Panic \<Rightarrow> (Panic, [])
         | Ok _ \<Rightarrow>
             (let first = simplePollRecords r1;
                  records = (case first of Ok rs \<Rightarrow> rs | _ \<Rightarrow> []);
                  pmBytes = marshal_PartitionMessage Env_NumPartitions
              in if first = Err DeadlineExceeded \<or> length records = 0 then
                   (case produce pmBytes of
                      Some err \<Rightarrow> (Err err, [])
                    | None \<Rightarrow> (bind_go (simplePollRecords r2) check, [pmBytes]))
                 else (case first of Err err \<Rightarrow> (Err err, []) | _ \<Rightarrow> (check records, []))))"

section \<open>Following the assignment\<close>

text \<open>
  A member of the consumer group: its id and its assignment, by topic. \<open>group_info\<close> is the
  answer to \<^verbatim>\<open>DescribeGroups\<close>: the groups, sorted, with their members. What is assigned may not
  be readable as an assignment of a consumer (\<open>None\<close>): \<^verbatim>\<open>AsConsumer\<close> then returns a nil pointer.
\<close>

record member =
  MemberID :: string
  Assigned :: "(string \<times> int list) list option"

type_synonym group_info = "go_error + member list list"

datatype kgo_call =
    PauseFetchPartitions string "int list"
  | SetOffsets string "(int \<times> int) list"
  | ResumeFetchPartitions string "int list"

text \<open>\<^verbatim>\<open>lo.Difference\<close>: what is only in the first list, and what is only in the second.\<close>

definition Difference :: "'a list \<Rightarrow> 'a list \<Rightarrow> 'a list \<times> 'a list" where
  "Difference xs ys = (filter (\<lambda>x. x \<notin> set ys) xs, filter (\<lambda>y. y \<notin> set xs) ys)"

text \<open>
  The goroutines that add the new partitions work on different partitions; here they run one
  after the other. The result has their offsets, in order, or the first error; an error of one does
  not stop the others.
\<close>

fun add_news :: "('db, 'txn, 's3, 'bk) node_env \<Rightarrow> 's3 \<Rightarrow> int list \<Rightarrow> 'db PartitionManager \<Rightarrow> 'db disk \<Rightarrow>
    (int \<times> int option) list go \<times> 'db PartitionManager \<times> 'db disk" where
  "add_news E s [] pm disk = (Ok [], pm, disk)"
| "add_news E s (newPart # news) pm disk =
     (case AddPartition E s pm disk newPart of
        (Ok offset, pm', disk') \<Rightarrow>
          (case add_news E s news pm' disk' of
             (Ok resets, pm'', disk'') \<Rightarrow> (Ok ((newPart, offset) # resets), pm'', disk'')
           | (Err e, pm'', disk'') \<Rightarrow> (Err e, pm'', disk'')
           | (Panic, pm'', disk'') \<Rightarrow> (Panic, pm'', disk''))
      | (Err e, pm', disk') \<Rightarrow>
          (case add_news E s news pm' disk' of
             (Panic, pm'', disk'') \<Rightarrow> (Panic, pm'', disk'')
           | (_, pm'', disk'') \<Rightarrow> (Err e, pm'', disk''))
      | (Panic, pm', disk') \<Rightarrow> (Panic, pm', disk'))"

text \<open>How a run of the loop's body ends. A fatal log ends the program, as a panic does.\<close>

datatype status = Returned | Exits | LoopBlocks

fun remove_gones :: "('db, 'txn, 's3, 'bk) node_env \<Rightarrow> int list \<Rightarrow> 'db PartitionManager \<Rightarrow> 'db disk \<Rightarrow>
    status \<times> 'db PartitionManager \<times> 'db disk" where
  "remove_gones E [] pm disk = (Returned, pm, disk)"
| "remove_gones E (gonePart # gones) pm disk =
     (case RemovePartition E pm disk gonePart of
        (Returns (Ok _), pm', disk') \<Rightarrow> remove_gones E gones pm' disk'
      | (Returns (Err _), pm', disk') \<Rightarrow> (Exits, pm', disk')
      | (Returns Panic, pm', disk') \<Rightarrow> (Exits, pm', disk')
      | (Blocks, pm', disk') \<Rightarrow> (LoopBlocks, pm', disk'))"

definition topicInfoLoop :: "('db, 'txn, 's3, 'bk) node_env \<Rightarrow> 's3 \<Rightarrow> group_info \<Rightarrow> string \<Rightarrow>
    LogConsumer \<Rightarrow> 'db PartitionManager \<Rightarrow> 'db disk \<Rightarrow>
    status \<times> kgo_call list \<times> LogConsumer \<times> 'db PartitionManager \<times> 'db disk" where
  "topicInfoLoop E s resp memberID lc pm disk =
     (case resp of
        Inl e \<Rightarrow> (Returned, [], lc, pm, disk)
      | Inr groups \<Rightarrow>
          if length groups = 0 then (Returned, [], lc, pm, disk)
          else (case find (\<lambda>item. MemberID item = memberID) (groups ! 0) of
              None \<Rightarrow> (Returned, [], lc, pm, disk)
            | Some member \<Rightarrow>
               (case Assigned member of
                  None \<Rightarrow> (Exits, [], lc, pm, disk)
                | Some topics \<Rightarrow>
                if length topics = 0 then (Returned, [], lc\<lparr>Ready := False\<rparr>, pm, disk)
                else
                  (let myPartitions = snd (topics ! 0);
                       (news, gones) = Difference myPartitions (GetPartitionIDs pm);
                       topic = formatMutationTopic (lc_Namespace lc)
                   in if length news > 0 then
                        (case add_news E s news pm disk of
                           (Ok resets, pm1, disk1) \<Rightarrow>
                             (case remove_gones E gones pm1 disk1 of (st, pm2, disk2) \<Rightarrow>
                                (st,
                                 [PauseFetchPartitions topic news,
                                  SetOffsets topic (map (\<lambda>(i, off). (i, resetOffset off)) resets),
                                  ResumeFetchPartitions topic news],
                                 lc\<lparr>Ready := True\<rparr>, pm2, disk2))
                         | (_, pm1, disk1) \<Rightarrow> (Exits, [PauseFetchPartitions topic news], lc, pm1, disk1))
                      else
                        (case remove_gones E gones pm disk of (st, pm2, disk2) \<Rightarrow>
                           (st, [], lc, pm2, disk2))))))"

text \<open>\<^verbatim>\<open>Shutdown\<close>: the flag ends the polling loop.\<close>

definition lc_Shutdown :: "LogConsumer \<Rightarrow> unit go \<times> LogConsumer" where
  "lc_Shutdown lc = (Ok (), lc\<lparr>shuttingDown := True\<rparr>)"

section \<open>Lemmas\<close>

lemma unmarshal_marshal_PartitionMessage [go_laws]:
  "int64_range n \<Longrightarrow> unmarshal_PartitionMessage (marshal_PartitionMessage n) = Ok n"
  by (simp add: marshal_PartitionMessage_def unmarshal_PartitionMessage_def PartitionMessage_field_def
      same_key_def)

lemma NewLogConsumer_reads_first:
  assumes "NewLogConsumer n K e ns g seeds ms r1 r2 pr = (Ok lc, pub)"
  shows "NumPartitions lc = n \<and> (\<exists>r \<in> {r1, r2}. pl_records r \<noteq> [] \<and>
    unmarshal_PartitionMessage (pl_records r ! 0) = Ok n)"
  using assms
  by (auto simp: NewLogConsumer_def Let_def simplePollRecords_def bind_go_Ok_iff
      split: option.splits go.splits if_splits)

lemma AddPartition_opens:
  assumes ok: "pm_ok db_map pm" and new: "Load (Partitions pm) i = None" and opens: "opens db_map E s disk (pm_Namespace pm) i st"
  shows "\<exists>pm' disk'. AddPartition E s pm disk i = (Ok (snd st), pm', disk') \<and>
    pm_ok db_map pm' \<and> pm_Namespace pm' = pm_Namespace pm \<and>
    (\<forall>j. j \<noteq> i \<longrightarrow> disk' (getPartitionPath j) = disk (getPartitionPath j)) \<and>
    abs_node db_map pm' = (abs_node db_map pm)(i \<mapsto> st)"
proof -
  obtain p d where p: "newPartition E s disk (pm_Namespace pm) i = (Ok p, disk(getPartitionPath i \<mapsto> d))"
      "ID p = i" "Namespace p = pm_Namespace pm" "part_ok db_map p" "abs_store (db_map (DB p)) = st"
    using opens by (auto simp: opens_def)
  then have "LastOffset p = snd st" by (auto simp: part_ok_def abs_store_def)
  moreover have "map_ok (Partitions pm)" using ok by (simp add: pm_ok_def)
  ultimately show ?thesis using p new ok
    by (simp add: AddPartition_def pm_ok_store abs_node_store)
qed

text \<open>New partitions hold what they open with (\<open>F\<close>).\<close>

lemma add_news_opens:
  "pm_ok db_map pm \<Longrightarrow> distinct news \<Longrightarrow> \<forall>i \<in> set news. Load (Partitions pm) i = None \<Longrightarrow>
    \<forall>i \<in> set news. opens db_map E s disk (pm_Namespace pm) i (F i) \<Longrightarrow>
    \<exists>pm' disk'. add_news E s news pm disk = (Ok (map (\<lambda>i. (i, snd (F i))) news), pm', disk') \<and>
      pm_ok db_map pm' \<and> pm_Namespace pm' = pm_Namespace pm \<and>
      (\<forall>j. j \<notin> set news \<longrightarrow> disk' (getPartitionPath j) = disk (getPartitionPath j)) \<and>
      abs_node db_map pm' = (\<lambda>i. if i \<in> set news then Some (F i) else abs_node db_map pm i)"
proof (induction news arbitrary: pm disk)
  case (Cons i news)
  have "opens db_map E s disk (pm_Namespace pm) i (F i)" "Load (Partitions pm) i = None" using Cons.prems(3,4) by simp_all
  from AddPartition_opens [OF Cons.prems(1) this(2,1)] obtain pm1 disk1 where
      add: "AddPartition E s pm disk i = (Ok (snd (F i)), pm1, disk1)" "pm_ok db_map pm1" "pm_Namespace pm1 = pm_Namespace pm"
      "\<forall>j. j \<noteq> i \<longrightarrow> disk1 (getPartitionPath j) = disk (getPartitionPath j)"
      "abs_node db_map pm1 = (abs_node db_map pm)(i \<mapsto> F i)" by blast
  have fresh: "\<forall>j \<in> set news. Load (Partitions pm1) j = None"
  proof
    fix j assume j: "j \<in> set news"
    then have "abs_node db_map pm1 j = abs_node db_map pm j" using Cons.prems(2) add(5) by auto
    moreover have "Load (Partitions pm) j = None" using Cons.prems(3) j by simp
    ultimately show "Load (Partitions pm1) j = None" by (simp add: abs_node_def)
  qed
  have "\<forall>j \<in> set news. opens db_map E s disk1 (pm_Namespace pm1) j (F j)"
  proof
    fix j assume "j \<in> set news"
    then have "disk1 (getPartitionPath j) = disk (getPartitionPath j)" "opens db_map E s disk (pm_Namespace pm1) j (F j)"
      using Cons.prems(2,4) add(3,4) by auto
    then show "opens db_map E s disk1 (pm_Namespace pm1) j (F j)" by (rule opens_cong)
  qed
  from Cons.IH [OF add(2) _ fresh this] Cons.prems(2) obtain pm' disk' where IH:
      "add_news E s news pm1 disk1 = (Ok (map (\<lambda>i. (i, snd (F i))) news), pm', disk')" "pm_ok db_map pm'"
      "abs_node db_map pm' = (\<lambda>i. if i \<in> set news then Some (F i) else abs_node db_map pm1 i)"
      "pm_Namespace pm' = pm_Namespace pm1"
      "\<forall>j. j \<notin> set news \<longrightarrow> disk' (getPartitionPath j) = disk1 (getPartitionPath j)" by auto
  have "(\<lambda>j. if j \<in> set news then Some (F j) else abs_node db_map pm1 j) =
      (\<lambda>j. if j \<in> set (i # news) then Some (F j) else abs_node db_map pm j)"
    using Cons.prems(2) add(5) by (intro ext) auto
  then show ?case using add(1,3,4) IH by (simp del: fun_upd_apply)
qed simp

text \<open>
  Dropping partitions: each one is kept as it is, or it is gone from the node, and what its
  directory still holds, if anything, is what the node held.
\<close>

definition drops :: "('db \<Rightarrow> bytes \<Rightarrow> wire option) \<Rightarrow> 'db PartitionManager \<Rightarrow> 'db disk \<Rightarrow>
    'db PartitionManager \<Rightarrow> 'db disk \<Rightarrow> bool" where
  "drops db_map pm disk pm' disk' \<longleftrightarrow> pm_ok db_map pm' \<and> pm_Namespace pm' = pm_Namespace pm \<and> (\<forall>j.
     abs_node db_map pm' j = abs_node db_map pm j \<and> disk' (getPartitionPath j) = disk (getPartitionPath j) \<or>
     abs_node db_map pm' j = None \<and> (\<forall>d. disk' (getPartitionPath j) = Some d \<longrightarrow>
       store_ok (db_map d) \<and> abs_node db_map pm j = Some (abs_store (db_map d))))"

lemma drops_refl: "pm_ok db_map pm \<Longrightarrow> drops db_map pm disk pm disk"
  by (simp add: drops_def)

lemma drops_trans:
  "drops db_map pm disk pm1 disk1 \<Longrightarrow> drops db_map pm1 disk1 pm2 disk2 \<Longrightarrow> drops db_map pm disk pm2 disk2"
  unfolding drops_def by (metis option.distinct(1))

context node_disk
begin

lemma RemovePartition_drops:
  assumes ok: "pm_ok db_map pm" and i: "Load (Partitions pm) i \<noteq> None"
  shows "\<exists>pm' disk'. RemovePartition E pm disk i =
      (if env_BackupEnabled E then Returns (Ok ()) else Blocks, pm', disk') \<and> drops db_map pm disk pm' disk' \<and>
      abs_node db_map pm' = (abs_node db_map pm)(i := None)"
proof -
  have can: "can_return (env_BackupEnabled E) RemovePartition_actions \<longleftrightarrow> env_BackupEnabled E"
    by (simp add: can_return_def action_defs)
  obtain p where p: "Load (Partitions pm) i = Some p" "ID p = i" "store_ok (db_map (DB p))"
    using i ok by (auto simp: pm_ok_def part_ok_def)
  have m: "map_ok (Partitions pm)" using ok by (simp add: pm_ok_def)
  have del: "pm_ok db_map (pm\<lparr>Partitions := Delete (Partitions pm) i\<rparr>)" by (rule pm_ok_delete [OF ok])
  have "abs_node db_map pm i = Some (abs_store (db_map (DB p)))" using p(1) by (simp add: abs_node_def)
  then show ?thesis
    using p can del
    by (simp add: RemovePartition_def LoadAndDelete_def close_db_def close_ok remove_dir_def remove_ok
        abs_node_delete [OF m] drops_def)
qed

lemma remove_gones_ok:
  "pm_ok db_map pm \<Longrightarrow> distinct gones \<Longrightarrow> \<forall>i \<in> set gones. Load (Partitions pm) i \<noteq> None \<Longrightarrow>
    \<exists>pm' disk'. remove_gones E gones pm disk =
      (if gones = [] \<or> env_BackupEnabled E then Returned else LoopBlocks, pm', disk') \<and>
      drops db_map pm disk pm' disk' \<and>
      (gones = [] \<or> env_BackupEnabled E \<longrightarrow>
        abs_node db_map pm' = (\<lambda>i. if i \<in> set gones then None else abs_node db_map pm i))"
proof (induction gones arbitrary: pm disk)
  case (Cons i gones)
  have "Load (Partitions pm) i \<noteq> None" using Cons.prems(3) by simp
  then obtain pm1 disk1 where rm: "RemovePartition E pm disk i =
      (if env_BackupEnabled E then Returns (Ok ()) else Blocks, pm1, disk1)" "drops db_map pm disk pm1 disk1"
      "abs_node db_map pm1 = (abs_node db_map pm)(i := None)"
    using RemovePartition_drops [OF Cons.prems(1)] by blast
  have ok1: "pm_ok db_map pm1" using rm(2) by (simp add: drops_def)
  show ?case
  proof (cases "env_BackupEnabled E")
    case True
    have "Load (Partitions pm1) j \<noteq> None" if "j \<in> set gones" for j
    proof -
      have "abs_node db_map pm1 j = abs_node db_map pm j" using that Cons.prems(2) rm(3) by auto
      moreover have "Load (Partitions pm) j \<noteq> None" using Cons.prems(3) that by simp
      ultimately show ?thesis by (auto simp: abs_node_def)
    qed
    with Cons.IH [OF ok1, of disk1] Cons.prems(2) True obtain pm' disk' where
      "remove_gones E gones pm1 disk1 = (Returned, pm', disk')" "drops db_map pm1 disk1 pm' disk'"
      "abs_node db_map pm' = (\<lambda>i. if i \<in> set gones then None else abs_node db_map pm1 i)" by auto
    with rm True drops_trans [OF rm(2)] show ?thesis by (auto simp: fun_eq_iff)
  qed (use rm in simp)
qed (simp add: drops_refl)

text \<open>
  A run of \<^verbatim>\<open>topicInfoLoop\<close> with an assignment: first the new partitions are opened
  (\<open>pm1\<close>, \<open>disk1\<close>), then the dropped ones are removed.
\<close>

lemma topicInfoLoop_opens:
  fixes lc :: LogConsumer
  assumes ok: "pm_ok db_map pm"
    and me: "find (\<lambda>item. MemberID item = memberID) ms = Some me" "Assigned me = Some ((topic, parts) # rest)" "distinct parts"
    and opens: "\<forall>i \<in> set parts. abs_node db_map pm i = None \<longrightarrow> opens db_map E s disk (pm_Namespace pm) i (F i)"
  defines "news \<equiv> filter (\<lambda>i. abs_node db_map pm i = None) parts"
    and "gones \<equiv> dom (abs_node db_map pm) - set parts"
    and "t \<equiv> formatMutationTopic (lc_Namespace lc)"
  shows "\<exists>pm1 disk1 pm' disk'. topicInfoLoop E s (Inr (ms # groups)) memberID lc pm disk =
      (if gones = {} \<or> env_BackupEnabled E then Returned else LoopBlocks,
       if news = [] then [] else
        [PauseFetchPartitions t news,
         SetOffsets t (map (\<lambda>i. (i, resetOffset (snd (F i)))) news),
         ResumeFetchPartitions t news],
       if news = [] then lc else lc\<lparr>Ready := True\<rparr>, pm', disk') \<and>
    pm_ok db_map pm1 \<and> pm_Namespace pm1 = pm_Namespace pm \<and>
    abs_node db_map pm1 = (\<lambda>i. if i \<in> set news then Some (F i) else abs_node db_map pm i) \<and>
    (\<forall>j. j \<notin> set news \<longrightarrow> disk1 (getPartitionPath j) = disk (getPartitionPath j)) \<and>
    drops db_map pm1 disk1 pm' disk' \<and>
    (gones = {} \<or> env_BackupEnabled E \<longrightarrow>
      abs_node db_map pm' = (\<lambda>i. if i \<in> gones then None else abs_node db_map pm1 i))"
proof -
  have mok: "map_ok (Partitions pm)" using ok by (simp add: pm_ok_def)
  have load: "Load (Partitions pm) i = None \<longleftrightarrow> abs_node db_map pm i = None" for i
    by (simp add: abs_node_def)
  have ids: "i \<in> set (GetPartitionIDs pm) \<longleftrightarrow> abs_node db_map pm i \<noteq> None" for i
    using mok by (simp only: GetPartitionIDs_iff load not_False_eq_True)
  let ?gones = "filter (\<lambda>i. i \<notin> set parts) (GetPartitionIDs pm)"
  have diff: "Difference parts (GetPartitionIDs pm) = (news, ?gones)"
    by (simp only: Difference_def ids not_not news_def)
  have gones: "set ?gones = gones" using ids by (auto simp: gones_def)
  then have empty: "?gones = [] \<longleftrightarrow> gones = {}" by (metis set_empty)
  have dg: "distinct ?gones"
    using mok by (simp add: GetPartitionIDs_map map_ok_def)
  have new: "distinct news" "\<forall>i \<in> set news. Load (Partitions pm) i = None"
      "\<forall>i \<in> set news. opens db_map E s disk (pm_Namespace pm) i (F i)"
    using me(3) opens load by (auto simp: news_def)
  obtain pm1 disk1 where add: "add_news E s news pm disk =
      (Ok (map (\<lambda>i. (i, snd (F i))) news), pm1, disk1)" "pm_ok db_map pm1"
      "pm_Namespace pm1 = pm_Namespace pm"
      "\<forall>j. j \<notin> set news \<longrightarrow> disk1 (getPartitionPath j) = disk (getPartitionPath j)"
      "abs_node db_map pm1 = (\<lambda>i. if i \<in> set news then Some (F i) else abs_node db_map pm i)"
    using add_news_opens [OF ok new] by blast
  have present: "\<forall>i \<in> set ?gones. Load (Partitions pm1) i \<noteq> None"
  proof
    fix i assume "i \<in> set ?gones"
    then have "i \<notin> set news" "abs_node db_map pm i \<noteq> None" using ids by (auto simp: news_def)
    then have "abs_node db_map pm1 i \<noteq> None" by (simp add: add(5))
    then show "Load (Partitions pm1) i \<noteq> None" by (auto simp: abs_node_def)
  qed
  obtain pm2 disk2 where rm: "remove_gones E ?gones pm1 disk1 =
      (if ?gones = [] \<or> env_BackupEnabled E then Returned else LoopBlocks, pm2, disk2)" "drops db_map pm1 disk1 pm2 disk2"
      "?gones = [] \<or> env_BackupEnabled E \<longrightarrow>
        abs_node db_map pm2 = (\<lambda>i. if i \<in> set ?gones then None else abs_node db_map pm1 i)"
    using remove_gones_ok [OF add(2) dg present, of disk1] by blast
  have same: "news = [] \<Longrightarrow> pm1 = pm \<and> disk1 = disk" using add(1) by simp
  have run: "topicInfoLoop E s (Inr (ms # groups)) memberID lc pm disk =
      (if gones = {} \<or> env_BackupEnabled E then Returned else LoopBlocks,
       if news = [] then [] else
        [PauseFetchPartitions t news,
         SetOffsets t (map (\<lambda>i. (i, resetOffset (snd (F i)))) news),
         ResumeFetchPartitions t news],
       if news = [] then lc else lc\<lparr>Ready := True\<rparr>, pm2, disk2)"
    using me add(1) rm(1) same unfolding empty by (auto simp: topicInfoLoop_def diff o_def Let_def t_def split: if_splits)
  show ?thesis
    using run add(2-5) rm(2,3) unfolding empty gones by blast
qed

text \<open>Without restoring, new partitions open with what their directories hold.\<close>

lemma topicInfoLoop_runs:
  fixes lc :: LogConsumer
  assumes "pm_ok db_map pm" and "\<not> env_S3RestoreEnabled E" and "env_session E = None"
    and "find (\<lambda>item. MemberID item = memberID) ms = Some me" and "Assigned me = Some ((topic, parts) # rest)" and "distinct parts"
    and "\<forall>i \<in> set parts. \<forall>d. abs_node db_map pm i = None \<longrightarrow> disk (getPartitionPath i) = Some d \<longrightarrow> store_ok (db_map d)"
  defines "news \<equiv> filter (\<lambda>i. abs_node db_map pm i = None) parts"
    and "gones \<equiv> dom (abs_node db_map pm) - set parts"
    and "t \<equiv> formatMutationTopic (lc_Namespace lc)"
  shows "\<exists>pm1 disk1 pm' disk'. topicInfoLoop E s (Inr (ms # groups)) memberID lc pm disk =
      (if gones = {} \<or> env_BackupEnabled E then Returned else LoopBlocks,
       if news = [] then [] else
        [PauseFetchPartitions t news,
         SetOffsets t (map (\<lambda>i. (i, resetOffset (abs_offset (stored db_map disk i)))) news),
         ResumeFetchPartitions t news],
       if news = [] then lc else lc\<lparr>Ready := True\<rparr>, pm', disk') \<and>
    pm_ok db_map pm1 \<and> pm_Namespace pm1 = pm_Namespace pm \<and>
    abs_node db_map pm1 = (\<lambda>i. if i \<in> set news then Some (abs_store (stored db_map disk i)) else abs_node db_map pm i) \<and>
    (\<forall>j. j \<notin> set news \<longrightarrow> disk1 (getPartitionPath j) = disk (getPartitionPath j)) \<and>
    drops db_map pm1 disk1 pm' disk' \<and>
    (gones = {} \<or> env_BackupEnabled E \<longrightarrow>
      abs_node db_map pm' = (\<lambda>i. if i \<in> gones then None else abs_node db_map pm1 i))"
proof -
  have "\<forall>i \<in> set parts. abs_node db_map pm i = None \<longrightarrow> opens db_map E s disk (pm_Namespace pm) i (abs_store (stored db_map disk i))"
    using opens_stored [where disk = disk, OF assms(2,3)] assms(7) by blast
  from topicInfoLoop_opens [OF assms(1,4-6) this] show ?thesis
    unfolding news_def gones_def t_def abs_store_def snd_conv .
qed

end

text \<open>Without an assignment the loop's body does nothing, but for one that cannot be read.\<close>

lemma topicInfoLoop_idle:
  assumes "\<nexists>ms groups me topics. resp = Inr (ms # groups) \<and> find (\<lambda>item. MemberID item = memberID) ms = Some me \<and>
    Assigned me = Some topics \<and> topics \<noteq> []"
  shows "\<exists>st lc'. topicInfoLoop E s resp memberID lc pm disk = (st, [], lc', pm, disk)"
  using assms
  by (cases resp; cases "projr resp") (auto simp: topicInfoLoop_def split: option.splits)

text \<open>
  The second result of \<^verbatim>\<open>AsConsumer\<close> is not looked at: a member whose assignment cannot be read
  ends the program.
\<close>

lemma topicInfoLoop_unreadable:
  assumes "find (\<lambda>item. MemberID item = memberID) ms = Some me" and "Assigned me = None"
  shows "topicInfoLoop E s (Inr (ms # groups)) memberID lc pm disk = (Exits, [], lc, pm, disk)"
  using assms by (simp add: topicInfoLoop_def)

section \<open>Properties\<close>

text \<open>
  Nodes that start on one partition topic have the same number of partitions, and then
  compute the same partition for every key: each of them that is handed records of the topic
  from its start accepts only its first record.
\<close>

theorem nodes_agree_on_partitions:
  assumes "NewLogConsumer n K e ns g seeds ms r1 r2 pr = (Ok lc, pub)"
    and "NewLogConsumer n' K' e' ns g' seeds' ms' r1' r2' pr' = (Ok lc', pub')"
    and topic: "\<forall>r \<in> {r1, r2, r1', r2'}. prefix (pl_records r) records"
  shows "NumPartitions lc = NumPartitions lc' \<and>
    GetPartition (NumPartitions lc) k = GetPartition (NumPartitions lc') k"
proof -
  have first: "unmarshal_PartitionMessage (records ! 0) = Ok m"
    if "prefix (pl_records r) records" "pl_records r \<noteq> []" "unmarshal_PartitionMessage (pl_records r ! 0) = Ok m" for r m
    using that by (auto simp: prefix_def nth_append)
  have "unmarshal_PartitionMessage (records ! 0) = Ok n" "unmarshal_PartitionMessage (records ! 0) = Ok n'"
    using NewLogConsumer_reads_first [OF assms(1)] NewLogConsumer_reads_first [OF assms(2)] topic
    by (auto intro: first)
  then have "n = n'" by simp
  then show ?thesis
    using NewLogConsumer_reads_first [OF assms(1)] NewLogConsumer_reads_first [OF assms(2)] by simp
qed

definition demo_poll :: "wire list \<Rightarrow> poll" where
  "demo_poll ws = \<lparr>pl_closed = False, pl_errors = [], pl_records = ws\<rparr>"

definition demo_kafka :: kafka_lib where
  "demo_kafka = \<lparr>kl_tls = (\<lambda>_. None), kl_client = (\<lambda>_. None)\<rparr>"

definition demo_kafka_env :: kafka_env where
  "demo_kafka_env = \<lparr>ke_InstanceID = ''n1'', ke_Username = ''u'', ke_Password = ''p'', ke_TLS = True, ke_TLSCAPath = []\<rparr>"

lemma demo_clients: "new_clients demo_kafka demo_kafka_env ns g seeds ms = Ok ()"
  by (simp add: new_clients_def mutation_opts_def partition_opts_def NewClient_def demo_kafka_def demo_kafka_env_def Let_def)

theorem nodes_agree_on_partitions_witness:
  "NumPartitions (case NewLogConsumer 4 demo_kafka demo_kafka_env ''ns'' ''g'' [''k:9092''] 60000 (demo_poll []) (demo_poll [marshal_PartitionMessage 4]) (\<lambda>_. None)
     of (Ok lc, _) \<Rightarrow> lc | _ \<Rightarrow> undefined) = 4 \<and>
   (\<forall>lc'. fst (NewLogConsumer 8 demo_kafka demo_kafka_env ''ns'' ''h'' [''k:9092''] 60000 (demo_poll [marshal_PartitionMessage 4]) (demo_poll []) (\<lambda>_. None)) \<noteq> Ok lc')"
proof -
  let ?r = "[marshal_PartitionMessage 4]"
  have u: "unmarshal_PartitionMessage (marshal_PartitionMessage 4) = Ok 4"
    by (rule unmarshal_marshal_PartitionMessage) (simp add: int64_range_def)
  obtain lc where lc: "NewLogConsumer 4 demo_kafka demo_kafka_env ''ns'' ''g'' [''k:9092''] 60000 (demo_poll []) (demo_poll ?r) (\<lambda>_. None) = (Ok lc, ?r)"
      "NumPartitions lc = 4"
    by (simp add: NewLogConsumer_def simplePollRecords_def demo_poll_def Let_def u demo_clients)
  have "fst (NewLogConsumer 8 demo_kafka demo_kafka_env ''ns'' ''h'' [''k:9092''] 60000 (demo_poll ?r) (demo_poll []) (\<lambda>_. None)) \<noteq> Ok lc'" for lc'
  proof
    assume *: "fst (NewLogConsumer 8 demo_kafka demo_kafka_env ''ns'' ''h'' [''k:9092''] 60000 (demo_poll ?r) (demo_poll []) (\<lambda>_. None)) = Ok lc'"
    then obtain pub where "NewLogConsumer 8 demo_kafka demo_kafka_env ''ns'' ''h'' [''k:9092''] 60000 (demo_poll ?r) (demo_poll []) (\<lambda>_. None) = (Ok lc', pub)"
      by (metis prod.collapse)
    from nodes_agree_on_partitions [OF lc(1) this, of ?r] lc(2) NewLogConsumer_reads_first [OF this]
    show False by (simp add: demo_poll_def)
  qed
  with lc show ?thesis by simp
qed



text \<open>
  Readiness can get stuck: once the node has been told that nothing is assigned to it, an
  assignment of the partitions it still holds does not make it ready again.
\<close>

theorem Ready_stays_false:
  assumes "find (\<lambda>item. MemberID item = memberID) ms = Some me" and "Assigned me = Some []"
    and "find (\<lambda>item. MemberID item = memberID) ms' = Some me'" and "Assigned me' = Some ((topic, parts) # rest)"
    and "set parts = set (GetPartitionIDs pm)"
  shows "\<exists>lc1. topicInfoLoop E s (Inr (ms # gs)) memberID lc pm disk = (Returned, [], lc1, pm, disk) \<and>
    topicInfoLoop E s (Inr (ms' # gs')) memberID lc1 pm disk = (Returned, [], lc\<lparr>Ready := False\<rparr>, pm, disk)"
  using assms by (simp add: topicInfoLoop_def Difference_def)

theorem Ready_stays_false_witness:
  "\<forall>lc :: LogConsumer. \<exists>lc1. topicInfoLoop (mem_env False False) [] (Inr [[\<lparr>MemberID = ''m'', Assigned = Some []\<rparr>]]) ''m'' lc demo_pm Map.empty
      = (Returned, [], lc1, demo_pm, Map.empty) \<and>
    topicInfoLoop (mem_env False False) [] (Inr [[\<lparr>MemberID = ''m'', Assigned = Some [(''t'', [0])]\<rparr>]]) ''m'' lc1 demo_pm Map.empty
      = (Returned, [], lc\<lparr>Ready := False\<rparr>, demo_pm, Map.empty)" (is "\<forall>lc. ?P lc")
proof
  fix lc
  show "?P lc"
    using Ready_stays_false [of "''m''" "[\<lparr>MemberID = ''m'', Assigned = Some []\<rparr>]" "\<lparr>MemberID = ''m'', Assigned = Some []\<rparr>"
      "[\<lparr>MemberID = ''m'', Assigned = Some [(''t'', [0])]\<rparr>]" "\<lparr>MemberID = ''m'', Assigned = Some [(''t'', [0])]\<rparr>"
      "''t''" "[0]" "[]" demo_pm]
    by (simp add: GetPartitionIDs_map demo_pm_def)
qed

end
