(* ===== verification/Gossip.thy ===== *)
theory Gossip
  imports Manager
begin

text \<open>
  The package \<^verbatim>\<open>gossip\<close>: which remote nodes hold which partitions. The advertise messages and
  their JSON form (\<^verbatim>\<open>message.go\<close>), the table of remote partitions and its updates
  (\<^verbatim>\<open>gossip_manager.go\<close>), the callbacks of the membership library (\<^verbatim>\<open>delegate.go\<close>,
  \<^verbatim>\<open>event_delegate.go\<close>, \<^verbatim>\<open>broadcast.go\<close>) and the read-write lock around the table. The
  library (\<^verbatim>\<open>hashicorp/memberlist\<close>) is a parameter.
\<close>

section \<open>Messages\<close>

record GossipMessage =
  MsgType :: string
  Addr :: string
  ReplicaGroup :: string
  msg_Partitions :: "int list"

definition AdvertiseMessage :: string where
  "AdvertiseMessage = ''advertise''"

definition zero_GossipMessage :: GossipMessage where
  "zero_GossipMessage = \<lparr>MsgType = [], Addr = [], ReplicaGroup = [], msg_Partitions = []\<rparr>"

text \<open>The fields tagged \<^verbatim>\<open>omitempty\<close> are left out when they are empty.\<close>

definition marshal_GossipMessage :: "GossipMessage \<Rightarrow> wire" where
  "marshal_GossipMessage m = Doc (JObj ([(''MsgType'', JStr (MsgType m))]
     @ (if Addr m = [] then [] else [(''Addr'', JStr (Addr m))])
     @ (if ReplicaGroup m = [] then [] else [(''ReplicaGroup'', JStr (ReplicaGroup m))])
     @ (if msg_Partitions m = [] then [] else [(''Partitions'', JArr (map JInt (msg_Partitions m)))])))"

definition int32_range :: "int \<Rightarrow> bool" where
  "int32_range i \<longleftrightarrow> - (2 ^ 31) \<le> i \<and> i < 2 ^ 31"

text \<open>
  An array is decoded into the elements the slice already holds, which a \<^verbatim>\<open>null\<close> element
  leaves alone (zero beyond them).
\<close>

fun dec_int32s :: "json list \<Rightarrow> int list \<Rightarrow> int list go" where
  "dec_int32s [] old = Ok []"
| "dec_int32s (j # js) old =
     bind_go (case j of
         JInt i \<Rightarrow> if int32_range i then Ok i else Err JSONError
       | JNull \<Rightarrow> Ok (case old of [] \<Rightarrow> 0 | x # _ \<Rightarrow> x)
       | _ \<Rightarrow> Err JSONError) (\<lambda>i.
       bind_go (dec_int32s js (tl old)) (\<lambda>is. Ok (i # is)))"

fun dec_int32_slice :: "json \<Rightarrow> int list \<Rightarrow> int list go" where
  "dec_int32_slice (JArr js) old = dec_int32s js old"
| "dec_int32_slice JNull old = Ok []"
| "dec_int32_slice _ old = Err JSONError"

definition GossipMessage_field :: "string \<Rightarrow> json \<Rightarrow> GossipMessage \<Rightarrow> GossipMessage go" where
  "GossipMessage_field k v m =
     (if same_key k ''MsgType'' then bind_go (dec_string v (MsgType m)) (\<lambda>x. Ok (m\<lparr>MsgType := x\<rparr>))
      else if same_key k ''Addr'' then bind_go (dec_string v (Addr m)) (\<lambda>x. Ok (m\<lparr>Addr := x\<rparr>))
      else if same_key k ''ReplicaGroup''
        then bind_go (dec_string v (ReplicaGroup m)) (\<lambda>x. Ok (m\<lparr>ReplicaGroup := x\<rparr>))
      else if same_key k ''Partitions''
        then bind_go (dec_int32_slice v (msg_Partitions m)) (\<lambda>x. Ok (m\<lparr>msg_Partitions := x\<rparr>))
      else Ok m)"

definition unmarshal_GossipMessage :: "wire \<Rightarrow> GossipMessage go" where
  "unmarshal_GossipMessage w = dec_struct GossipMessage_field w zero_GossipMessage"

section \<open>The table of remote partitions\<close>

text \<open>A Go map from a partition to addresses; the list's order is the order of iteration.\<close>

type_synonym remotes = "(int \<times> string list) list"

fun diff_loop :: "int list \<Rightarrow> string \<Rightarrow> remotes \<Rightarrow> int list \<times> int list \<Rightarrow> int list \<times> int list" where
  "diff_loop partitions addr [] acc = acc"
| "diff_loop partitions addr ((p, addrs) # remotePartitions) (newPartitions, removedPartitions) =
     (let thinkAddrHasPart = addr \<in> set addrs;
          addrHasPart = p \<in> set partitions
      in diff_loop partitions addr remotePartitions
           (if thinkAddrHasPart \<and> \<not> addrHasPart then (newPartitions, removedPartitions @ [p])
            else if \<not> thinkAddrHasPart \<and> addrHasPart then (newPartitions @ [p], removedPartitions)
            else (newPartitions, removedPartitions)))"

definition checkForPartitionDifference :: "remotes \<Rightarrow> int list \<Rightarrow> string \<Rightarrow> int list \<times> int list" where
  "checkForPartitionDifference remotePartitions partitions addr =
     (case diff_loop partitions addr remotePartitions ([], []) of
        (newPartitions, removedPartitions) \<Rightarrow>
          (newPartitions @ filter (\<lambda>p. map_of remotePartitions p = None) partitions, removedPartitions))"

text \<open>A partition that is not in the table is entered, and the function returns.\<close>

fun addRemotePartitions :: "remotes \<Rightarrow> int list \<Rightarrow> string \<Rightarrow> remotes" where
  "addRemotePartitions remotePartitions [] addr = remotePartitions"
| "addRemotePartitions remotePartitions (p # partitions) addr =
     (case map_of remotePartitions p of
        None \<Rightarrow> AList.update p [addr] remotePartitions
      | Some addrs \<Rightarrow> addRemotePartitions (AList.update p (addrs @ [addr]) remotePartitions) partitions addr)"

fun removeRemotePartitions :: "remotes \<Rightarrow> int list \<Rightarrow> string \<Rightarrow> remotes" where
  "removeRemotePartitions remotePartitions [] addr = remotePartitions"
| "removeRemotePartitions remotePartitions (p # partitions) addr =
     (case map_of remotePartitions p of
        None \<Rightarrow> remotePartitions
      | Some addrs \<Rightarrow>
          removeRemotePartitions (AList.update p (filter (\<lambda>item. item \<noteq> addr) addrs) remotePartitions) partitions addr)"

definition removePartitionsForAddr :: "remotes \<Rightarrow> string \<Rightarrow> remotes" where
  "removePartitionsForAddr remotePartitions addr =
     fold (\<lambda>p rp. AList.update p
         (filter (\<lambda>item. item \<noteq> addr) (case map_of rp p of None \<Rightarrow> [] | Some addrs \<Rightarrow> addrs)) rp)
       (map fst (filter (\<lambda>(p, addrs). addr \<in> set addrs) remotePartitions)) remotePartitions"

definition getRemotePartitions :: "remotes \<Rightarrow> int \<Rightarrow> string list" where
  "getRemotePartitions remotePartitions p =
     (case map_of remotePartitions p of None \<Rightarrow> [] | Some addrs \<Rightarrow> addrs)"

text \<open>\<open>rnd n\<close> is the result of \<^verbatim>\<open>rand.Intn(n)\<close>.\<close>

definition GetRandomRemotePartition :: "(nat \<Rightarrow> nat) \<Rightarrow> remotes \<Rightarrow> int \<Rightarrow> string go" where
  "GetRandomRemotePartition rnd remotePartitions p =
     (let remoteParts = getRemotePartitions remotePartitions p
      in if length remoteParts = 0 then Err ErrNoRemotePartitions
         else Ok (remoteParts ! rnd (length remoteParts)))"

section \<open>The membership library's callbacks\<close>

text \<open>
  An incoming message: an empty one, one that does not parse and one of an unknown type
  change nothing.
\<close>

definition handleDelegateMsg :: "remotes \<Rightarrow> wire \<Rightarrow> remotes" where
  "handleDelegateMsg rp b =
     (if b = Raw [] then rp
      else case unmarshal_GossipMessage b of
        Ok msg \<Rightarrow>
          if MsgType msg = AdvertiseMessage then
            (case checkForPartitionDifference rp (msg_Partitions msg) (Addr msg) of
               (newParts, removedParts) \<Rightarrow>
                 (let rp1 = (if length removedParts > 0 then removeRemotePartitions rp removedParts (Addr msg) else rp)
                  in if length newParts > 0 then addRemotePartitions rp1 newParts (Addr msg) else rp1))
          else rp
      | Err _ \<Rightarrow> rp
      | Panic \<Rightarrow> rp)"

text \<open>The node and its part of the cluster's state; \<open>None\<close> is a queue not made yet.\<close>

record Node =
  node_ID :: string
  AdvertiseAddress :: string
  AdvertisePort :: string

record 'q GossipManager =
  g_Node :: Node
  g_broadcasts :: "'q option"
  g_remotePartitions :: remotes
  g_items :: "(string \<times> string) list"

text \<open>
  The configuration handed to the library: its defaults with the port, the name of the node, and,
  unless debugging is asked for, a log that throws away what is written to it (\<^verbatim>\<open>void_writer.go\<close>).
\<close>

definition VoidWriter :: "bytes \<Rightarrow> int go" where
  "VoidWriter b = Ok (int (length b))"

datatype memberlist_defaults = DefaultLocalConfig | DefaultLANConfig

record memberlist_config =
  mc_Defaults :: memberlist_defaults
  mc_BindPort :: int
  mc_LogOutput :: "(bytes \<Rightarrow> int go) option"
  mc_Name :: string

definition gossip_config :: "int \<Rightarrow> bool \<Rightarrow> string \<Rightarrow> memberlist_config" where
  "gossip_config port debug addr =
     \<lparr>mc_Defaults = (if sublist ''localhost'' addr then DefaultLocalConfig else DefaultLANConfig), mc_BindPort = port,
      mc_LogOutput = (if debug then None else Some VoidWriter), mc_Name = addr\<rparr>"

record 'q memberlist_lib =
  ml_queue :: "'q \<Rightarrow> wire \<Rightarrow> 'q"
  ml_take :: "'q \<Rightarrow> int \<Rightarrow> int \<Rightarrow> wire list \<times> 'q"
  ml_new_queue :: 'q
  ml_create :: "memberlist_config \<Rightarrow> go_error option"
  ml_join :: "string list \<Rightarrow> go_error option"
  ml_split_host_port :: "string \<Rightarrow> go_error + string \<times> string"

text \<open>\<^verbatim>\<open>QueueBroadcast\<close> is called through the pointer, which a nil queue turns into a panic.\<close>

definition broadcastAdvertiseMessage :: "'q memberlist_lib \<Rightarrow> string \<Rightarrow> string \<Rightarrow> 'db PartitionManager \<Rightarrow>
    'q GossipManager \<Rightarrow> 'q GossipManager go" where
  "broadcastAdvertiseMessage L addr replicaGroup pm gm =
     (let b = marshal_GossipMessage \<lparr>MsgType = AdvertiseMessage, Addr = addr, ReplicaGroup = replicaGroup,
                msg_Partitions = GetPartitionIDs pm\<rparr>
      in case g_broadcasts gm of
           None \<Rightarrow> Panic
         | Some q \<Rightarrow> Ok (gm\<lparr>g_broadcasts := Some (ml_queue L q b)\<rparr>))"

definition GetBroadcasts :: "'q memberlist_lib \<Rightarrow> int \<Rightarrow> int \<Rightarrow> 'q GossipManager \<Rightarrow>
    (wire list \<times> 'q GossipManager) go" where
  "GetBroadcasts L overhead limit gm =
     (case g_broadcasts gm of
        None \<Rightarrow> Panic
      | Some q \<Rightarrow> (case ml_take L q overhead limit of (ms, q') \<Rightarrow> Ok (ms, gm\<lparr>g_broadcasts := Some q'\<rparr>)))"

definition NotifyJoin :: "'q memberlist_lib \<Rightarrow> string \<Rightarrow> string \<Rightarrow> 'db PartitionManager \<Rightarrow>
    'q GossipManager \<Rightarrow> 'q GossipManager go" where
  "NotifyJoin L addr replicaGroup pm gm =
     (if g_broadcasts gm \<noteq> None then broadcastAdvertiseMessage L addr replicaGroup pm gm else Ok gm)"

definition NotifyLeave :: "string \<Rightarrow> 'q GossipManager \<Rightarrow> 'q GossipManager" where
  "NotifyLeave name gm =
     (if name \<noteq> node_ID (g_Node gm)
      then gm\<lparr>g_remotePartitions := removePartitionsForAddr (g_remotePartitions gm) name\<rparr> else gm)"

definition NotifyMsg :: "wire \<Rightarrow> 'q GossipManager \<Rightarrow> 'q GossipManager" where
  "NotifyMsg b gm = gm\<lparr>g_remotePartitions := handleDelegateMsg (g_remotePartitions gm) b\<rparr>"

text \<open>
  What is queued, \<^verbatim>\<open>broadcast\<close>: \<open>bc_notify\<close> says whether its channel, if it has one, is closed.
  A broadcast never replaces another one; when the library is done with it the channel is closed,
  and closing it twice panics. The broadcasts of a node have no channel.
\<close>

record broadcast =
  bc_msg :: wire
  bc_notify :: "bool option"

definition Invalidates :: "broadcast \<Rightarrow> 'o \<Rightarrow> bool" where
  "Invalidates b other = False"

definition Message :: "broadcast \<Rightarrow> wire" where
  "Message b = bc_msg b"

definition Finished :: "broadcast \<Rightarrow> broadcast go" where
  "Finished b =
     (case bc_notify b of
        None \<Rightarrow> Ok b
      | Some closed \<Rightarrow> if closed then Panic else Ok (b\<lparr>bc_notify := Some True\<rparr>))"

definition NodeMeta :: "int \<Rightarrow> bytes" where
  "NodeMeta limit = []"

definition LocalState :: "'q GossipManager \<Rightarrow> bool \<Rightarrow> wire" where
  "LocalState gm join = Doc (JObj (map (\<lambda>(k, v). (k, JStr v)) (g_items gm)))"

text \<open>Decoding a \<^verbatim>\<open>map[string]string\<close>; a \<^verbatim>\<open>null\<close> value is the empty string.\<close>

fun dec_string_map :: "(string \<times> json) list \<Rightarrow> (string \<times> string) list go" where
  "dec_string_map [] = Ok []"
| "dec_string_map ((k, v) # kvs) =
     bind_go (dec_string v []) (\<lambda>s. bind_go (dec_string_map kvs) (\<lambda>m. Ok ((k, s) # m)))"

definition MergeRemoteState :: "wire \<Rightarrow> bool \<Rightarrow> 'q GossipManager \<Rightarrow> 'q GossipManager" where
  "MergeRemoteState buf join gm =
     (if buf = Raw [] then gm
      else if \<not> join then gm
      else case buf of
        Doc (JObj kvs) \<Rightarrow>
          (case dec_string_map kvs of
             Ok m \<Rightarrow> gm\<lparr>g_items := fold (\<lambda>(k, v). AList.update k v) m (g_items gm)\<rparr>
           | _ \<Rightarrow> gm)
      | _ \<Rightarrow> gm)"

text \<open>
  \<^verbatim>\<open>NewGossipManager\<close>: no advertised address, no gossip (\<open>Ok None\<close>). The broadcast queue is
  made after the library was created and has joined; until then the callbacks, whose effect is
  \<open>meanwhile\<close>, see a manager without one.
\<close>

definition createManager :: "'q memberlist_lib \<Rightarrow> int \<Rightarrow> bool \<Rightarrow> string \<Rightarrow> 'q GossipManager option go" where
  "createManager L port debug addr =
     (if addr = [] then Ok None
      else case ml_split_host_port L addr of
        Inl e \<Rightarrow> Err e
      | Inr (advertiseHost, advertisePort) \<Rightarrow>
          (let myNode = \<lparr>node_ID = addr, AdvertiseAddress = advertisePort, AdvertisePort = advertiseHost\<rparr>
           in case ml_create L (gossip_config port debug addr) of
                Some e \<Rightarrow> Err e
              | None \<Rightarrow> Ok (Some \<lparr>g_Node = myNode, g_broadcasts = None, g_remotePartitions = [], g_items = []\<rparr>)))"

definition joinCluster :: "'q memberlist_lib \<Rightarrow> string \<Rightarrow> string \<Rightarrow> string \<Rightarrow> 'db PartitionManager \<Rightarrow> 'q GossipManager \<Rightarrow>
    'q GossipManager go" where
  "joinCluster L addr replicaGroup peers pm gm =
     (let existingMembers = split_str '','' peers
      in case (if length existingMembers > 0 \<and> existingMembers ! 0 \<noteq> [] then ml_join L existingMembers else None) of
           Some e \<Rightarrow> Err e
         | None \<Rightarrow> broadcastAdvertiseMessage L addr replicaGroup pm (gm\<lparr>g_broadcasts := Some (ml_new_queue L)\<rparr>))"

definition NewGossipManager :: "'q memberlist_lib \<Rightarrow> int \<Rightarrow> bool \<Rightarrow> string \<Rightarrow> string \<Rightarrow> string \<Rightarrow>
    ('q GossipManager \<Rightarrow> 'q GossipManager) \<Rightarrow> 'db PartitionManager \<Rightarrow> 'q GossipManager option go" where
  "NewGossipManager L port debug addr replicaGroup peers meanwhile pm =
     bind_go (createManager L port debug addr) (\<lambda>gm.
       case gm of
         None \<Rightarrow> Ok None
       | Some gm0 \<Rightarrow> bind_go (joinCluster L addr replicaGroup peers pm (meanwhile gm0)) (\<lambda>gm. Ok (Some gm)))"

section \<open>What the updates do\<close>

text \<open>The partitions the table attributes to an address.\<close>

definition view :: "remotes \<Rightarrow> string \<Rightarrow> int set" where
  "view rp addr = {p. \<exists>addrs. map_of rp p = Some addrs \<and> addr \<in> set addrs}"

definition remotes_ok :: "remotes \<Rightarrow> bool" where
  "remotes_ok rp \<longleftrightarrow> distinct (map fst rp) \<and> (\<forall>p addrs. map_of rp p = Some addrs \<longrightarrow> distinct addrs)"

lemma distinct_update_keys [simp]:
  "distinct (map fst rp) \<Longrightarrow> distinct (map fst (AList.update p x rp))"
  by (rule distinct_update)

lemma diff_loop_eq:
  "diff_loop parts addr rp (new, removed) =
    (new @ map fst (filter (\<lambda>(p, addrs). addr \<notin> set addrs \<and> p \<in> set parts) rp),
     removed @ map fst (filter (\<lambda>(p, addrs). addr \<in> set addrs \<and> p \<notin> set parts) rp))"
proof (induction rp arbitrary: new removed)
  case (Cons pa rp)
  then show ?case
    by (cases pa; cases "addr \<in> set (snd pa)"; cases "fst pa \<in> set parts") (simp_all add: Let_def)
qed simp

lemma removeRemote_map:
  "\<forall>p \<in> set ps. map_of rp p \<noteq> None \<Longrightarrow> map_of (removeRemotePartitions rp ps addr) q =
    (if q \<in> set ps then map_option (filter (\<lambda>a. a \<noteq> addr)) (map_of rp q) else map_of rp q)"
proof (induction ps arbitrary: rp)
  case (Cons p ps)
  then obtain addrs where "map_of rp p = Some addrs" by auto
  with Cons show ?case by (auto simp: update_conv' option.map_comp o_def)
qed simp

lemma removeRemote_distinct:
  "distinct (map fst rp) \<Longrightarrow> distinct (map fst (removeRemotePartitions rp ps addr))"
  by (induction rp ps addr rule: removeRemotePartitions.induct) (auto split: option.split)

lemma addRemote_known:
  "distinct ps \<Longrightarrow> \<forall>p \<in> set ps. map_of rp p \<noteq> None \<Longrightarrow> map_of (addRemotePartitions rp (ps @ us) addr) q =
    map_of (addRemotePartitions (addRemotePartitions rp ps addr) us addr) q \<and>
    map_of (addRemotePartitions rp ps addr) q =
    (if q \<in> set ps then map_option (\<lambda>addrs. addrs @ [addr]) (map_of rp q) else map_of rp q)"
proof (induction ps arbitrary: rp)
  case (Cons p ps)
  then obtain addrs where "map_of rp p = Some addrs" by auto
  with Cons show ?case by (auto simp: update_conv')
qed simp

lemma addRemote_distinct:
  "distinct (map fst rp) \<Longrightarrow> distinct (map fst (addRemotePartitions rp ps addr))"
  by (induction rp ps addr rule: addRemotePartitions.induct) (auto split: option.split)

text \<open>The table after an advertisement of \<open>parts\<close> by \<open>addr\<close>.\<close>

definition advertised :: "remotes \<Rightarrow> int list \<Rightarrow> string \<Rightarrow> int \<Rightarrow> string list option" where
  "advertised rp parts addr q = (case map_of rp q of
     Some addrs \<Rightarrow> Some (if addr \<in> set addrs then (if q \<in> set parts then addrs else filter (\<lambda>a. a \<noteq> addr) addrs)
                         else (if q \<in> set parts then addrs @ [addr] else addrs))
   | None \<Rightarrow> (case filter (\<lambda>p. map_of rp p = None) parts of
         [] \<Rightarrow> None | u # _ \<Rightarrow> if q = u then Some [addr] else None))"

lemma addRemote_unknown:
  "\<forall>u \<in> set us. map_of rp u = None \<Longrightarrow> map_of (addRemotePartitions rp us addr) q =
     (case us of [] \<Rightarrow> map_of rp q | u # _ \<Rightarrow> if q = u then Some [addr] else map_of rp q)"
  by (cases us) (auto simp: update_conv')

lemma advertise_map:
  assumes "distinct (map fst rp)" and "unmarshal_GossipMessage b = Ok msg" and "MsgType msg = AdvertiseMessage"
    and "b \<noteq> Raw []"
  shows "map_of (handleDelegateMsg rp b) q = advertised rp (msg_Partitions msg) (Addr msg) q"
    and "distinct (map fst (handleDelegateMsg rp b))"
proof -
  let ?addr = "Addr msg" and ?parts = "msg_Partitions msg"
  let ?known = "map fst (filter (\<lambda>(p, addrs). ?addr \<notin> set addrs \<and> p \<in> set ?parts) rp)"
  let ?removed = "map fst (filter (\<lambda>(p, addrs). ?addr \<in> set addrs \<and> p \<notin> set ?parts) rp)"
  let ?unknown = "filter (\<lambda>p. map_of rp p = None) ?parts"
  let ?rp1 = "removeRemotePartitions rp ?removed ?addr"
  have h: "handleDelegateMsg rp b = addRemotePartitions ?rp1 (?known @ ?unknown) ?addr"
    using assms by (auto simp: handleDelegateMsg_def checkForPartitionDifference_def diff_loop_eq Let_def)
  have iff: "(p, addrs) \<in> set rp \<longleftrightarrow> map_of rp p = Some addrs" for p addrs
    using assms(1) by simp
  have removed: "p \<in> set ?removed \<longleftrightarrow> (\<exists>addrs. map_of rp p = Some addrs \<and> ?addr \<in> set addrs \<and> p \<notin> set ?parts)" for p
    by (force simp: iff [symmetric])
  have known: "p \<in> set ?known \<longleftrightarrow> (\<exists>addrs. map_of rp p = Some addrs \<and> ?addr \<notin> set addrs \<and> p \<in> set ?parts)" for p
    by (force simp: iff [symmetric])
  have rp1: "map_of ?rp1 p = (if p \<in> set ?removed then map_option (filter (\<lambda>a. a \<noteq> ?addr)) (map_of rp p) else map_of rp p)" for p
    by (rule removeRemote_map) (auto dest!: removed [THEN iffD1] simp del: set_map set_filter)
  have dk: "distinct ?known" using assms(1) by (rule distinct_map_filter)
  have kn: "\<forall>p \<in> set ?known. map_of ?rp1 p \<noteq> None"
  proof
    fix p assume "p \<in> set ?known"
    then obtain addrs where "map_of rp p = Some addrs" by (auto dest!: known [THEN iffD1] simp del: set_map set_filter)
    then show "map_of ?rp1 p \<noteq> None" unfolding rp1 by simp
  qed
  let ?rp2 = "addRemotePartitions ?rp1 ?known ?addr"
  have rp2: "map_of ?rp2 p = (if p \<in> set ?known then map_option (\<lambda>addrs. addrs @ [?addr]) (map_of ?rp1 p) else map_of ?rp1 p)" for p
    using addRemote_known [OF dk kn, of "[]"] by blast
  have un: "\<forall>u \<in> set ?unknown. map_of ?rp2 u = None" unfolding rp2 rp1 by (auto simp del: set_map)
  have "map_of (handleDelegateMsg rp b) q = map_of (addRemotePartitions ?rp2 ?unknown ?addr) q"
    unfolding h using addRemote_known [OF dk kn] by blast
  also have "\<dots> = (case ?unknown of [] \<Rightarrow> map_of ?rp2 q | u # _ \<Rightarrow> if q = u then Some [?addr] else map_of ?rp2 q)"
    by (rule addRemote_unknown [OF un])
  also have "\<dots> = advertised rp ?parts ?addr q"
  proof (cases "map_of rp q")
    case None
    then show ?thesis by (simp add: rp2 rp1 advertised_def del: set_map split: list.split)
  next
    case (Some addrs)
    then have "q \<notin> set ?unknown" by simp
    then have "\<not> (\<exists>us. ?unknown = q # us)" by (metis list.set_intros(1))
    then have "(case ?unknown of [] \<Rightarrow> map_of ?rp2 q | u # _ \<Rightarrow> if q = u then Some [?addr] else map_of ?rp2 q) = map_of ?rp2 q"
      by (auto split: list.split)
    also have "\<dots> = advertised rp ?parts ?addr q"
      using Some unfolding rp2 rp1 known removed by (simp add: advertised_def)
    finally show ?thesis .
  qed
  finally show "map_of (handleDelegateMsg rp b) q = advertised rp ?parts ?addr q" .
  show "distinct (map fst (handleDelegateMsg rp b))"
    unfolding h by (intro addRemote_distinct removeRemote_distinct assms(1))
qed

lemma advertise_view:
  assumes "distinct (map fst rp)" and "unmarshal_GossipMessage b = Ok msg" and "MsgType msg = AdvertiseMessage"
    and "b \<noteq> Raw []"
  defines "us \<equiv> filter (\<lambda>p. map_of rp p = None) (msg_Partitions msg)"
  shows "view (handleDelegateMsg rp b) (Addr msg) =
      (set (msg_Partitions msg) \<inter> dom (map_of rp)) \<union> set (take 1 us)"
    and "a \<noteq> Addr msg \<Longrightarrow> view (handleDelegateMsg rp b) a = view rp a"
    and "dom (map_of (handleDelegateMsg rp b)) = dom (map_of rp) \<union> set (take 1 us)"
proof -
  note m = advertise_map [OF assms(1-4)]
  have u: "set (take 1 us) \<subseteq> {p. map_of rp p = None}"
    unfolding us_def by (auto dest!: in_set_takeD)
  have hd: "map_of rp q = None \<Longrightarrow> advertised rp (msg_Partitions msg) (Addr msg) q =
      (if q \<in> set (take 1 us) then Some [Addr msg] else None)" for q
    unfolding us_def by (auto simp: advertised_def split: list.split)
  have some: "advertised rp (msg_Partitions msg) (Addr msg) q =
      Some (if Addr msg \<in> set addrs then (if q \<in> set (msg_Partitions msg) then addrs else filter (\<lambda>a. a \<noteq> Addr msg) addrs)
            else (if q \<in> set (msg_Partitions msg) then addrs @ [Addr msg] else addrs))"
    if "map_of rp q = Some addrs" for q addrs
    using that by (simp add: advertised_def)
  show "view (handleDelegateMsg rp b) (Addr msg) = (set (msg_Partitions msg) \<inter> dom (map_of rp)) \<union> set (take 1 us)"
  proof (rule set_eqI)
    fix q
    show "q \<in> view (handleDelegateMsg rp b) (Addr msg) \<longleftrightarrow>
        q \<in> (set (msg_Partitions msg) \<inter> dom (map_of rp)) \<union> set (take 1 us)"
      using u by (cases "map_of rp q") (auto simp: view_def m hd some split: if_splits)
  qed
  show "view (handleDelegateMsg rp b) a = view rp a" if "a \<noteq> Addr msg"
  proof (rule set_eqI)
    fix q
    show "q \<in> view (handleDelegateMsg rp b) a \<longleftrightarrow> q \<in> view rp a"
      using that by (cases "map_of rp q") (auto simp: view_def m hd some split: if_splits)
  qed
  show "dom (map_of (handleDelegateMsg rp b)) = dom (map_of rp) \<union> set (take 1 us)"
  proof (rule set_eqI)
    fix q
    show "q \<in> dom (map_of (handleDelegateMsg rp b)) \<longleftrightarrow> q \<in> dom (map_of rp) \<union> set (take 1 us)"
      by (cases "map_of rp q") (auto simp: dom_def m hd some)
  qed
qed

lemma advertise_ok:
  assumes "remotes_ok rp" and "unmarshal_GossipMessage b = Ok msg" and "MsgType msg = AdvertiseMessage"
    and "b \<noteq> Raw []"
  shows "remotes_ok (handleDelegateMsg rp b)"
proof -
  note m = advertise_map [OF conjunct1 [OF assms(1) [unfolded remotes_ok_def]] assms(2-4)]
  have "distinct addrs" if "advertised rp (msg_Partitions msg) (Addr msg) p = Some addrs" for p addrs
    using that assms(1)
    by (auto simp: advertised_def remotes_ok_def split: option.splits list.splits if_splits)
  with m show ?thesis by (simp add: remotes_ok_def)
qed

lemma handle_ok: "remotes_ok rp \<Longrightarrow> remotes_ok (handleDelegateMsg rp b)"
proof (cases "\<exists>msg. unmarshal_GossipMessage b = Ok msg \<and> MsgType msg = AdvertiseMessage \<and> b \<noteq> Raw []")
  case False
  moreover assume "remotes_ok rp"
  ultimately show ?thesis by (auto simp: handleDelegateMsg_def split: go.split)
qed (blast intro: advertise_ok)

text \<open>Repeating one advertisement: each repetition enters one of the unknown partitions.\<close>

lemma advertise_repeated:
  assumes "unmarshal_GossipMessage b = Ok msg" and "MsgType msg = AdvertiseMessage" and "b \<noteq> Raw []"
  shows "remotes_ok rp \<Longrightarrow> card (set (msg_Partitions msg) - dom (map_of rp)) \<le> n \<Longrightarrow>
    view (((\<lambda>rp. handleDelegateMsg rp b) ^^ Suc n) rp) (Addr msg) = set (msg_Partitions msg) \<and>
    (\<forall>a. a \<noteq> Addr msg \<longrightarrow> view (((\<lambda>rp. handleDelegateMsg rp b) ^^ Suc n) rp) a = view rp a) \<and>
    remotes_ok (((\<lambda>rp. handleDelegateMsg rp b) ^^ Suc n) rp)"
proof (induction n arbitrary: rp)
  let ?P = "set (msg_Partitions msg)"
  let ?us = "\<lambda>rp. filter (\<lambda>p. map_of rp p = None) (msg_Partitions msg)"
  {
    case 0
    then have "?P - dom (map_of rp) = {}" by simp
    then have "?us rp = []" by (auto simp: filter_empty_conv)
    with 0 advertise_view [of rp b msg] assms \<open>?P - dom (map_of rp) = {}\<close> advertise_ok [of rp b msg]
    show ?case by (auto simp: remotes_ok_def)
  next
    case (Suc n)
    let ?rp = "handleDelegateMsg rp b"
    have d: "distinct (map fst rp)" using Suc.prems(1) by (simp add: remotes_ok_def)
    note v = advertise_view [OF d assms]
    have "card (?P - dom (map_of ?rp)) \<le> n"
    proof (cases "?us rp")
      case Nil
      then have "?P - dom (map_of ?rp) = {}" unfolding v(3) by (auto simp: filter_empty_conv)
      then show ?thesis by (metis card.empty le0)
    next
      case (Cons u us)
      then have "u \<in> ?P - dom (map_of rp)"
        by (metis (mono_tags, lifting) DiffI domIff filter_set list.set_intros(1) mem_Collect_eq set_filter)
      moreover have "?P - dom (map_of ?rp) = (?P - dom (map_of rp)) - {u}" unfolding v(3) Cons by auto
      ultimately show ?thesis using Suc.prems(2) by (simp add: card_Diff_singleton)
    qed
    from Suc.IH [OF advertise_ok [OF Suc.prems(1) assms] this] v(2) show ?case
      unfolding funpow_Suc_right [of "Suc n"] by simp
  }
qed

lemma removeForAddr_map:
  assumes "distinct (map fst rp)"
  shows "map_of (removePartitionsForAddr rp addr) p = map_option (filter (\<lambda>a. a \<noteq> addr)) (map_of rp p)"
proof -
  have gen: "map_of (fold (\<lambda>p rp. AList.update p (filter (\<lambda>item. item \<noteq> addr)
        (case map_of rp p of None \<Rightarrow> [] | Some addrs \<Rightarrow> addrs)) rp) ps rp') p =
      (if p \<in> set ps then map_option (filter (\<lambda>a. a \<noteq> addr)) (map_of rp' p) else map_of rp' p)"
    if "\<forall>p \<in> set ps. map_of rp' p \<noteq> None" for ps rp'
    using that
  proof (induction ps arbitrary: rp')
    case (Cons q ps)
    then obtain addrs where "map_of rp' q = Some addrs" by auto
    with Cons show ?case by (auto simp: update_conv' option.map_comp o_def)
  qed simp
  let ?ps = "map fst (filter (\<lambda>(p, addrs). addr \<in> set addrs) rp)"
  have "\<forall>p \<in> set ?ps. map_of rp p \<noteq> None" using assms by auto
  from gen [OF this] have *: "map_of (removePartitionsForAddr rp addr) p =
      (if p \<in> set ?ps then map_option (filter (\<lambda>a. a \<noteq> addr)) (map_of rp p) else map_of rp p)"
    by (simp only: removePartitionsForAddr_def)
  show ?thesis
  proof (cases "p \<in> set ?ps")
    case True
    then show ?thesis by (simp only: * if_True)
  next
    case False
    have "filter (\<lambda>a. a \<noteq> addr) addrs = addrs" if "map_of rp p = Some addrs" for addrs
      using False map_of_SomeD [OF that] by (force intro: filter_True)
    then have "map_of rp p = map_option (filter (\<lambda>a. a \<noteq> addr)) (map_of rp p)" by (cases "map_of rp p") simp_all
    then show ?thesis using False by (simp only: * if_False)
  qed
qed

lemma removeForAddr_distinct:
  "distinct (map fst rp) \<Longrightarrow> distinct (map fst (removePartitionsForAddr rp addr))"
proof -
  have "distinct (map fst rp) \<Longrightarrow> distinct (map fst (fold (\<lambda>p rp. AList.update p (f p rp) rp) ps rp))"
    for f :: "int \<Rightarrow> remotes \<Rightarrow> string list" and ps rp
    by (induction ps arbitrary: rp) auto
  then show "distinct (map fst rp) \<Longrightarrow> ?thesis" by (simp add: removePartitionsForAddr_def)
qed

text \<open>What a node marshals, another one reads.\<close>

lemma same_keys_gossip [simp]:
  "same_key ''MsgType'' ''MsgType''" "same_key ''Addr'' ''Addr''" "same_key ''ReplicaGroup'' ''ReplicaGroup''"
  "same_key ''Partitions'' ''Partitions''"
  "\<not> same_key ''Addr'' ''MsgType''" "\<not> same_key ''ReplicaGroup'' ''MsgType''" "\<not> same_key ''Partitions'' ''MsgType''"
  "\<not> same_key ''ReplicaGroup'' ''Addr''" "\<not> same_key ''Partitions'' ''Addr''" "\<not> same_key ''Partitions'' ''ReplicaGroup''"
  by (simp_all add: same_key_def lower_def Let_def)

lemma dec_int32s_map: "\<forall>i \<in> set is. int32_range i \<Longrightarrow> dec_int32s (map JInt is) old = Ok is"
  by (induction "is" arbitrary: old) auto

lemma unmarshal_marshal_GossipMessage [go_laws]:
  "\<forall>i \<in> set (msg_Partitions m). int32_range i \<Longrightarrow> unmarshal_GossipMessage (marshal_GossipMessage m) = Ok m"
  by (cases m) (simp add: marshal_GossipMessage_def unmarshal_GossipMessage_def GossipMessage_field_def
      zero_GossipMessage_def dec_int32s_map)

lemma marshal_not_empty: "marshal_GossipMessage m \<noteq> Raw []"
  by (simp add: marshal_GossipMessage_def)

definition demo_memberlist :: "wire list memberlist_lib" where
  "demo_memberlist = \<lparr>ml_queue = (\<lambda>q b. q @ [b]), ml_take = (\<lambda>q _ _. (q, [])), ml_new_queue = [],
     ml_create = (\<lambda>_. None), ml_join = (\<lambda>_. None), ml_split_host_port = (\<lambda>s. Inr (s, []))\<rparr>"

section \<open>The lock around the table\<close>

text \<open>
  A reader and a writer of \<^verbatim>\<open>remotePartMu\<close>, a \<^verbatim>\<open>sync.RWMutex\<close>: a writer first announces
  itself, from then on no new read lock is granted, and it acquires the lock when the
  readers are gone.
\<close>

datatype lock_action = RLock | RUnlock | Lock | Unlock

record rwmutex =
  readers :: nat
  announced :: bool
  held :: bool
  reader_prog :: "lock_action list"
  writer_prog :: "lock_action list"

text \<open>\<^verbatim>\<open>GetRandomRemotePartition\<close> calls \<^verbatim>\<open>getRemotePartitions\<close> under its own read lock.\<close>

definition getRemotePartitions_locks :: "lock_action list" where
  "getRemotePartitions_locks = [RLock, RUnlock]"

definition GetRandomRemotePartition_locks :: "lock_action list" where
  "GetRandomRemotePartition_locks = [RLock] @ getRemotePartitions_locks @ [RUnlock]"

definition addRemotePartitions_locks :: "lock_action list" where
  "addRemotePartitions_locks = [Lock, Unlock]"

inductive lock_step :: "rwmutex \<Rightarrow> rwmutex \<Rightarrow> bool" where
  rlock: "reader_prog m = RLock # r \<Longrightarrow> \<not> announced m \<Longrightarrow> \<not> held m \<Longrightarrow>
    lock_step m (m\<lparr>readers := readers m + 1, reader_prog := r\<rparr>)"
| runlock: "reader_prog m = RUnlock # r \<Longrightarrow> lock_step m (m\<lparr>readers := readers m - 1, reader_prog := r\<rparr>)"
| announce: "writer_prog m = Lock # w \<Longrightarrow> \<not> announced m \<Longrightarrow> lock_step m (m\<lparr>announced := True\<rparr>)"
| acquire: "writer_prog m = Lock # w \<Longrightarrow> announced m \<Longrightarrow> readers m = 0 \<Longrightarrow>
    lock_step m (m\<lparr>announced := False, held := True, writer_prog := w\<rparr>)"
| unlock: "writer_prog m = Unlock # w \<Longrightarrow> lock_step m (m\<lparr>held := False, writer_prog := w\<rparr>)"

inductive_cases lock_stepE: "lock_step m m'"

definition start_locks :: "lock_action list \<Rightarrow> lock_action list \<Rightarrow> rwmutex" where
  "start_locks r w = \<lparr>readers = 0, announced = False, held = False, reader_prog = r, writer_prog = w\<rparr>"

section \<open>Properties\<close>

text \<open>
  An advertisement changes the table for the advertising address only: of the partitions
  the table knows, exactly the advertised ones are attributed to it; of the others the first
  is entered and the rest are dropped. No address is ever listed twice for a partition.
\<close>

theorem advertisement_updates_view:
  assumes "remotes_ok rp" and "MsgType msg = AdvertiseMessage"
    and "\<forall>i \<in> set (msg_Partitions msg). int32_range i"
  shows "view (handleDelegateMsg rp (marshal_GossipMessage msg)) =
      (view rp)(Addr msg := (set (msg_Partitions msg) \<inter> dom (map_of rp)) \<union>
        set (take 1 (filter (\<lambda>p. map_of rp p = None) (msg_Partitions msg)))) \<and>
    remotes_ok (handleDelegateMsg rp (marshal_GossipMessage msg))"
proof -
  have u: "unmarshal_GossipMessage (marshal_GossipMessage msg) = Ok msg" "marshal_GossipMessage msg \<noteq> Raw []"
    using assms(3) by (simp_all add: unmarshal_marshal_GossipMessage marshal_not_empty)
  note v = advertise_view [OF conjunct1 [OF assms(1) [unfolded remotes_ok_def]] u(1) assms(2) u(2)]
  show ?thesis
    using v(1,2) handle_ok [OF assms(1)] by (auto simp: fun_eq_iff)
qed

definition demo_advert :: GossipMessage where
  "demo_advert = \<lparr>MsgType = AdvertiseMessage, Addr = ''a:1'', ReplicaGroup = ''g'', msg_Partitions = [1, 2, 3]\<rparr>"

lemma remotes_ok_Nil: "remotes_ok []"
  by (simp add: remotes_ok_def)

theorem advertisement_updates_view_witness:
  "view (handleDelegateMsg [] (marshal_GossipMessage demo_advert)) ''a:1'' = {1}"
  using advertisement_updates_view [OF remotes_ok_Nil, of demo_advert]
  by (simp add: demo_advert_def int32_range_def)

text \<open>
  Nodes advertise again and again, and the table converges: after one advertisement more
  than there are advertised partitions missing from the table, the address is listed for
  exactly the partitions it advertises, and the other addresses are where they were.
\<close>

theorem advertisements_converge:
  assumes "remotes_ok rp" and "MsgType msg = AdvertiseMessage"
    and "\<forall>i \<in> set (msg_Partitions msg). int32_range i"
    and "card (set (msg_Partitions msg) - dom (map_of rp)) \<le> n"
  shows "view (((\<lambda>rp. handleDelegateMsg rp (marshal_GossipMessage msg)) ^^ Suc n) rp) =
    (view rp)(Addr msg := set (msg_Partitions msg))"
proof -
  have u: "unmarshal_GossipMessage (marshal_GossipMessage msg) = Ok msg" "marshal_GossipMessage msg \<noteq> Raw []"
    using assms(3) by (simp_all add: unmarshal_marshal_GossipMessage marshal_not_empty)
  show ?thesis
    using advertise_repeated [OF u(1) assms(2) u(2) assms(1,4)] by (auto simp: fun_eq_iff)
qed

theorem advertisements_converge_witness:
  "view (((\<lambda>rp. handleDelegateMsg rp (marshal_GossipMessage demo_advert)) ^^ 4) []) ''a:1'' = {1, 2, 3}"
proof -
  have adv: "MsgType demo_advert = AdvertiseMessage" "\<forall>i \<in> set (msg_Partitions demo_advert). int32_range i"
    "card (set (msg_Partitions demo_advert) - dom (map_of [])) \<le> 3"
    "Addr demo_advert = ''a:1''" "set (msg_Partitions demo_advert) = {1, 2, 3}" and four: "Suc 3 = 4"
    by (simp_all add: demo_advert_def int32_range_def)
  show ?thesis
    unfolding four [symmetric] advertisements_converge [OF remotes_ok_Nil adv(1-3)] by (simp only: adv fun_upd_same)
qed

text \<open>
  When a node leaves, its address is taken from every partition and no other address is
  touched; the node's own name is ignored.
\<close>

theorem NotifyLeave_forgets_address:
  assumes "remotes_ok (g_remotePartitions gm)"
  shows "view (g_remotePartitions (NotifyLeave name gm)) =
    (if name = node_ID (g_Node gm) then view (g_remotePartitions gm)
     else (view (g_remotePartitions gm))(name := {})) \<and>
    remotes_ok (g_remotePartitions (NotifyLeave name gm))"
proof -
  have d: "distinct (map fst (g_remotePartitions gm))" using assms by (simp add: remotes_ok_def)
  note m = removeForAddr_map [OF d, of name]
  have "view (removePartitionsForAddr (g_remotePartitions gm) name) = (view (g_remotePartitions gm))(name := {})"
    by (force simp: view_def m fun_eq_iff)
  moreover have "remotes_ok (removePartitionsForAddr (g_remotePartitions gm) name)"
    using assms removeForAddr_distinct [OF d] by (auto simp: remotes_ok_def m)
  ultimately show ?thesis using assms by (simp add: NotifyLeave_def)
qed

definition demo_gm :: "unit GossipManager" where
  "demo_gm = \<lparr>g_Node = \<lparr>node_ID = ''b:1'', AdvertiseAddress = [], AdvertisePort = []\<rparr>,
     g_broadcasts = None, g_remotePartitions = [(0, [''a:1'', ''c:1''])], g_items = []\<rparr>"

theorem NotifyLeave_forgets_address_witness:
  "view (g_remotePartitions (NotifyLeave ''a:1'' demo_gm)) ''a:1'' = {} \<and>
   view (g_remotePartitions (NotifyLeave ''a:1'' demo_gm)) ''c:1'' = {0}"
proof -
  have "remotes_ok (g_remotePartitions demo_gm)" by (auto simp: remotes_ok_def demo_gm_def split: if_splits)
  from NotifyLeave_forgets_address [OF this, of "''a:1''"]
  have v: "view (g_remotePartitions (NotifyLeave ''a:1'' demo_gm)) =
      (view (g_remotePartitions demo_gm))(''a:1'' := {})" by (simp add: demo_gm_def)
  show ?thesis unfolding v by (auto simp: view_def demo_gm_def split: if_splits)
qed

text \<open>
  The read lock that \<^verbatim>\<open>GetRandomRemotePartition\<close> takes twice can deadlock: if a writer
  announces itself between the two, neither can go on.
\<close>

theorem GetRandomRemotePartition_can_deadlock:
  "\<exists>m. lock_step\<^sup>*\<^sup>* (start_locks GetRandomRemotePartition_locks addRemotePartitions_locks) m \<and>
     reader_prog m \<noteq> [] \<and> writer_prog m \<noteq> [] \<and> (\<forall>m'. \<not> lock_step m m')"
proof -
  let ?m0 = "start_locks GetRandomRemotePartition_locks addRemotePartitions_locks"
  let ?m1 = "?m0\<lparr>readers := 1, reader_prog := [RLock, RUnlock, RUnlock]\<rparr>"
  let ?m2 = "?m1\<lparr>announced := True\<rparr>"
  note defs = start_locks_def GetRandomRemotePartition_locks_def getRemotePartitions_locks_def
    addRemotePartitions_locks_def
  have "lock_step ?m0 ?m1" "lock_step ?m1 ?m2"
    using rlock [of ?m0] announce [of ?m1] by (simp_all add: defs)
  then have "lock_step\<^sup>*\<^sup>* ?m0 ?m2" by (meson rtranclp.rtrancl_into_rtrancl rtranclp.rtrancl_refl)
  moreover have "\<not> lock_step ?m2 m'" for m' by (auto elim!: lock_stepE simp: defs)
  ultimately show ?thesis by (intro exI [of _ ?m2]) (simp add: defs)
qed

end
