(* ===== verification/Api.thy ===== *)
theory Api
  imports LogConsumer Gossip "HOL-Library.Multiset"
begin

text \<open>
  The HTTP API (\<^verbatim>\<open>api/handler.go\<close> and the handlers of \<^verbatim>\<open>api/http_server.go\<close>): the decoding
  and validation of requests, putting and deleting through the log, reading and listing from
  local and remote partitions. A request is its operation and its JSON body; the router and
  the middleware are not modelled.
\<close>

section \<open>Requests, replies and the world\<close>

text \<open>
  A reply is a text or a JSON list of records with its status, an error handed to the
  framework (which answers 500), a panic, or none at all: \<open>Hangs\<close>.
\<close>

datatype reply = Text int string | JSON int "Record list" | HandlerError go_error | Crash | Hangs

text \<open>A record that is produced to the log.\<close>

record krecord =
  kr_Key :: bytes
  kr_Value :: wire
  kr_Topic :: string

text \<open>
  \<open>a_produce\<close> is \<^verbatim>\<open>ProduceSync\<close> with \<^verbatim>\<open>FirstErr\<close>, \<open>a_http\<close> a POST of a body to a URL (status
  and body of the answer, or an error before that), \<open>a_text\<close> the text of an error.
\<close>

record ('db, 'txn, 'prog, 'k) api_env =
  a_B :: "('db, 'txn) badger_api"
  a_X :: "'prog expr_lib"
  a_NumPartitions :: int
  a_produce :: "'k \<Rightarrow> krecord list \<Rightarrow> go_error option \<times> 'k"
  a_http :: "string \<Rightarrow> wire \<Rightarrow> go_error + int \<times> wire"
  a_text :: "go_error \<Rightarrow> string"
  a_rnd :: "nat \<Rightarrow> nat"

section \<open>Decoding\<close>

fun dec_bool :: "json \<Rightarrow> bool \<Rightarrow> bool go" where
  "dec_bool (JBool b) _ = Ok b"
| "dec_bool JNull old = Ok old"
| "dec_bool _ _ = Err JSONError"

text \<open>A slice of structs: elements it already has are decoded into, the others start from zero.\<close>

fun dec_structs :: "(string \<Rightarrow> json \<Rightarrow> 'a \<Rightarrow> 'a go) \<Rightarrow> 'a \<Rightarrow> json list \<Rightarrow> 'a list \<Rightarrow> 'a list go" where
  "dec_structs field zero [] old = Ok []"
| "dec_structs field zero (j # js) old =
     bind_go (dec_struct field (Doc j) (case old of [] \<Rightarrow> zero | x # _ \<Rightarrow> x)) (\<lambda>x.
       bind_go (dec_structs field zero js (tl old)) (\<lambda>xs. Ok (x # xs)))"

fun dec_slice :: "(string \<Rightarrow> json \<Rightarrow> 'a \<Rightarrow> 'a go) \<Rightarrow> 'a \<Rightarrow> json \<Rightarrow> 'a list \<Rightarrow> 'a list go" where
  "dec_slice field zero (JArr js) old = dec_structs field zero js old"
| "dec_slice field zero JNull old = Ok []"
| "dec_slice field zero _ old = Err JSONError"

text \<open>The structs whose only field is \<^verbatim>\<open>Records\<close>: \<^verbatim>\<open>MutationReq\<close>, \<^verbatim>\<open>GetReq\<close>, \<^verbatim>\<open>GetRes\<close>.\<close>

definition Records_field :: "(string \<Rightarrow> json \<Rightarrow> 'a \<Rightarrow> 'a go) \<Rightarrow> 'a \<Rightarrow> string \<Rightarrow> json \<Rightarrow> 'a list \<Rightarrow> 'a list go" where
  "Records_field field zero k v xs = (if same_key k ''Records'' then dec_slice field zero v xs else Ok xs)"

definition RecordKey_field :: "string \<Rightarrow> json \<Rightarrow> RecordKey \<Rightarrow> RecordKey go" where
  "RecordKey_field k v rk =
     (if same_key k ''Pk'' then bind_go (dec_string v (Pk rk)) (\<lambda>x. Ok (rk\<lparr>Pk := x\<rparr>))
      else if same_key k ''Sk'' then bind_go (dec_string v (Sk rk)) (\<lambda>x. Ok (rk\<lparr>Sk := x\<rparr>))
      else Ok rk)"

definition Record_field :: "string \<Rightarrow> json \<Rightarrow> Record \<Rightarrow> Record go" where
  "Record_field k v r =
     (if same_key k ''Pk'' then bind_go (dec_string v (r_Pk r)) (\<lambda>x. Ok (r\<lparr>r_Pk := x\<rparr>))
      else if same_key k ''Sk'' then bind_go (dec_string v (r_Sk r)) (\<lambda>x. Ok (r\<lparr>r_Sk := x\<rparr>))
      else if same_key k ''Data'' then bind_go (dec_data v (r_Data r)) (\<lambda>x. Ok (r\<lparr>r_Data := x\<rparr>))
      else if same_key k ''CreatedAt'' then bind_go (dec_time v (r_CreatedAt r)) (\<lambda>x. Ok (r\<lparr>r_CreatedAt := x\<rparr>))
      else if same_key k ''UpdatedAt'' then bind_go (dec_time v (r_UpdatedAt r)) (\<lambda>x. Ok (r\<lparr>r_UpdatedAt := x\<rparr>))
      else Ok r)"

definition zero_RecordKey :: RecordKey where
  "zero_RecordKey = \<lparr>Pk = [], Sk = []\<rparr>"

definition zero_Record :: Record where
  "zero_Record = \<lparr>r_Pk = [], r_Sk = [], r_Data = None, r_CreatedAt = zero_time, r_UpdatedAt = zero_time\<rparr>"

record ListReq =
  l_Pk :: string
  l_SkPrefix :: string
  l_Limit :: int
  l_If :: "string option"
  l_IfStop :: bool

definition zero_ListReq :: ListReq where
  "zero_ListReq = \<lparr>l_Pk = [], l_SkPrefix = [], l_Limit = 0, l_If = None, l_IfStop = False\<rparr>"

definition ListReq_field :: "string \<Rightarrow> json \<Rightarrow> ListReq \<Rightarrow> ListReq go" where
  "ListReq_field k v l =
     (if same_key k ''pk'' then bind_go (dec_string v (l_Pk l)) (\<lambda>x. Ok (l\<lparr>l_Pk := x\<rparr>))
      else if same_key k ''sk_prefix'' then bind_go (dec_string v (l_SkPrefix l)) (\<lambda>x. Ok (l\<lparr>l_SkPrefix := x\<rparr>))
      else if same_key k ''limit'' then bind_go (dec_int64 v (l_Limit l)) (\<lambda>x. Ok (l\<lparr>l_Limit := x\<rparr>))
      else if same_key k ''if'' then bind_go (dec_string_ptr v (l_If l)) (\<lambda>x. Ok (l\<lparr>l_If := x\<rparr>))
      else if same_key k ''if_stop'' then bind_go (dec_bool v (l_IfStop l)) (\<lambda>x. Ok (l\<lparr>l_IfStop := x\<rparr>))
      else Ok l)"

definition marshal_GetReq :: "RecordKey list \<Rightarrow> wire" where
  "marshal_GetReq keys = Doc (JObj [(''Records'',
     JArr (map (\<lambda>k. JObj [(''Pk'', JStr (Pk k)), (''Sk'', JStr (Sk k))]) keys))])"

definition marshal_ListReq :: "ListReq \<Rightarrow> wire" where
  "marshal_ListReq l = Doc (JObj [(''pk'', JStr (l_Pk l)), (''sk_prefix'', JStr (l_SkPrefix l)),
     (''limit'', JInt (l_Limit l)), (''if'', (case l_If l of None \<Rightarrow> JNull | Some s \<Rightarrow> JStr s)),
     (''if_stop'', JBool (l_IfStop l))])"

text \<open>
  \<^verbatim>\<open>ValidateRequest\<close>: bind (an empty body leaves the struct as it is), then validate. The
  elements of a slice are not validated (there is no \<^verbatim>\<open>dive\<close>).
\<close>

definition ValidateRequest :: "(string \<Rightarrow> json \<Rightarrow> 'a \<Rightarrow> 'a go) \<Rightarrow> 'a \<Rightarrow> ('a \<Rightarrow> bool) \<Rightarrow> wire option \<Rightarrow> 'a go" where
  "ValidateRequest field zero valid body =
     bind_go (case body of None \<Rightarrow> Ok zero | Some w \<Rightarrow> dec_struct field w zero) (\<lambda>req.
       if valid req then Ok req else Err (External ''validation''))"

section \<open>Mutations\<close>

fun add_group :: "int \<Rightarrow> 'a \<Rightarrow> (int \<times> 'a list) list \<Rightarrow> (int \<times> 'a list) list" where
  "add_group p x m = (case map_of m p of
     None \<Rightarrow> AList.update p [x] m | Some xs \<Rightarrow> AList.update p (xs @ [x]) m)"

fun mutation_loop :: "('db, 'txn, 'prog, 'k) api_env \<Rightarrow> string \<Rightarrow> string \<Rightarrow> int \<Rightarrow> RecordMutation list \<Rightarrow>
    (int \<times> krecord list) list \<Rightarrow> reply + (int \<times> krecord list) list" where
  "mutation_loop A op topic nMS [] partMap = Inr partMap"
| "mutation_loop A op topic nMS (m # muts) partMap =
     (let mut = m\<lparr>m_TsMs := nMS, m_Mutation := op\<rparr>
      in case (case m_If mut of None \<Rightarrow> None | Some s \<Rightarrow> VerifyIfStatement (a_X A) s) of
           Some e \<Rightarrow> Inl (Text 400 (''error compiling `if` statement `'' @ the (m_If mut) @ ''`: '' @ a_text A e))
         | None \<Rightarrow>
             (let record = \<lparr>kr_Key = m_Pk mut, kr_Value = marshal_RecordMutation mut, kr_Topic = topic\<rparr>
              in case GetPartition (a_NumPartitions A) (m_Pk mut) of
                   Ok partID \<Rightarrow> mutation_loop A op topic nMS muts (add_group partID record partMap)
                 | _ \<Rightarrow> Inl Crash))"

text \<open>Every partition's records are produced; \<^verbatim>\<open>Wait\<close> returns one of the errors.\<close>

fun produce_all :: "('db, 'txn, 'prog, 'k) api_env \<Rightarrow> (int \<times> krecord list) list \<Rightarrow> 'k \<Rightarrow> go_error option \<times> 'k" where
  "produce_all A [] k = (None, k)"
| "produce_all A ((partID, records) # partMap) k =
     (case a_produce A k records of (err, k') \<Rightarrow>
        (case produce_all A partMap k' of (err', k'') \<Rightarrow> (if err = None then err' else err, k'')))"

definition handleMutation :: "('db, 'txn, 'prog, 'k) api_env \<Rightarrow> string \<Rightarrow> string \<Rightarrow> int \<Rightarrow> wire option \<Rightarrow> 'k \<Rightarrow>
    reply \<times> 'k" where
  "handleMutation A op topic nMS body k =
     (case ValidateRequest (Records_field RecordMutation_field zero_RecordMutation) []
             (\<lambda>muts. length muts \<ge> 1) body of
        Err e \<Rightarrow> (Text 400 (a_text A e), k)
      | Panic \<Rightarrow> (Crash, k)
      | Ok muts \<Rightarrow>
          (case mutation_loop A op topic nMS muts [] of
             Inl reply \<Rightarrow> (reply, k)
           | Inr partMap \<Rightarrow>
               (case produce_all A partMap k of
                  (Some e, k') \<Rightarrow> (HandlerError e, k')
                | (None, k') \<Rightarrow> (Text 200 ''ok'', k'))))"

section \<open>Remote operations\<close>

definition doRemoteOperation :: "('db, 'txn, 'prog, 'k) api_env \<Rightarrow> string \<Rightarrow> string \<Rightarrow> wire \<Rightarrow> Record list go" where
  "doRemoteOperation A addr op body =
     (case a_http A (''http://'' @ addr @ ''/records/'' @ op) body of
        Inl e \<Rightarrow> Err e
      | Inr (status, resBytes) \<Rightarrow>
          if status > 299 then Err ErrHighStatusCode
          else dec_struct (Records_field Record_field zero_Record) resBytes [])"

section \<open>Reading\<close>

fun bucket_loop :: "int \<Rightarrow> int list \<Rightarrow> RecordKey list \<Rightarrow>
    (int \<times> RecordKey list) list \<times> (int \<times> RecordKey list) list \<Rightarrow>
    ((int \<times> RecordKey list) list \<times> (int \<times> RecordKey list) list) go" where
  "bucket_loop n localPartitions [] acc = Ok acc"
| "bucket_loop n localPartitions (key # keys) (localKeys, remoteKeys) =
     bind_go (GetPartition n (Pk key)) (\<lambda>part.
       if part \<in> set localPartitions
       then bucket_loop n localPartitions keys (add_group part key localKeys, remoteKeys)
       else bucket_loop n localPartitions keys (localKeys, add_group part key remoteKeys))"

text \<open>
  What one of the goroutines does: it sends a result (\<open>Ok (Some rs)\<close>), returns without
  sending, or returns an error. The node's table of remote partitions is absent when gossip
  is disabled.
\<close>

definition remote_get :: "('db, 'txn, 'prog, 'k) api_env \<Rightarrow> remotes option \<Rightarrow> int \<times> RecordKey list \<Rightarrow>
    Record list option go" where
  "remote_get A gm pk = (case pk of (part, keys) \<Rightarrow>
     (case gm of
        None \<Rightarrow> Ok None
      | Some rp \<Rightarrow>
          (case GetRandomRemotePartition (a_rnd A) rp part of
             Ok addr \<Rightarrow> bind_go (doRemoteOperation A addr OperationGet (marshal_GetReq keys)) (\<lambda>r. Ok (Some r))
           | Err e \<Rightarrow> if e = ErrNoRemotePartitions then Ok None else Err e
           | Panic \<Rightarrow> Panic)))"

text \<open>
  The results go through a channel with room for \<open>length localKeys + length remoteKeys\<close> of
  them, which is read only after all goroutines have returned: with more results than room a
  sender blocks, and the handler with it. The order of the results is the order in which the
  goroutines finish; here they finish in the order in which they were started.
\<close>

definition handleGet :: "('db, 'txn, 'prog, 'k) api_env \<Rightarrow> 'db PartitionManager \<Rightarrow> remotes option \<Rightarrow> wire option \<Rightarrow> reply" where
  "handleGet A pm gm body =
     (case ValidateRequest (Records_field RecordKey_field zero_RecordKey) [] (\<lambda>keys. length keys \<ge> 1) body of
        Err e \<Rightarrow> Text 400 (a_text A e)
      | Panic \<Rightarrow> Crash
      | Ok keys \<Rightarrow>
          (case bucket_loop (a_NumPartitions A) (GetPartitionIDs pm) keys ([], []) of
             Err e \<Rightarrow> HandlerError e
           | Panic \<Rightarrow> Crash
           | Ok (localKeys, remoteKeys) \<Rightarrow>
               (let outcomes = map_go Some (pm_ReadRecords (a_B A) pm localKeys []) # map (remote_get A gm) remoteKeys;
                    sends = List.map_filter (\<lambda>r. case r of Ok (Some rs) \<Rightarrow> Some rs | _ \<Rightarrow> None) outcomes;
                    errs = List.map_filter (\<lambda>r. case r of Err e \<Rightarrow> Some e | _ \<Rightarrow> None) outcomes
                in if Panic \<in> set outcomes then Crash
                   else if length sends > length localKeys + length remoteKeys then Hangs
                   else (case errs of e # _ \<Rightarrow> HandlerError e | [] \<Rightarrow> JSON 200 (concat sends)))))"

section \<open>Listing\<close>

text \<open>The error of the remote operation goes to an inner \<^verbatim>\<open>err\<close> that nobody reads.\<close>

definition handleList :: "('db, 'txn, 'prog, 'k) api_env \<Rightarrow> 'db PartitionManager \<Rightarrow> remotes option \<Rightarrow> wire option \<Rightarrow> reply" where
  "handleList A pm gm body =
     (case ValidateRequest ListReq_field zero_ListReq (\<lambda>l. l_Limit l \<ge> 0) body of
        Err e \<Rightarrow> Text 400 (a_text A e)
      | Panic \<Rightarrow> Crash
      | Ok req \<Rightarrow>
          (case GetPartition (a_NumPartitions A) (l_Pk req) of
             Ok part \<Rightarrow>
               (case (case l_If req of None \<Rightarrow> None | Some s \<Rightarrow> VerifyIfStatement (a_X A) s) of
                  Some e \<Rightarrow> Text 400 (''error compiling `if` statement `'' @ the (l_If req) @ ''`: '' @ a_text A e)
                | None \<Rightarrow>
                    if part \<in> set (GetPartitionIDs pm) then
                      (case pm_ListRecords (a_B A) (a_X A) pm part (l_Pk req) (l_SkPrefix req) (l_Limit req)
                              (l_If req) (l_IfStop req) of
                         Ok listRes \<Rightarrow> JSON 200 listRes
                       | Err e \<Rightarrow> HandlerError e
                       | Panic \<Rightarrow> Crash)
                    else
                      (case gm of
                         None \<Rightarrow> JSON 200 []
                       | Some rp \<Rightarrow>
                           (case GetRandomRemotePartition (a_rnd A) rp part of
                              Err e \<Rightarrow> HandlerError e
                            | Panic \<Rightarrow> Crash
                            | Ok addr \<Rightarrow>
                                (case doRemoteOperation A addr OperationList (marshal_ListReq req) of
                                   Ok listRes \<Rightarrow> JSON 200 listRes
                                 | Err _ \<Rightarrow> JSON 200 []
                                 | Panic \<Rightarrow> Crash))))
           | _ \<Rightarrow> Crash))"

section \<open>Dispatch and health\<close>

definition operationHandler :: "('db, 'txn, 'prog, 'k) api_env \<Rightarrow> 'db PartitionManager \<Rightarrow> remotes option \<Rightarrow>
    string \<Rightarrow> int \<Rightarrow> string \<Rightarrow> wire option \<Rightarrow> 'k \<Rightarrow> reply \<times> 'k" where
  "operationHandler A pm gm topic nMS operation body k =
     (if operation = OperationPut \<or> operation = OperationDelete then handleMutation A operation topic nMS body k
      else if operation = OperationGet then (handleGet A pm gm body, k)
      else if operation = OperationList then (handleList A pm gm body, k)
      else (Text 400 (''unknown operation '' @ [CHR 0x27] @ operation @ [CHR 0x27]), k))"

definition Up :: reply where
  "Up = Text 200 ''ok''"

definition Ready_handler :: "LogConsumer \<Rightarrow> reply" where
  "Ready_handler lc = Text (if Ready lc then 200 else 500) (if Ready lc then ''ok'' else ''no partitions'')"

section \<open>Grouping by partition\<close>

text \<open>A list in groups: each group holds, in order, the elements with its number.\<close>

definition grouped :: "('a \<Rightarrow> int) \<Rightarrow> 'a list \<Rightarrow> (int \<times> 'a list) list \<Rightarrow> bool" where
  "grouped f xs m \<longleftrightarrow> distinct (map fst m) \<and>
     (\<forall>p. map_of m p = (if filter (\<lambda>x. f x = p) xs = [] then None else Some (filter (\<lambda>x. f x = p) xs)))"

lemma grouped_Nil: "grouped f [] []"
  by (simp add: grouped_def)

lemma add_group_grouped: "grouped f xs m \<Longrightarrow> f x = p \<Longrightarrow> grouped f (xs @ [x]) (add_group p x m)"
  by (auto simp: grouped_def update_conv' distinct_update split: option.split)

lemma grouped_entry:
  assumes "grouped f xs m" and "(i, ks) \<in> set m"
  shows "ks = filter (\<lambda>x. f x = i) xs \<and> ks \<noteq> []"
proof -
  have "distinct (map fst m)" using assms(1) by (simp add: grouped_def)
  then have "map_of m i = Some ks" using assms(2) by (rule map_of_is_SomeI)
  then show ?thesis using assms(1) by (auto simp: grouped_def split: if_splits)
qed

lemma grouped_mset: "grouped f xs m \<Longrightarrow> mset (concat (map snd m)) = mset xs"
proof -
  assume g: "grouped f xs m"
  then have d: "distinct (map fst m)" by (simp add: grouped_def)
  have "mset (concat (map snd m)) = (\<Sum>p \<in> set (map fst m). mset (the (map_of m p)))"
    using d by (induction m) (force intro!: sum.cong)+
  also have "\<dots> = (\<Sum>p \<in> set (map fst m). filter_mset (\<lambda>x. f x = p) (mset xs))"
    using g by (intro sum.cong) (auto simp: grouped_def mset_filter dest!: weak_map_of_SomeI)
  also have "\<dots> = mset xs"
  proof (rule multiset_eqI)
    fix x
    show "count (\<Sum>p \<in> set (map fst m). filter_mset (\<lambda>x. f x = p) (mset xs)) x = count (mset xs) x"
    proof (cases "x \<in> set xs")
      case True
      then have "map_of m (f x) \<noteq> None" using g by (auto simp: grouped_def filter_empty_conv)
      then have fx: "f x \<in> set (map fst m)" by (metis map_of_eq_None_iff set_map)
      have "count (\<Sum>p \<in> set (map fst m). filter_mset (\<lambda>x. f x = p) (mset xs)) x =
          (\<Sum>p \<in> set (map fst m). if p = f x then count (mset xs) x else 0)"
        by (auto simp: count_sum intro!: sum.cong)
      also have "\<dots> = count (mset xs) x" using fx by (simp add: sum.delta)
      finally show ?thesis .
    next
      case False
      then have "count (mset xs) x = 0" by (simp add: count_eq_zero_iff)
      then show ?thesis by (simp add: count_sum)
    qed
  qed
  finally show ?thesis .
qed

lemma map_filter_mset:
  "mset xs = mset ys \<Longrightarrow> mset (List.map_filter h xs) = mset (List.map_filter h ys)"
  by (simp add: map_filter_def mset_filter)

section \<open>Decoded requests\<close>

lemma dec_structs_keep:
  assumes field: "\<And>k v x y. field k v x = Ok y \<Longrightarrow> P x \<Longrightarrow> P y" and zero: "P zero"
  shows "dec_structs field zero js old = Ok xs \<Longrightarrow> \<forall>x \<in> set old. P x \<Longrightarrow> \<forall>x \<in> set xs. P x"
proof (induction js arbitrary: old xs)
  case (Cons j js)
  let ?x = "case old of [] \<Rightarrow> zero | x # _ \<Rightarrow> x"
  obtain x ys where x: "dec_struct field (Doc j) ?x = Ok x" and ys: "dec_structs field zero js (tl old) = Ok ys" "xs = x # ys"
    using Cons.prems(1) by (auto simp: bind_go_Ok_iff)
  have "P ?x" using zero Cons.prems(2) by (auto split: list.split)
  with field x have "P x" by (rule dec_struct_keeps)
  moreover have "\<forall>x \<in> set ys. P x" using Cons.IH [OF ys(1)] Cons.prems(2) by (cases old) auto
  ultimately show ?case by (simp add: ys(2))
qed simp

lemma Records_keep:
  assumes field: "\<And>k v x y. field k v x = Ok y \<Longrightarrow> P x \<Longrightarrow> P y" and zero: "P zero"
    and dec: "dec_struct (Records_field field zero) w [] = Ok xs"
  shows "\<forall>x \<in> set xs. P x"
proof (rule dec_struct_keeps [OF _ dec])
  show "\<forall>x \<in> set ys. P x" if "Records_field field zero k v zs = Ok ys" "\<forall>x \<in> set zs. P x" for k v zs ys
    using that dec_structs_keep [of field P zero, OF field zero]
    by (cases v) (auto simp: Records_field_def split: if_splits)
qed simp

lemma decoded_mutations:
  "dec_struct (Records_field RecordMutation_field zero_RecordMutation) w [] = Ok ms \<Longrightarrow> \<forall>m \<in> set ms. data_ok (m_Data m)"
  by (rule Records_keep [OF RecordMutation_field_data]) (simp_all add: zero_RecordMutation_def data_ok_def)

section \<open>What the loops do\<close>

definition part_of :: "int \<Rightarrow> string \<Rightarrow> int" where
  "part_of n pk = uint (Murmur2 pk) mod n"

definition produced :: "string \<Rightarrow> string \<Rightarrow> int \<Rightarrow> RecordMutation \<Rightarrow> krecord" where
  "produced op topic nMS m = \<lparr>kr_Key = m_Pk m,
     kr_Value = marshal_RecordMutation (m\<lparr>m_TsMs := nMS, m_Mutation := op\<rparr>), kr_Topic = topic\<rparr>"

lemma mutation_loop_ok:
  assumes n: "0 < a_NumPartitions A" "a_NumPartitions A \<le> 2 ^ 31"
  shows "\<forall>m \<in> set muts. \<forall>s. m_If m = Some s \<longrightarrow> VerifyIfStatement (a_X A) s = None \<Longrightarrow>
    grouped (\<lambda>r. part_of (a_NumPartitions A) (kr_Key r)) xs pm \<Longrightarrow>
    \<exists>pm'. mutation_loop A op topic nMS muts pm = Inr pm' \<and>
      grouped (\<lambda>r. part_of (a_NumPartitions A) (kr_Key r)) (xs @ map (produced op topic nMS) muts) pm'"
proof (induction muts arbitrary: xs pm)
  case (Cons m muts)
  have v: "(case m_If m of None \<Rightarrow> None | Some s \<Rightarrow> VerifyIfStatement (a_X A) s) = None"
    using Cons.prems(1) by (auto split: option.split)
  have "grouped (\<lambda>r. part_of (a_NumPartitions A) (kr_Key r)) (xs @ [produced op topic nMS m])
      (add_group (part_of (a_NumPartitions A) (m_Pk m)) (produced op topic nMS m) pm)"
    by (rule add_group_grouped [OF Cons.prems(2)]) (simp add: produced_def)
  from Cons.IH [OF _ this] Cons.prems(1) v n show ?case
    by (auto simp: GetPartition_pos part_of_def [symmetric] produced_def [symmetric] Let_def simp del: add_group.simps)
qed simp

lemma mutation_loop_bad:
  assumes n: "0 < a_NumPartitions A" "a_NumPartitions A \<le> 2 ^ 31"
  shows "m \<in> set muts \<Longrightarrow> m_If m = Some s \<Longrightarrow> VerifyIfStatement (a_X A) s \<noteq> None \<Longrightarrow>
    \<exists>t. mutation_loop A op topic nMS muts pm = Inl (Text 400 t)"
proof (induction muts arbitrary: pm)
  case (Cons m' muts)
  show ?case
  proof (cases "case m_If m' of None \<Rightarrow> None | Some s \<Rightarrow> VerifyIfStatement (a_X A) s")
    case None
    then have "m \<in> set muts" using Cons.prems by (auto split: option.splits)
    with Cons None n show ?thesis
      by (auto simp: GetPartition_pos Let_def simp del: add_group.simps)
  next
    case (Some e)
    then show ?thesis by (auto simp: Let_def)
  qed
qed simp

lemma bucket_loop_ok:
  assumes n: "0 < n" "n \<le> 2 ^ 31"
  shows "grouped (\<lambda>k. part_of n (Pk k)) ls l \<Longrightarrow> grouped (\<lambda>k. part_of n (Pk k)) rs r \<Longrightarrow>
    \<exists>l' r'. bucket_loop n loc keys (l, r) = Ok (l', r') \<and>
      grouped (\<lambda>k. part_of n (Pk k)) (ls @ filter (\<lambda>k. part_of n (Pk k) \<in> set loc) keys) l' \<and>
      grouped (\<lambda>k. part_of n (Pk k)) (rs @ filter (\<lambda>k. part_of n (Pk k) \<notin> set loc) keys) r'"
proof (induction keys arbitrary: ls l rs r)
  case (Cons k keys)
  let ?p = "part_of n (Pk k)"
  have p: "GetPartition n (Pk k) = Ok ?p" using n by (simp add: GetPartition_pos part_of_def)
  show ?case
  proof (cases "?p \<in> set loc")
    case True
    then show ?thesis
      using Cons.IH [OF add_group_grouped [OF Cons.prems(1) refl] Cons.prems(2), of k] p
      by (simp del: add_group.simps)
  next
    case False
    then show ?thesis
      using Cons.IH [OF Cons.prems(1) add_group_grouped [OF Cons.prems(2) refl], of k] p
      by (simp del: add_group.simps)
  qed
qed simp

text \<open>All keys local: the reply is what the node's partitions hold for them.\<close>

definition node_lookup :: "int \<Rightarrow> node \<Rightarrow> RecordKey \<Rightarrow> Record option" where
  "node_lookup n node k = (case node (part_of n (Pk k)) of
     None \<Rightarrow> None
   | Some st \<Rightarrow> map_option (\<lambda>r. Record_of r (Pk k) (Sk k)) (fst st (Pk k, Sk k)))"

lemma map_filter_eq: "(\<And>x. x \<in> set xs \<Longrightarrow> f x = g x) \<Longrightarrow> List.map_filter f xs = List.map_filter g xs"
  by (induction xs) (auto simp: List.map_filter_simps split: option.split)

lemma spec_read_lookup:
  assumes "\<forall>k \<in> set ks. part_of n (Pk k) = p"
  shows "(case node p of None \<Rightarrow> [] | Some st \<Rightarrow> spec_read (fst st) ks) = List.map_filter (node_lookup n node) ks"
proof (cases "node p")
  case None
  with assms have "List.map_filter (node_lookup n node) ks = List.map_filter (\<lambda>_. None :: Record option) ks"
    by (intro map_filter_eq) (simp add: node_lookup_def)
  with None show ?thesis by (simp add: map_filter_def)
next
  case (Some st)
  with assms have "List.map_filter (node_lookup n node) ks = spec_read (fst st) ks"
    unfolding spec_read_def by (intro map_filter_eq) (simp add: node_lookup_def)
  with Some show ?thesis by simp
qed

lemma map_filter_concat: "List.map_filter h (concat xss) = concat (map (List.map_filter h) xss)"
  by (induction xss) (auto simp: map_filter_def)

lemma grouped_lookup:
  assumes g: "grouped (\<lambda>k. part_of n (Pk k)) keys m"
  shows "mset (concat (map (\<lambda>(i, ks). case node i of None \<Rightarrow> [] | Some st \<Rightarrow> spec_read (fst st) ks) m)) =
    mset (List.map_filter (node_lookup n node) keys)"
proof -
  have "\<forall>k \<in> set ks. part_of n (Pk k) = i" if "(i, ks) \<in> set m" for i ks
    using grouped_entry [OF g that] by auto
  then have "map (\<lambda>(i, ks). case node i of None \<Rightarrow> [] | Some st \<Rightarrow> spec_read (fst st) ks) m =
      map (List.map_filter (node_lookup n node)) (map snd m)"
    unfolding map_map by (intro map_cong refl) (auto intro!: spec_read_lookup)
  then have "mset (concat (map (\<lambda>(i, ks). case node i of None \<Rightarrow> [] | Some st \<Rightarrow> spec_read (fst st) ks) m)) =
      mset (List.map_filter (node_lookup n node) (concat (map snd m)))"
    by (simp only: map_filter_concat)
  then show ?thesis using map_filter_mset [OF grouped_mset [OF g]] by simp
qed

lemma grouped_keys:
  "grouped f xs m \<Longrightarrow> (i, ks) \<in> set m \<Longrightarrow> k \<in> set ks \<Longrightarrow> k \<in> set xs"
  using grouped_entry by fastforce

lemma handleGet_bucketed:
  assumes "0 < a_NumPartitions A" and "a_NumPartitions A \<le> 2 ^ 31"
    and "dec_struct (Records_field RecordKey_field zero_RecordKey) w [] = Ok keys" and "keys \<noteq> []"
  obtains l r where
    "bucket_loop (a_NumPartitions A) (GetPartitionIDs pm) keys ([], []) = Ok (l, r)"
    "grouped (\<lambda>k. part_of (a_NumPartitions A) (Pk k))
       (filter (\<lambda>k. part_of (a_NumPartitions A) (Pk k) \<in> set (GetPartitionIDs pm)) keys) l"
    "grouped (\<lambda>k. part_of (a_NumPartitions A) (Pk k))
       (filter (\<lambda>k. part_of (a_NumPartitions A) (Pk k) \<notin> set (GetPartitionIDs pm)) keys) r"
    "ValidateRequest (Records_field RecordKey_field zero_RecordKey) [] (\<lambda>keys. length keys \<ge> 1) (Some w) = Ok keys"
proof -
  have "length keys \<ge> 1" using assms(4) by (cases keys) auto
  with bucket_loop_ok [OF assms(1,2) grouped_Nil grouped_Nil, of "GetPartitionIDs pm" keys] assms(3) that
  show ?thesis by (auto simp: ValidateRequest_def)
qed

lemma map_of_Nil_all: "\<forall>p. map_of m p = None \<Longrightarrow> m = []"
  by (cases m) (auto split: if_splits)

lemma handleGet_local_reads:
  assumes "badger_reliable (a_B A) db_map txn_map" and "pm_ok db_map pm"
    and n: "0 < a_NumPartitions A" "a_NumPartitions A \<le> 2 ^ 31"
    and dec: "dec_struct (Records_field RecordKey_field zero_RecordKey) w [] = Ok keys" "keys \<noteq> []"
    and here: "\<forall>k \<in> set keys. no_nul (Pk k) \<and> part_of (a_NumPartitions A) (Pk k) \<in> set (GetPartitionIDs pm)"
  shows "\<exists>rs. handleGet A pm gm (Some w) = JSON 200 rs \<and>
    mset rs = mset (List.map_filter (node_lookup (a_NumPartitions A) (abs_node db_map pm)) keys)"
proof -
  let ?n = "a_NumPartitions A"
  obtain l r where b: "bucket_loop ?n (GetPartitionIDs pm) keys ([], []) = Ok (l, r)"
    "grouped (\<lambda>k. part_of ?n (Pk k)) (filter (\<lambda>k. part_of ?n (Pk k) \<in> set (GetPartitionIDs pm)) keys) l"
    "grouped (\<lambda>k. part_of ?n (Pk k)) (filter (\<lambda>k. part_of ?n (Pk k) \<notin> set (GetPartitionIDs pm)) keys) r"
    "ValidateRequest (Records_field RecordKey_field zero_RecordKey) [] (\<lambda>keys. length keys \<ge> 1) (Some w) = Ok keys"
    by (rule handleGet_bucketed [OF n dec])
  have loc: "filter (\<lambda>k. part_of ?n (Pk k) \<in> set (GetPartitionIDs pm)) keys = keys" using here by (auto intro: filter_True)
  have "filter (\<lambda>k. part_of ?n (Pk k) \<notin> set (GetPartitionIDs pm)) keys = []" using here by (auto intro: filter_False)
  with b(3) have r: "r = []" by (auto simp: grouped_def intro: map_of_Nil_all)
  have l: "grouped (\<lambda>k. part_of ?n (Pk k)) keys l" using b(2) unfolding loc .
  have ne: "l \<noteq> []"
  proof
    assume "l = []"
    with l have "mset keys = {#}" using grouped_mset by fastforce
    with dec(2) show False by simp
  qed
  then have cap: "1 \<le> length l" by (cases l) auto
  have pks: "\<forall>(i, ks) \<in> set l. \<forall>k \<in> set ks. no_nul (Pk k)"
    using here grouped_keys [OF l] by blast
  have read: "pm_ReadRecords (a_B A) pm l [] = Ok (concat (map (\<lambda>(i, ks).
      case abs_node db_map pm i of None \<Rightarrow> [] | Some st \<Rightarrow> spec_read (fst st) ks) l))"
    using pm_ReadRecords_spec [OF assms(1,2) pks, of "[]"] by simp
  show ?thesis
    using b(1,4) r ne cap read grouped_lookup [OF l, of "abs_node db_map pm"]
    by (simp add: handleGet_def Let_def List.map_filter_def)
qed

section \<open>Properties\<close>


definition demo_api :: "(mem, mem, string, krecord list) api_env" where
  "demo_api = \<lparr>a_B = mem_badger, a_X = demo_expr, a_NumPartitions = 1, a_produce = (\<lambda>k rs. (None, k @ rs)),
     a_http = (\<lambda>url body. Inr (200, Doc (JObj []))), a_text = (\<lambda>_. []), a_rnd = (\<lambda>n. 0)\<rparr>"

definition demo_put_body :: "string option \<Rightarrow> wire" where
  "demo_put_body ifStmt = Doc (JObj [(''Records'', JArr [JObj [(''pk'', JStr ''pk1''), (''sk'', JStr ''a''),
     (''if'', (case ifStmt of None \<Rightarrow> JNull | Some s \<Rightarrow> JStr s))]])])"


text \<open>
  C19. A read of keys whose partitions are all on the node returns exactly the records the
  partitions hold for them (as a multiset: the partitions answer in no promised order).
\<close>

theorem handleGet_local:
  assumes "badger_reliable (a_B A) db_map txn_map" and "pm_ok db_map pm"
    and n: "0 < a_NumPartitions A" "a_NumPartitions A \<le> 2 ^ 31"
    and dec: "dec_struct (Records_field RecordKey_field zero_RecordKey) w [] = Ok keys" "keys \<noteq> []"
    and here: "\<forall>k \<in> set keys. no_nul (Pk k) \<and> part_of (a_NumPartitions A) (Pk k) \<in> set (GetPartitionIDs pm)"
  shows "\<exists>rs. handleGet A pm gm (Some w) = JSON 200 rs \<and>
    mset rs = mset (List.map_filter (node_lookup (a_NumPartitions A) (abs_node db_map pm)) keys)"
  by (rule handleGet_local_reads [OF assms])

definition demo_db_pm :: "mem PartitionManager" where
  "demo_db_pm = \<lparr>Partitions = [(0, demo_part demo_db None)], pm_Namespace = ''ns''\<rparr>"

lemma demo_db_pm_ok: "pm_ok map_of demo_db_pm"
  using demo_db_ok
  by (auto simp: pm_ok_def demo_db_pm_def map_ok_def Load_def demo_part_def part_ok_def abs_offset_def
      demo_db_def split: if_splits)

lemma demo_db_lookup:
  "abs_records (map_of demo_db) (''pk1'', ''a'') = Some \<lparr>Data = Some [(''v'', JStr ''1'')], CreatedAt = 5, UpdatedAt = 5\<rparr>"
proof -
  have "map_of demo_db (formatRecordKey ''pk1'' ''a'') = Some (demo_stored ''1'' 5 5)"
    by (simp add: demo_db_def key_defs)
  then show ?thesis by (simp add: abs_records_def no_nul_def NUL_def decode_Some)
qed

theorem handleGet_local_witness:
  "handleGet demo_api demo_db_pm None (Some (marshal_GetReq [\<lparr>Pk = ''pk1'', Sk = ''a''\<rparr>])) =
     JSON 200 [\<lparr>r_Pk = ''pk1'', r_Sk = ''a'', r_Data = Some [(''v'', JStr ''1'')], r_CreatedAt = 5, r_UpdatedAt = 5\<rparr>]"
proof -
  let ?key = "\<lparr>Pk = ''pk1'', Sk = ''a''\<rparr>"
  have A: "a_B demo_api = mem_badger" "a_NumPartitions demo_api = 1" by (simp_all add: demo_api_def)
  have dec: "dec_struct (Records_field RecordKey_field zero_RecordKey) (marshal_GetReq [?key]) [] = Ok [?key]"
    by code_simp
  have node: "abs_node map_of demo_db_pm 0 = Some (abs_store (map_of demo_db))"
    by (simp add: abs_node_def demo_db_pm_def Load_def demo_part_def)
  have look: "List.map_filter (node_lookup 1 (abs_node map_of demo_db_pm)) [?key] =
      [Record_of \<lparr>Data = Some [(''v'', JStr ''1'')], CreatedAt = 5, UpdatedAt = 5\<rparr> ''pk1'' ''a'']"
    by (simp add: List.map_filter_def node_lookup_def part_of_def node abs_store_def demo_db_lookup)
  have "\<forall>k \<in> set [?key]. no_nul (Pk k) \<and> part_of 1 (Pk k) \<in> set (GetPartitionIDs demo_db_pm)"
    by (simp add: no_nul_def NUL_def part_of_def GetPartitionIDs_map demo_db_pm_def)
  then obtain rs where "handleGet demo_api demo_db_pm None (Some (marshal_GetReq [?key])) = JSON 200 rs"
      "mset rs = mset (List.map_filter (node_lookup 1 (abs_node map_of demo_db_pm)) [?key])"
    using handleGet_local [of demo_api map_of map_of demo_db_pm "marshal_GetReq [?key]" "[?key]" None]
      mem.badger_reliable_axioms demo_db_pm_ok dec by (auto simp: A)
  then show ?thesis unfolding look by (simp add: Record_of_def)
qed

text \<open>
  A read of keys that are all on other nodes never returns, if every remote node answers:
  the node's own (empty) result fills a place in the channel that was not counted.
\<close>

lemma handleGet_remote_hangs:
  assumes n: "0 < a_NumPartitions A" "a_NumPartitions A \<le> 2 ^ 31"
    and dec: "dec_struct (Records_field RecordKey_field zero_RecordKey) w [] = Ok keys" "keys \<noteq> []"
    and away: "\<forall>k \<in> set keys. part_of (a_NumPartitions A) (Pk k) \<notin> set (GetPartitionIDs pm)
      \<and> getRemotePartitions rp (part_of (a_NumPartitions A) (Pk k)) \<noteq> []"
    and answers: "\<And>addr body. \<exists>r. doRemoteOperation A addr OperationGet body = Ok r"
  shows "handleGet A pm (Some rp) (Some w) = Hangs"
proof -
  let ?n = "a_NumPartitions A"
  obtain l r where b: "bucket_loop ?n (GetPartitionIDs pm) keys ([], []) = Ok (l, r)"
    "grouped (\<lambda>k. part_of ?n (Pk k)) (filter (\<lambda>k. part_of ?n (Pk k) \<in> set (GetPartitionIDs pm)) keys) l"
    "grouped (\<lambda>k. part_of ?n (Pk k)) (filter (\<lambda>k. part_of ?n (Pk k) \<notin> set (GetPartitionIDs pm)) keys) r"
    "ValidateRequest (Records_field RecordKey_field zero_RecordKey) [] (\<lambda>keys. length keys \<ge> 1) (Some w) = Ok keys"
    by (rule handleGet_bucketed [OF n dec])
  have none: "filter (\<lambda>k. part_of ?n (Pk k) \<in> set (GetPartitionIDs pm)) keys = []" using away by (auto intro: filter_False)
  have "filter (\<lambda>k. part_of ?n (Pk k) \<notin> set (GetPartitionIDs pm)) keys = keys" using away by (auto intro: filter_True)
  then have r: "grouped (\<lambda>k. part_of ?n (Pk k)) keys r" using b(3) by simp
  have l: "l = []" using b(2) unfolding none by (auto simp: grouped_def intro: map_of_Nil_all)
  have "\<exists>rs. remote_get A (Some rp) pk = Ok (Some rs)" if "pk \<in> set r" for pk
  proof -
    obtain p ks where pk: "pk = (p, ks)" by fastforce
    then have "filter (\<lambda>k. part_of ?n (Pk k) = p) keys \<noteq> []" using grouped_entry [OF r] that by blast
    then obtain k where "k \<in> set keys" "part_of ?n (Pk k) = p" by (auto simp: filter_empty_conv)
    then have "getRemotePartitions rp p \<noteq> []" using away by auto
    then obtain addr where "GetRandomRemotePartition (a_rnd A) rp p = Ok addr"
      by (simp add: GetRandomRemotePartition_def Let_def)
    with answers [of addr "marshal_GetReq ks"] pk show ?thesis by (auto simp: remote_get_def)
  qed
  then obtain f where f: "\<forall>pk \<in> set r. remote_get A (Some rp) pk = Ok (Some (f pk))" by metis
  then have outs: "map (remote_get A (Some rp)) r = map (\<lambda>pk. Ok (Some (f pk))) r" by simp
  show ?thesis
    using b(1,4) l f by (simp add: handleGet_def outs Let_def List.map_filter_def o_def image_iff)
qed

lemma handleGet_remote_hangs_example:
  "handleGet demo_api (NewPartitionManager ''ns'') (Some [(0, [''other:8190''])])
     (Some (Doc (JObj [(''Records'', JArr [JObj [(''pk'', JStr ''pk1''), (''sk'', JStr ''a'')]])]))) = Hangs"
proof (rule handleGet_remote_hangs [where keys = "[\<lparr>Pk = ''pk1'', Sk = ''a''\<rparr>]"])
  show "dec_struct (Records_field RecordKey_field zero_RecordKey)
      (Doc (JObj [(''Records'', JArr [JObj [(''pk'', JStr ''pk1''), (''sk'', JStr ''a'')]])])) [] =
      Ok [\<lparr>Pk = ''pk1'', Sk = ''a''\<rparr>]" by code_simp
qed (simp_all add: demo_api_def part_of_def getRemotePartitions_def GetPartitionIDs_map NewPartitionManager_def
    NewMap_def doRemoteOperation_def)

text \<open>
  A listing whose remote node fails is answered with 200 and an empty list.
\<close>

theorem handleList_swallows_remote_error:
  assumes "0 < a_NumPartitions A" and "a_NumPartitions A \<le> 2 ^ 31"
    and "dec_struct ListReq_field w zero_ListReq = Ok req" and "l_Limit req \<ge> 0"
    and "\<And>s. l_If req = Some s \<Longrightarrow> VerifyIfStatement (a_X A) s = None"
    and "part_of (a_NumPartitions A) (l_Pk req) \<notin> set (GetPartitionIDs pm)"
    and "GetRandomRemotePartition (a_rnd A) rp (part_of (a_NumPartitions A) (l_Pk req)) = Ok addr"
    and "doRemoteOperation A addr OperationList (marshal_ListReq req) = Err e"
  shows "handleList A pm (Some rp) (Some w) = JSON 200 []"
proof -
  have "(case l_If req of None \<Rightarrow> None | Some s \<Rightarrow> VerifyIfStatement (a_X A) s) = None"
    using assms(5) by (auto split: option.split)
  with assms show ?thesis
    by (simp add: handleList_def ValidateRequest_def GetPartition_pos part_of_def [symmetric])
qed

theorem handleList_swallows_remote_error_witness:
  "handleList (demo_api\<lparr>a_http := (\<lambda>_ _. Inr (500, Raw []))\<rparr>) (NewPartitionManager ''ns'') (Some [(0, [''other:8190''])])
     (Some (Doc (JObj [(''pk'', JStr ''pk1'')]))) = JSON 200 []"
proof -
  have "dec_struct ListReq_field (Doc (JObj [(''pk'', JStr ''pk1'')])) zero_ListReq = Ok (zero_ListReq\<lparr>l_Pk := ''pk1''\<rparr>)"
    by code_simp
  then show ?thesis
    by (rule handleList_swallows_remote_error [rotated 2, where addr = "''other:8190''" and e = ErrHighStatusCode])
      (simp_all add: demo_api_def zero_ListReq_def part_of_def GetPartitionIDs_map NewPartitionManager_def NewMap_def
        GetRandomRemotePartition_def getRemotePartitions_def doRemoteOperation_def Let_def)
qed

end
