(* ===== verification/Server.thy ===== *)
theory Server
  imports Api
begin

text \<open>
  The two HTTP servers of a node: \<^verbatim>\<open>api/http_server.go\<close> with its middleware, its routes and the
  deadline of a request, and \<^verbatim>\<open>internal/http_server.go\<close>. The router, the other middleware (log,
  CORS, compression) and the handlers of the profiler and of the metrics are the libraries'.
\<close>

section \<open>Contexts\<close>

text \<open>
  What the code uses of a \<^verbatim>\<open>context.Context\<close>: its deadline (in nanoseconds, \<open>None\<close> without one) and
  whether it is cancelled. A derived context keeps an earlier deadline of its parent.
\<close>

record ctx =
  c_Deadline :: "int option"
  c_Cancelled :: bool

definition Background :: ctx where
  "Background = \<lparr>c_Deadline = None, c_Cancelled = False\<rparr>"

definition WithTimeout :: "int \<Rightarrow> int \<Rightarrow> ctx \<Rightarrow> ctx" where
  "WithTimeout now timeout parent =
     parent\<lparr>c_Deadline := Some (case c_Deadline parent of None \<Rightarrow> now + timeout | Some d \<Rightarrow> min d (now + timeout))\<rparr>"

definition cancelled :: "ctx \<Rightarrow> ctx" where
  "cancelled c = c\<lparr>c_Cancelled := True\<rparr>"

section \<open>Middleware and routes\<close>

text \<open>
  A handler is a function of the request's context; it returns its result and the context the
  request has afterwards. The timeout gives the rest of the chain a context with a deadline, which
  is cancelled when the handler has returned. It does not end a handler that does not look at it.
\<close>

datatype middleware = LoggerWithConfig | CORS | Gzip | Timeout int

definition NewTimeoutMiddleware :: "int \<Rightarrow> (int \<Rightarrow> ctx \<Rightarrow> 'r \<times> ctx) \<Rightarrow> int \<Rightarrow> ctx \<Rightarrow> 'r \<times> ctx" where
  "NewTimeoutMiddleware timeout handler now c =
     (case handler now (WithTimeout now timeout c) of (r, c') \<Rightarrow> (r, cancelled c'))"

fun apply_middleware :: "middleware list \<Rightarrow> (int \<Rightarrow> ctx \<Rightarrow> 'r \<times> ctx) \<Rightarrow> int \<Rightarrow> ctx \<Rightarrow> 'r \<times> ctx" where
  "apply_middleware [] handler now c = handler now c"
| "apply_middleware (Timeout timeout # ms) handler now c =
     NewTimeoutMiddleware timeout (apply_middleware ms handler) now c"
| "apply_middleware (_ # ms) handler now c = apply_middleware ms handler now c"

datatype route = UpRoute | ReadyRoute | OperationRoute

record ('db, 'q) HTTPServer =
  s_pm :: "'db PartitionManager"
  s_lc :: LogConsumer
  s_gm :: "'q GossipManager option"
  s_Listener :: string
  s_middleware :: "middleware list"
  s_routes :: "(string \<times> string \<times> route) list"

text \<open>\<open>listen\<close> is the error of \<^verbatim>\<open>net.Listen\<close>.\<close>

definition StartServer :: "(string \<Rightarrow> go_error option) \<Rightarrow> string \<Rightarrow> 'db PartitionManager \<Rightarrow> LogConsumer \<Rightarrow> 'q GossipManager option \<Rightarrow>
    ('db, 'q) HTTPServer go" where
  "StartServer listen port pm lc gm =
     (case listen ('':'' @ port) of
        Some e \<Rightarrow> Err e
      | None \<Rightarrow> Ok \<lparr>s_pm = pm, s_lc = lc, s_gm = gm, s_Listener = '':'' @ port,
          s_middleware = [LoggerWithConfig, CORS, Gzip, Timeout (30 * 10 ^ 9)],
          s_routes = [(''GET'', ''/up'', UpRoute), (''GET'', ''/ready'', ReadyRoute), (''POST'', ''/records/:op'', OperationRoute)]\<rparr>)"

text \<open>
  The goroutine that serves: an error other than the one of a server that was closed ends the
  program (\<open>True\<close>).
\<close>

definition http_ErrServerClosed :: go_error where
  "http_ErrServerClosed = External ''http: Server closed''"

definition serving_ends_program :: "go_error option \<Rightarrow> bool" where
  "serving_ends_program err = (case err of None \<Rightarrow> False | Some e \<Rightarrow> e \<noteq> http_ErrServerClosed)"

text \<open>
  What a matched route does, with the value of \<^verbatim>\<open>:op\<close>; the calls to the outside (\<open>A\<close>) are made with
  the request's context.
\<close>

definition handle_route :: "(ctx \<Rightarrow> ('db, 'txn, 'prog, 'k) api_env) \<Rightarrow> ('db, 'q) HTTPServer \<Rightarrow> route \<Rightarrow> string \<Rightarrow> int \<Rightarrow>
    wire option \<Rightarrow> 'k \<Rightarrow> ctx \<Rightarrow> reply \<times> 'k" where
  "handle_route A srv route operation nMS body k c =
     (case route of
        UpRoute \<Rightarrow> (Up, k)
      | ReadyRoute \<Rightarrow> (Ready_handler (s_lc srv), k)
      | OperationRoute \<Rightarrow> operationHandler (A c) (s_pm srv) (map_option g_remotePartitions (s_gm srv))
          (MutationTopic (s_lc srv)) nMS operation body k)"

definition serve :: "(ctx \<Rightarrow> ('db, 'txn, 'prog, 'k) api_env) \<Rightarrow> ('db, 'q) HTTPServer \<Rightarrow> route \<Rightarrow> string \<Rightarrow> int \<Rightarrow> int \<Rightarrow>
    wire option \<Rightarrow> 'k \<Rightarrow> ctx \<Rightarrow> (reply \<times> 'k) \<times> ctx" where
  "serve A srv route operation now nMS body k =
     apply_middleware (s_middleware srv) (\<lambda>_ c. (handle_route A srv route operation nMS body k c, c)) now"

text \<open>\<open>shutdown\<close> is the error of the library's \<^verbatim>\<open>Shutdown\<close> with a context, here and below.\<close>

definition api_Shutdown :: "(ctx \<Rightarrow> go_error option) \<Rightarrow> ctx \<Rightarrow> unit go" where
  "api_Shutdown shutdown c = (case shutdown c of Some e \<Rightarrow> Err e | None \<Rightarrow> Ok ())"

section \<open>The internal server\<close>

text \<open>
  The server is kept in a variable of the package. Starting it never fails: it listens in a
  goroutine of its own, where an address that is in use ends the program.
\<close>

datatype internal_handler = PromHTTP | PprofIndex | PprofCmdline | PprofProfile | PprofSymbol | PprofTrace | PprofNamed string

record internal_server =
  is_Addr :: string
  is_Handler :: "(string \<times> internal_handler) list"

definition internal_StartServer :: "string \<Rightarrow> unit go \<times> internal_server option" where
  "internal_StartServer port = (Ok (), Some \<lparr>is_Addr = '':'' @ port,
     is_Handler = [(''/metrics'', PromHTTP), (''/debug/pprof/'', PprofIndex), (''/debug/pprof/cmdline'', PprofCmdline),
       (''/debug/pprof/profile'', PprofProfile), (''/debug/pprof/symbol'', PprofSymbol), (''/debug/pprof/trace'', PprofTrace),
       (''/debug/pprof/block'', PprofNamed ''block''), (''/debug/pprof/mutex'', PprofNamed ''mutex'')]\<rparr>)"

definition listening_ends_program :: "string \<Rightarrow> bool" where
  "listening_ends_program err_text = sublist ''address already in use'' err_text"

definition internal_Shutdown :: "internal_server option \<Rightarrow> (ctx \<Rightarrow> go_error option) \<Rightarrow> ctx \<Rightarrow> unit go" where
  "internal_Shutdown httpServer shutdown c =
     (case httpServer of
        Some _ \<Rightarrow> (case shutdown c of Some e \<Rightarrow> Err e | None \<Rightarrow> Ok ())
      | None \<Rightarrow> Ok ())"

section \<open>Lemmas\<close>

text \<open>The mux registers no pattern twice (the library panics if it does).\<close>

lemma internal_patterns_distinct:
  "distinct (map fst (is_Handler (the (snd (internal_StartServer port)))))"
  by (simp add: internal_StartServer_def)

lemma WithTimeout_deadline: "\<exists>d. c_Deadline (WithTimeout now timeout c) = Some d \<and> d \<le> now + timeout \<and>
    (\<forall>d0. c_Deadline c = Some d0 \<longrightarrow> d \<le> d0)"
  by (auto simp: WithTimeout_def split: option.split)

lemma serve_eq:
  assumes "StartServer listen port pm lc gm = Ok srv"
  shows "serve A srv route operation now nMS body k c =
    (handle_route A srv route operation nMS body k (WithTimeout now (30 * 10 ^ 9) c), cancelled (WithTimeout now (30 * 10 ^ 9) c))"
  using assms by (auto simp: StartServer_def serve_def NewTimeoutMiddleware_def split: option.splits)

section \<open>Properties\<close>

text \<open>
  C30. Every request is handled once, with a context that ends at most 30 seconds after it came in
  and not after the context of its connection; what the handler replies is what is answered, and
  the context is cancelled then.
\<close>

theorem serve_within_deadline:
  assumes "StartServer listen port pm lc gm = Ok srv"
  shows "\<exists>c' d. serve A srv route operation now nMS body k c = (handle_route A srv route operation nMS body k c', cancelled c') \<and>
    c_Deadline c' = Some d \<and> d \<le> now + 30 * 10 ^ 9 \<and> (\<forall>d0. c_Deadline c = Some d0 \<longrightarrow> d \<le> d0)"
  using WithTimeout_deadline [of now "30 * 10 ^ 9" c] unfolding serve_eq [OF assms] by blast

definition demo_consumer :: LogConsumer where
  "demo_consumer = \<lparr>ConsumerGroup = ''g'', lc_Namespace = ''ns'', MutationTopic = ''t'', NumPartitions = 1, Ready = True,
     shuttingDown = False\<rparr>"

definition demo_gossip :: "wire list GossipManager" where
  "demo_gossip = \<lparr>g_Node = \<lparr>node_ID = ''me:8190'', AdvertiseAddress = [], AdvertisePort = []\<rparr>, g_broadcasts = Some [],
     g_remotePartitions = [(0, [''other:8190''])], g_items = []\<rparr>"

theorem serve_within_deadline_witness:
  "\<exists>srv c'. StartServer (\<lambda>_. None) ''8190'' demo_pm demo_consumer (None :: wire list GossipManager option) = Ok srv \<and>
     serve (\<lambda>_. demo_api) srv UpRoute [] 5 5 None [] Background = ((Text 200 ''ok'', []), cancelled c') \<and>
     (\<exists>d. c_Deadline c' = Some d \<and> d \<le> 30000000005)"
proof -
  obtain srv where srv: "StartServer (\<lambda>_. None) ''8190'' demo_pm demo_consumer (None :: wire list GossipManager option) = Ok srv"
    by (simp add: StartServer_def)
  from serve_within_deadline [OF srv, where A = "\<lambda>_. demo_api" and route = UpRoute and operation = "[]" and now = 5 and nMS = 5
      and body = None and k = "[]" and c = Background] srv
  show ?thesis by (auto simp: handle_route_def Up_def)
qed

text \<open>
  C31. The timeout does not help a request that hangs: a read of keys that are all on other nodes
  never returns, if every remote node answers, because the node's own (empty) result fills a
  place in the channel that was not counted, and no context is consulted where it blocks.
\<close>

theorem remote_get_hangs_despite_timeout:
  assumes srv: "StartServer listen port pm lc (Some gm) = Ok srv"
    and n: "\<And>c. a_NumPartitions (A c) = n" "0 < n" "n \<le> 2 ^ 31"
    and dec: "dec_struct (Records_field RecordKey_field zero_RecordKey) w [] = Ok keys" "keys \<noteq> []"
    and away: "\<forall>k \<in> set keys. part_of n (Pk k) \<notin> set (GetPartitionIDs pm)
      \<and> getRemotePartitions (g_remotePartitions gm) (part_of n (Pk k)) \<noteq> []"
    and answers: "\<And>c addr body. \<exists>r. doRemoteOperation (A c) addr OperationGet body = Ok r"
  shows "fst (fst (serve A srv OperationRoute OperationGet now nMS (Some w) k c)) = Hangs"
proof -
  have parts: "s_pm srv = pm" "s_gm srv = Some gm" using srv by (auto simp: StartServer_def split: option.splits)
  have "handleGet (A c') pm (Some (g_remotePartitions gm)) (Some w) = Hangs" for c'
    by (rule handleGet_remote_hangs [OF _ _ dec _ answers]) (use n away in simp_all)
  then show ?thesis
    unfolding serve_eq [OF srv] by (simp add: handle_route_def parts operationHandler_def operation_defs)
qed

theorem remote_get_hangs_despite_timeout_witness:
  "\<exists>srv. StartServer (\<lambda>_. None) ''8190'' (NewPartitionManager ''ns'') demo_consumer (Some demo_gossip) = Ok srv \<and>
     fst (fst (serve (\<lambda>_. demo_api) srv OperationRoute ''get'' 5 5 (Some (marshal_GetReq [\<lparr>Pk = ''pk1'', Sk = ''a''\<rparr>])) [] Background)) = Hangs"
proof -
  obtain srv :: "(mem, wire list) HTTPServer" where
    srv: "StartServer (\<lambda>_. None) ''8190'' (NewPartitionManager ''ns'') demo_consumer (Some demo_gossip) = Ok srv"
    by (simp add: StartServer_def)
  have dec: "dec_struct (Records_field RecordKey_field zero_RecordKey) (marshal_GetReq [\<lparr>Pk = ''pk1'', Sk = ''a''\<rparr>]) [] =
      Ok [\<lparr>Pk = ''pk1'', Sk = ''a''\<rparr>]" by code_simp
  have "fst (fst (serve (\<lambda>_. demo_api) srv OperationRoute OperationGet 5 5 (Some (marshal_GetReq [\<lparr>Pk = ''pk1'', Sk = ''a''\<rparr>])) [] Background)) = Hangs"
    by (rule remote_get_hangs_despite_timeout [OF srv _ _ _ dec, of _ 1])
      (simp_all add: demo_api_def part_of_def getRemotePartitions_def demo_gossip_def GetPartitionIDs_map NewPartitionManager_def
        NewMap_def doRemoteOperation_def)
  with srv show ?thesis by (auto simp: OperationGet_def)
qed

end
