(* ===== verification/Node.thy ===== *)
theory Node
  imports Server
begin

text \<open>
  \<^verbatim>\<open>utils/env.go\<close> and \<^verbatim>\<open>main.go\<close>: the configuration of a node, read once from the
  environment, how its parts are started, and how they are stopped after a signal.
\<close>

section \<open>Configuration\<close>

record config =
  Env_SleepSeconds :: int
  Env_Namespace :: string
  Env_ReplicaGroupName :: string
  Env_Region :: string
  Env_InstanceID :: string
  Env_KafkaSessionMs :: int
  Env_NumPartitions :: int
  Env_KafkaSeeds :: string
  Env_KafkaUsername :: string
  Env_KafkaPassword :: string
  Env_KafkaTLS :: bool
  Env_KafkaTLSCAPath :: string
  Env_APIPort :: string
  Env_InternalPort :: string
  Env_GossipPort :: int
  Env_AdvertiseAddr :: string
  Env_GossipPeers :: string
  Env_GossipBroadcastMS :: int
  Env_GCIntervalMs :: int
  Env_DBPath :: string
  Env_BackupEnabled :: bool
  Env_S3RestoreEnabled :: bool
  Env_BackupIntervalSec :: int
  Env_BackupTimeoutSec :: int
  Env_BackupS3Endpoint :: string
  Env_BackupS3Bucket :: string
  Env_BackupS3Region :: string
  Env_BackupS3AccessKeyID :: string
  Env_BackupS3SecretAccessKey :: string
  Env_Debug :: bool
  Env_BadgerDebug :: bool
  Env_GossipDebug :: bool
  Env_Profile :: bool

text \<open>The variables are initialised in order; the first that is missing ends the program.\<close>

definition load_env :: "environ \<Rightarrow> config option" where
  "load_env env =
     Option.bind (MustEnvOrDefaultInt64 env ''SHUTDOWN_SLEEP_SEC'' 0) (\<lambda>sleep.
     Option.bind (MustEnv env ''NAMESPACE'') (\<lambda>ns.
     Option.bind (MustEnv env ''REPLICA_GROUP'') (\<lambda>rg.
     Option.bind (MustEnv env ''REGION'') (\<lambda>region.
     Option.bind (MustEnv env ''INSTANCE_ID'') (\<lambda>inst.
     Option.bind (MustEnvOrDefaultInt64 env ''KAFKA_SESSION_MS'' 60000) (\<lambda>session.
     Option.bind (MustEnvInt64 env ''PARTITIONS'') (\<lambda>parts.
     Option.bind (MustEnv env ''KAFKA_SEEDS'') (\<lambda>seeds.
     Option.bind (MustEnvOrDefaultInt64 env ''GOSSIP_PORT'' 8192) (\<lambda>gport.
     Option.bind (MustEnvOrDefaultInt64 env ''GOSSIP_BROADCAST_MS'' 1000) (\<lambda>bms.
     Option.bind (MustEnvOrDefaultInt64 env ''GC_INTERVAL_MS'' (60000 * 5)) (\<lambda>gcms.
     Option.bind (MustEnvOrDefaultInt64 env ''BACKUP_INTERVAL_SEC'' (60000 * 12)) (\<lambda>bint.
     Option.bind (MustEnvOrDefaultInt64 env ''BACKUP_TIMEOUT_SEC'' 120) (\<lambda>btime.
       Some \<lparr>Env_SleepSeconds = sleep, Env_Namespace = ns, Env_ReplicaGroupName = rg, Env_Region = region,
         Env_InstanceID = inst, Env_KafkaSessionMs = session, Env_NumPartitions = parts, Env_KafkaSeeds = seeds,
         Env_KafkaUsername = Getenv env ''KAFKA_USER'', Env_KafkaPassword = Getenv env ''KAFKA_PASS'',
         Env_KafkaTLS = (Getenv env ''KAFKA_TLS'' = ''1''), Env_KafkaTLSCAPath = Getenv env ''KAFKA_TLS_CA_PATH'',
         Env_APIPort = EnvOrDefault env ''API_PORT'' ''8190'',
         Env_InternalPort = EnvOrDefault env ''INTERNAL_PORT'' ''8191'', Env_GossipPort = gport,
         Env_AdvertiseAddr = Getenv env ''ADVERTISE_ADDR'', Env_GossipPeers = Getenv env ''GOSSIP_PEERS'',
         Env_GossipBroadcastMS = bms, Env_GCIntervalMs = gcms,
         Env_DBPath = EnvOrDefault env ''DB_PATH'' ''/var/firescroll/dbs'',
         Env_BackupEnabled = (Getenv env ''BACKUP'' = ''1''), Env_S3RestoreEnabled = (Getenv env ''S3_RESTORE'' = ''1''),
         Env_BackupIntervalSec = bint, Env_BackupTimeoutSec = btime,
         Env_BackupS3Endpoint = Getenv env ''S3_ENDPOINT'', Env_BackupS3Bucket = Getenv env ''S3_BUCKET'',
         Env_BackupS3Region = Getenv env ''AWS_REGION'', Env_BackupS3AccessKeyID = Getenv env ''AWS_ACCESS_KEY_ID'',
         Env_BackupS3SecretAccessKey = Getenv env ''AWS_SECRET_ACCESS_KEY'',
         Env_Debug = (Getenv env ''DEBUG'' = ''1''), Env_BadgerDebug = (Getenv env ''BADGER_DEBUG'' = ''1''),
         Env_GossipDebug = (Getenv env ''GOSSIP_DEBUG'' = ''1''), Env_Profile = (Getenv env ''PROFILE'' = ''1'')\<rparr>)))))))))))))"

text \<open>The variables that must be set, and those that are read as numbers.\<close>

definition required_vars :: "string list" where
  "required_vars = [''NAMESPACE'', ''REPLICA_GROUP'', ''REGION'', ''INSTANCE_ID'', ''PARTITIONS'', ''KAFKA_SEEDS'']"

definition number_vars :: "string list" where
  "number_vars = [''SHUTDOWN_SLEEP_SEC'', ''KAFKA_SESSION_MS'', ''PARTITIONS'', ''GOSSIP_PORT'', ''GOSSIP_BROADCAST_MS'',
     ''GC_INTERVAL_MS'', ''BACKUP_INTERVAL_SEC'', ''BACKUP_TIMEOUT_SEC'']"

definition env_ok :: "environ \<Rightarrow> bool" where
  "env_ok env \<longleftrightarrow> list_all (\<lambda>k. Getenv env k \<noteq> []) required_vars \<and>
     list_all (\<lambda>k. Getenv env k = [] \<or> ParseInt (Getenv env k) \<noteq> None) number_vars"

definition config_numbers :: "config \<Rightarrow> int list" where
  "config_numbers c = [Env_SleepSeconds c, Env_KafkaSessionMs c, Env_NumPartitions c, Env_GossipPort c,
     Env_GossipBroadcastMS c, Env_GCIntervalMs c, Env_BackupIntervalSec c, Env_BackupTimeoutSec c]"

definition config_strings :: "config \<Rightarrow> string list" where
  "config_strings c = [Env_Namespace c, Env_ReplicaGroupName c, Env_Region c, Env_InstanceID c, Env_KafkaSeeds c,
     Env_APIPort c, Env_InternalPort c, Env_DBPath c]"

section \<open>Starting\<close>

record ('db, 'q) node_parts =
  n_internal :: "internal_server option"
  n_pm :: "'db PartitionManager"
  n_lc :: LogConsumer
  n_gm :: "'q GossipManager option"
  n_api :: "('db, 'q) HTTPServer"

text \<open>
  What \<^verbatim>\<open>main\<close> meets from outside: the error of creating the file of the profiler, the Kafka client
  with the two polls and the produce of \<open>NewLogConsumer\<close>, the membership library with what its
  callbacks do while the node joins and the errors of \<^verbatim>\<open>Leave\<close> and \<^verbatim>\<open>Shutdown\<close>, \<^verbatim>\<open>net.Listen\<close>, and the \<^verbatim>\<open>Shutdown\<close> of the two servers.
\<close>

record 'q main_env =
  me_create :: "go_error option"
  me_kafka :: kafka_lib
  me_polls :: "poll \<times> poll"
  me_produce :: "wire \<Rightarrow> go_error option"
  me_memberlist :: "'q memberlist_lib"
  me_callbacks :: "'q GossipManager \<Rightarrow> 'q GossipManager"
  me_listen :: "string \<Rightarrow> go_error option"
  me_Leave :: "go_error option"
  me_ml_Shutdown :: "go_error option"
  me_internal_Shutdown :: "ctx \<Rightarrow> go_error option"
  me_api_Shutdown :: "ctx \<Rightarrow> go_error option"

definition kafka_env_of :: "config \<Rightarrow> kafka_env" where
  "kafka_env_of cfg = \<lparr>ke_InstanceID = Env_InstanceID cfg, ke_Username = Env_KafkaUsername cfg,
     ke_Password = Env_KafkaPassword cfg, ke_TLS = Env_KafkaTLS cfg, ke_TLSCAPath = Env_KafkaTLSCAPath cfg\<rparr>"

text \<open>The profiler, if asked for; without its file the program panics.\<close>

definition start_profile :: "config \<Rightarrow> go_error option \<Rightarrow> bool go" where
  "start_profile cfg create =
     (if Env_Profile cfg then (case create of Some _ \<Rightarrow> Panic | None \<Rightarrow> Ok True) else Ok False)"

text \<open>
  The internal server, the log consumer and the gossip manager start side by side; if one of
  them fails the program ends (\<open>Err\<close>). Then the API server is started.
\<close>

definition start_node :: "config \<Rightarrow> 'q main_env \<Rightarrow> ('db, 'q) node_parts go" where
  "start_node cfg M =
     (let pm = NewPartitionManager (Env_Namespace cfg);
          (internal, http) = internal_StartServer (Env_InternalPort cfg);
          lc = fst (NewLogConsumer (Env_NumPartitions cfg) (me_kafka M) (kafka_env_of cfg) (Env_Namespace cfg)
                 (Env_Region cfg @ ''__'' @ Env_ReplicaGroupName cfg) (split_str '','' (Env_KafkaSeeds cfg))
                 (Env_KafkaSessionMs cfg) (fst (me_polls M)) (snd (me_polls M)) (me_produce M));
          gm = NewGossipManager (me_memberlist M) (Env_GossipPort cfg) (Env_GossipDebug cfg) (Env_AdvertiseAddr cfg) (Env_ReplicaGroupName cfg)
                 (Env_GossipPeers cfg) (me_callbacks M) pm
      in bind_go internal (\<lambda>_. bind_go lc (\<lambda>lc. bind_go gm (\<lambda>gm.
           bind_go (StartServer (me_listen M) (Env_APIPort cfg) pm lc gm) (\<lambda>srv.
             Ok \<lparr>n_internal = http, n_pm = pm, n_lc = lc, n_gm = gm, n_api = srv\<rparr>)))))"

section \<open>Stopping\<close>

text \<open>
  \<^verbatim>\<open>Manager.Shutdown\<close> of the gossip manager: leave the cluster, then shut the library down.
  (Its ticker and its channel are in \<open>Loops\<close>.)
\<close>

definition gm_Shutdown :: "go_error option \<Rightarrow> go_error option \<Rightarrow> unit go" where
  "gm_Shutdown leave shutdown =
     (case leave of Some e \<Rightarrow> Err e | None \<Rightarrow> (case shutdown of Some e \<Rightarrow> Err e | None \<Rightarrow> Ok ()))"

text \<open>\<^verbatim>\<open>time.Second * time.Duration(n)\<close>, in nanoseconds; a negative sleep is none.\<close>

definition seconds :: "int \<Rightarrow> int" where
  "seconds n = wrap64 (10 ^ 9 * n)"

definition shutdown_sleep :: "config \<Rightarrow> int" where
  "shutdown_sleep cfg = (if Env_SleepSeconds cfg > 0 then max 0 (seconds (Env_SleepSeconds cfg)) else 0)"

text \<open>The context of the shutdown: the time that was slept is given to the servers once more.\<close>

definition shutdown_ctx :: "config \<Rightarrow> int \<Rightarrow> ctx" where
  "shutdown_ctx cfg now = WithTimeout (now + shutdown_sleep cfg) (seconds (Env_SleepSeconds cfg)) Background"

text \<open>
  How a run ends. An error of the gossip manager is logged; of the other four (the two servers,
  the partition manager and the log consumer) one error makes the exit code 1, after all have
  been waited for; a panic in one of their goroutines ends the program with code 2. Only a return
  from \<^verbatim>\<open>main\<close> runs what is deferred, which writes the profile.
\<close>

record 'db main_end =
  end_code :: int
  end_disk :: "'db disk"
  end_lc :: LogConsumer
  end_gossip :: "unit go"
  end_profile_written :: bool

definition stop_node :: "('db, 'txn, 's3, 'bk) node_env \<Rightarrow> 'q main_env \<Rightarrow> config \<Rightarrow> int \<Rightarrow> ('db, 'q) node_parts \<Rightarrow> 'db disk \<Rightarrow>
    'db main_end" where
  "stop_node E M cfg now nd disk =
     (let gossip = (if n_gm nd = None then Ok () else gm_Shutdown (me_Leave M) (me_ml_Shutdown M));
          c = shutdown_ctx cfg now;
          internal = internal_Shutdown (n_internal nd) (me_internal_Shutdown M) c;
          api = api_Shutdown (me_api_Shutdown M) c;
          (pm, disk') = pm_Shutdown E (n_pm nd) disk;
          (lc, lc') = lc_Shutdown (n_lc nd);
          code = (if Panic \<in> {internal, api, pm, lc} then 2 else if {internal, api, pm, lc} \<subseteq> {Ok ()} then 0 else 1)
      in \<lparr>end_code = code, end_disk = disk', end_lc = lc', end_gossip = gossip,
          end_profile_written = (Env_Profile cfg \<and> code = 0)\<rparr>)"

text \<open>
  \<^verbatim>\<open>main\<close>: \<open>serving\<close> is what the node does from the start to the signal, which comes at \<open>now\<close>.
\<close>

definition run_main :: "('db, 'txn, 's3, 'bk) node_env \<Rightarrow> 'q main_env \<Rightarrow> config \<Rightarrow>
    (('db, 'q) node_parts \<Rightarrow> 'db disk \<Rightarrow> ('db, 'q) node_parts \<times> 'db disk) \<Rightarrow> int \<Rightarrow> 'db disk \<Rightarrow> 'db main_end go" where
  "run_main E M cfg serving now disk =
     bind_go (start_profile cfg (me_create M)) (\<lambda>_.
       bind_go (start_node cfg M) (\<lambda>nd.
         case serving nd disk of (nd', disk') \<Rightarrow> Ok (stop_node E M cfg now nd' disk')))"

lemma start_node_agrees:
  assumes "start_node cfg M = Ok nd"
  shows "NumPartitions (n_lc nd) = Env_NumPartitions cfg \<and> GetPartitionIDs (n_pm nd) = [] \<and> n_internal nd \<noteq> None"
  using assms
  by (auto simp: start_node_def internal_StartServer_def Let_def bind_go_Ok_iff NewPartitionManager_def GetPartitionIDs_map NewMap_def
      split: option.splits)
    (metis NewLogConsumer_reads_first prod.collapse)+

text \<open>With the default of no sleep the servers get no time to finish their requests.\<close>

lemma default_gives_no_time:
  assumes "load_env env = Some cfg" and "Getenv env ''SHUTDOWN_SLEEP_SEC'' = []"
  shows "c_Deadline (shutdown_ctx cfg now) = Some now"
proof -
  have "Env_SleepSeconds cfg = 0"
    using assms unfolding load_env_def bind_eq_Some_conv MustEnvOrDefaultInt64_def by (elim exE conjE) (drule sym, simp add: Let_def)
  then show ?thesis by (simp add: shutdown_ctx_def WithTimeout_def Background_def shutdown_sleep_def seconds_def int64_range_def)
qed

lemma stop_node_ends:
  assumes close: "\<And>d. env_close E d = None" and ok: "pm_ok db_map (n_pm nd)" and int: "n_internal nd \<noteq> None"
  shows "end_code (stop_node E M cfg now nd disk) =
      (if me_internal_Shutdown M (shutdown_ctx cfg now) = None \<and> me_api_Shutdown M (shutdown_ctx cfg now) = None then 0 else 1) \<and>
    (\<forall>i p. Load (Partitions (n_pm nd)) i = Some p \<longrightarrow>
      end_disk (stop_node E M cfg now nd disk) (getPartitionPath i) = Some (DB p)) \<and>
    shuttingDown (end_lc (stop_node E M cfg now nd disk))"
proof -
  obtain disk' where "pm_Shutdown E (n_pm nd) disk = (Ok (), disk')"
    "\<forall>i p. Load (Partitions (n_pm nd)) i = Some p \<longrightarrow> disk' (getPartitionPath i) = Some (DB p)"
    using pm_Shutdown_Ok [OF close ok, of disk] by blast
  with int show ?thesis
    by (auto simp: stop_node_def Let_def lc_Shutdown_def internal_Shutdown_def api_Shutdown_def split: option.splits)
qed

section \<open>Properties\<close>

lemma ParseInt_range: "ParseInt s = Some i \<Longrightarrow> int64_range i"
  by (auto simp: ParseInt_def Let_def split: prod.splits option.splits if_splits)

lemma readers_set:
  "MustEnv env k = Some s \<Longrightarrow> Getenv env k \<noteq> []"
  "MustEnvInt64 env k = Some i \<Longrightarrow> Getenv env k \<noteq> []"
  "MustEnvInt64 env k = Some i \<Longrightarrow> Getenv env k = [] \<or> ParseInt (Getenv env k) \<noteq> None"
  "MustEnvOrDefaultInt64 env k d = Some i \<Longrightarrow> Getenv env k = [] \<or> ParseInt (Getenv env k) \<noteq> None"
  by (auto simp: MustEnv_def MustEnvInt64_def MustEnvOrDefaultInt64_def Let_def split: if_splits)

lemma readers_typed:
  "MustEnv env k = Some s \<Longrightarrow> s \<noteq> []"
  "MustEnvInt64 env k = Some i \<Longrightarrow> int64_range i"
  "MustEnvOrDefaultInt64 env k d = Some i \<Longrightarrow> int64_range d \<Longrightarrow> int64_range i"
  by (auto simp: MustEnv_def MustEnvInt64_def MustEnvOrDefaultInt64_def Let_def dest: ParseInt_range split: if_splits)

lemma readers_total:
  "env_ok env \<Longrightarrow> k \<in> set required_vars \<Longrightarrow> \<exists>s. MustEnv env k = Some s"
  "env_ok env \<Longrightarrow> k \<in> set required_vars \<Longrightarrow> k \<in> set number_vars \<Longrightarrow> \<exists>i. MustEnvInt64 env k = Some i"
  "env_ok env \<Longrightarrow> k \<in> set number_vars \<Longrightarrow> \<exists>i. MustEnvOrDefaultInt64 env k d = Some i"
  by (auto simp: env_ok_def list_all_iff MustEnv_def MustEnvInt64_def MustEnvOrDefaultInt64_def Let_def)

lemma EnvOrDefault_nonempty: "d \<noteq> [] \<Longrightarrow> EnvOrDefault env k d \<noteq> []"
  by (simp add: EnvOrDefault_def Let_def)

lemma bind_total: "\<exists>x. m = Some x \<Longrightarrow> (\<And>x. \<exists>y. f x = Some y) \<Longrightarrow> \<exists>y. Option.bind m f = Some y"
  by auto

lemma some_total: "\<exists>y. Some x = Some y"
  by simp

lemma load_env_total: "env_ok env \<Longrightarrow> \<exists>c. load_env env = Some c"
  unfolding load_env_def
  by (intro bind_total some_total; erule readers_total; simp add: required_vars_def number_vars_def)

lemma load_env_ok: "load_env env = Some c \<Longrightarrow> env_ok env"
  unfolding load_env_def bind_eq_Some_conv env_ok_def required_vars_def number_vars_def list.pred_inject
  by (elim exE conjE, intro conjI list.pred_inject(1)) (erule readers_set)+

lemma load_env_typed:
  "load_env env = Some c \<Longrightarrow> list_all int64_range (config_numbers c) \<and> list_all (\<lambda>s. s \<noteq> []) (config_strings c)"
  unfolding load_env_def bind_eq_Some_conv
  by (elim exE conjE, drule sym)
    (simp add: config_numbers_def config_strings_def EnvOrDefault_nonempty readers_typed, intro conjI;
      erule readers_typed; simp add: int64_range_def)

text \<open>A number of partitions that no key can be hashed to is accepted.\<close>

lemma load_env_partitions: "load_env env = Some c \<Longrightarrow> MustEnvInt64 env ''PARTITIONS'' = Some (Env_NumPartitions c)"
  unfolding load_env_def bind_eq_Some_conv by (elim exE conjE, drule sym) simp

lemma zero_partitions:
  assumes "env_ok env" and "Getenv env ''PARTITIONS'' = ''0''"
  shows "\<exists>c. load_env env = Some c \<and> (\<forall>k. GetPartition (Env_NumPartitions c) k = Panic)"
proof -
  obtain c where c: "load_env env = Some c" using load_env_total [OF assms(1)] by blast
  have "ParseInt (int_str 0) = Some 0" by (rule ParseInt_int_str) (simp add: int64_range_def)
  moreover have "int_str 0 = ''0''" by code_simp
  ultimately have "Env_NumPartitions c = 0"
    using load_env_partitions [OF c] assms(2) by (simp add: MustEnvInt64_def)
  with c show ?thesis by (simp add: GetPartition_def)
qed

text \<open>
  C28. The configuration is complete and well typed, or the program ends: it is loaded exactly if
  every required variable is set and every number that is set is an \<^verbatim>\<open>int64\<close>, and then all of its
  numbers are in the range of the type and none of its required strings is empty.
\<close>

theorem load_env_complete:
  "case load_env env of
     None \<Rightarrow> \<not> env_ok env
   | Some c \<Rightarrow> env_ok env \<and> list_all int64_range (config_numbers c) \<and> list_all (\<lambda>s. s \<noteq> []) (config_strings c)"
proof (cases "load_env env")
  case None
  with load_env_total [of env] show ?thesis by auto
next
  case (Some c)
  with load_env_ok [OF Some] load_env_typed [OF Some] show ?thesis by simp
qed


definition demo_environ :: environ where
  "demo_environ k = map_of [(''NAMESPACE'', ''ns''), (''REPLICA_GROUP'', ''rg''), (''REGION'', ''r''), (''INSTANCE_ID'', ''n1''),
     (''PARTITIONS'', ''4''), (''KAFKA_SEEDS'', ''k:9092''), (''PROFILE'', ''1'')] k"

definition demo_main :: "wire list main_env" where
  "demo_main = \<lparr>me_create = None, me_kafka = demo_kafka, me_polls = (demo_poll [], demo_poll [marshal_PartitionMessage 4]),
     me_produce = (\<lambda>_. None), me_memberlist = demo_memberlist, me_callbacks = id, me_listen = (\<lambda>_. None), me_Leave = None, me_ml_Shutdown = None,
     me_internal_Shutdown = (\<lambda>_. None), me_api_Shutdown = (\<lambda>c. if c_Deadline c = Some 7 then Some DeadlineExceeded else None)\<rparr>"


end
