(* ===== verification/Remote.thy ===== *)
theory Remote
  imports Api
begin

text \<open>
  Requests that a node passes on to another one (\<^verbatim>\<open>doRemoteOperation\<close> of \<^verbatim>\<open>api/handler.go\<close> on
  one side, \<^verbatim>\<open>operationHandler\<close> on the other): the answer a reply becomes on the wire, the round
  trips of the request and answer documents, and what follows for reading and listing through
  a node that does not hold the partition.
\<close>

section \<open>Answers\<close>

text \<open>\<^verbatim>\<open>GetRes\<close> as \<^verbatim>\<open>c.JSON\<close> writes it; a record's times must be ones that can be written.\<close>

definition marshal_Record :: "Record \<Rightarrow> json" where
  "marshal_Record r = JObj [(''Pk'', JStr (r_Pk r)), (''Sk'', JStr (r_Sk r)), (''Data'', enc_data (r_Data r)),
     (''CreatedAt'', JTime (r_CreatedAt r)), (''UpdatedAt'', JTime (r_UpdatedAt r))]"

definition marshal_GetRes :: "Record list \<Rightarrow> wire go" where
  "marshal_GetRes rs =
     (if \<forall>r \<in> set rs. time_ok (r_CreatedAt r) \<and> time_ok (r_UpdatedAt r)
      then Ok (Doc (JObj [(''Records'', JArr (map marshal_Record rs))])) else Err JSONError)"

text \<open>
  What the client of a node receives: the framework answers an error of the handler with 500,
  the server closes the connection of a request that panics, and a request without an answer
  ends when its context times out (\<^verbatim>\<open>NewTimeoutMiddleware\<close>, on the asking node).
\<close>

definition answer :: "reply \<Rightarrow> go_error + int \<times> wire" where
  "answer rep = (case rep of
     Text status s \<Rightarrow> Inr (status, Raw s)
   | JSON status rs \<Rightarrow> (case marshal_GetRes rs of Ok w \<Rightarrow> Inr (status, w) | _ \<Rightarrow> Inr (500, Raw []))
   | HandlerError e \<Rightarrow> Inr (500, Raw [])
   | Crash \<Rightarrow> Inl (External ''EOF'')
   | Hangs \<Rightarrow> Inl DeadlineExceeded)"

section \<open>Round trips\<close>

lemma same_keys_record [simp]:
  "same_key ''Pk'' ''Pk''" "same_key ''Sk'' ''Sk''" "\<not> same_key ''Sk'' ''Pk''"
  "\<not> same_key ''Data'' ''Pk''" "\<not> same_key ''Data'' ''Sk''"
  "\<not> same_key ''CreatedAt'' ''Pk''" "\<not> same_key ''CreatedAt'' ''Sk''"
  "\<not> same_key ''UpdatedAt'' ''Pk''" "\<not> same_key ''UpdatedAt'' ''Sk''"
  "same_key ''Records'' ''Records''"
  by (simp_all add: same_key_def lower_def Let_def)

lemma same_keys_list [simp]:
  "same_key ''sk_prefix'' ''sk_prefix''" "same_key ''limit'' ''limit''" "same_key ''if_stop'' ''if_stop''"
  "\<not> same_key ''sk_prefix'' ''pk''" "\<not> same_key ''limit'' ''pk''" "\<not> same_key ''if_stop'' ''pk''"
  "\<not> same_key ''limit'' ''sk_prefix''" "\<not> same_key ''if'' ''sk_prefix''" "\<not> same_key ''if_stop'' ''sk_prefix''"
  "\<not> same_key ''if'' ''limit''" "\<not> same_key ''if_stop'' ''limit''" "\<not> same_key ''if_stop'' ''if''"
  by (simp_all add: same_key_def lower_def Let_def)

definition record_ok :: "Record \<Rightarrow> bool" where
  "record_ok r \<longleftrightarrow> data_ok (r_Data r) \<and> time_ok (r_CreatedAt r) \<and> time_ok (r_UpdatedAt r)"

lemma record_ok_Record_of [simp]: "record_ok (Record_of sr pk sk) \<longleftrightarrow> stored_ok sr"
  by (simp add: record_ok_def Record_of_def stored_ok_def)

lemma dec_Record: "data_ok (r_Data r) \<Longrightarrow> dec_struct Record_field (Doc (marshal_Record r)) zero_Record = Ok r"
  by (simp add: marshal_Record_def Record_field_def zero_Record_def go_laws)

lemma dec_structs_map:
  "(\<And>x. x \<in> set xs \<Longrightarrow> dec_struct field (Doc (enc x)) zero = Ok x) \<Longrightarrow> dec_structs field zero (map enc xs) [] = Ok xs"
  by (induction xs) simp_all

lemma GetRes_roundtrip [go_laws]:
  "marshal_GetRes rs = Ok w \<Longrightarrow> \<forall>r \<in> set rs. data_ok (r_Data r) \<Longrightarrow>
    dec_struct (Records_field Record_field zero_Record) w [] = Ok rs"
  by (auto simp: marshal_GetRes_def Records_field_def dec_structs_map dec_Record split: if_splits)

lemma GetReq_roundtrip [go_laws]:
  "dec_struct (Records_field RecordKey_field zero_RecordKey) (marshal_GetReq keys) [] = Ok keys"
proof -
  let ?enc = "\<lambda>k. JObj [(''Pk'', JStr (Pk k)), (''Sk'', JStr (Sk k))]"
  have "dec_struct RecordKey_field (Doc (?enc k)) zero_RecordKey = Ok k" for k :: RecordKey
    by (simp add: RecordKey_field_def zero_RecordKey_def)
  then have "dec_structs RecordKey_field zero_RecordKey (map ?enc keys) [] = Ok keys"
    by (rule dec_structs_map)
  then show ?thesis by (simp add: marshal_GetReq_def Records_field_def)
qed

lemma ListReq_roundtrip [go_laws]:
  "int64_range (l_Limit l) \<Longrightarrow> dec_struct ListReq_field (marshal_ListReq l) zero_ListReq = Ok l"
  by (cases "l_If l") (simp_all add: marshal_ListReq_def ListReq_field_def zero_ListReq_def)

lemma dec_int64_range: "dec_int64 v i = Ok j \<Longrightarrow> int64_range i \<Longrightarrow> int64_range j"
  by (cases v) (auto simp: Let_def split: if_splits)

lemma ListReq_field_range:
  "ListReq_field k v l = Ok l' \<Longrightarrow> int64_range (l_Limit l) \<Longrightarrow> int64_range (l_Limit l')"
  by (auto simp: ListReq_field_def bind_go_Ok_iff split: if_splits dest: dec_int64_range)

lemma ListReq_limit_range:
  assumes "dec_struct ListReq_field w zero_ListReq = Ok l"
  shows "int64_range (l_Limit l)"
proof (rule dec_struct_keeps [OF _ assms])
  show "int64_range (l_Limit zero_ListReq)" by (simp add: zero_ListReq_def int64_range_def)
qed (rule ListReq_field_range)

section \<open>What a node serves\<close>

text \<open>The records of a well-formed store can be written, whatever the request selects.\<close>

lemma list_loop_records:
  "list_loop X pfx p limit ifStmt ifStop its read acc = Ok rs \<Longrightarrow> \<forall>r \<in> set acc. record_ok r \<Longrightarrow>
    (\<And>k b sr. (k, Inr b) \<in> set its \<Longrightarrow> prefix pfx k \<Longrightarrow> unmarshal_StoredRecord b zero_StoredRecord = Ok sr \<Longrightarrow> stored_ok sr) \<Longrightarrow>
    \<forall>r \<in> set rs. record_ok r"
proof (induction its arbitrary: read acc)
  case (Cons kv its)
  obtain k v where kv: "kv = (k, v)" by fastforce
  have rest: "\<And>k b sr. (k, Inr b) \<in> set its \<Longrightarrow> prefix pfx k \<Longrightarrow> unmarshal_StoredRecord b zero_StoredRecord = Ok sr \<Longrightarrow> stored_ok sr"
    using Cons.prems(3) by auto
  have "\<exists>read' acc'. (rs = acc' \<or> list_loop X pfx p limit ifStmt ifStop its read' acc' = Ok rs) \<and> (\<forall>r \<in> set acc'. record_ok r)"
  proof (cases v)
    case (Inl e)
    with Cons.prems(1,2) kv show ?thesis
      by (auto simp: of_sum_def bind_go_Ok_iff split: if_splits)
  next
    case (Inr b)
    have "prefix pfx k \<Longrightarrow> unmarshal_StoredRecord b zero_StoredRecord = Ok sr \<Longrightarrow> stored_ok sr" for sr
      using Cons.prems(3) [of k b sr] kv Inr by auto
    with Cons.prems(1,2) kv Inr show ?thesis
      by (fastforce simp: of_sum_def bind_go_Ok_iff split: if_splits)
  qed
  then show ?case using Cons.IH rest by blast
qed simp

context badger_reliable
begin

lemma ListRecords_records:
  assumes ok: "store_ok (db_map (DB p))" and "ListRecords B X p pk skPrefix limit ifStmt ifStop = Ok rs"
  shows "\<forall>r \<in> set rs. record_ok r"
proof -
  obtain t where t: "b_begin B (DB p) = Inr (Some t)" "txn_map t = db_map (DB p)" by (rule begin_cases)
  let ?pfx = "formatRecordKey pk skPrefix"
  have loop: "list_loop X ?pfx skPrefix limit ifStmt ifStop (b_seek B t ?pfx) 0 [] = Ok rs"
    using assms(2) t(1) by (simp add: ListRecords_def db_View_def Let_def)
  have stored: "stored_ok sr"
    if "(k, Inr b) \<in> set (b_seek B t ?pfx)" "prefix ?pfx k" "unmarshal_StoredRecord b zero_StoredRecord = Ok sr" for k b sr
  proof -
    have m: "db_map (DB p) k = Some b" using seek_value [OF that(1)] t(2) by simp
    moreover have "k \<noteq> LastOffsetKey" using that(2) LastOffsetKey_no_prefix by blast
    ultimately obtain pk' sk where k: "k = formatRecordKey pk' sk"
      using ok by (auto simp: store_ok_def dom_def)
    then obtain r where "decode b = Some r" "stored_ok r"
      using store_okD [OF ok] m by blast
    with that(3) show ?thesis by (simp add: decode_def)
  qed
  show ?thesis by (rule list_loop_records [OF loop]) (use stored in auto)
qed

lemma abs_records_stored:
  assumes "store_ok m" and "abs_records m (pk, sk) = Some r"
  shows "stored_ok r"
  using assms by (auto simp: abs_records_def Option.bind_eq_Some_conv split: if_splits elim!: store_okD)

lemma node_lookup_ok:
  assumes "pm_ok db_map pm" and "node_lookup n (abs_node db_map pm) k = Some r"
  shows "record_ok r"
proof -
  obtain p z where "Load (Partitions pm) (part_of n (Pk k)) = Some p"
      "abs_records (db_map (DB p)) (Pk k, Sk k) = Some z" "r = Record_of z (Pk k) (Sk k)"
    using assms(2) by (auto simp: node_lookup_def abs_node_def abs_store_def split: option.splits)
  moreover from this have "store_ok (db_map (DB p))" using assms(1) by (auto simp: pm_ok_def part_ok_def)
  ultimately show ?thesis using abs_records_stored by auto
qed

lemma served_list_ok:
  assumes ok: "pm_ok db_map pm" and "a_B S = B" and n: "0 < a_NumPartitions S" "a_NumPartitions S \<le> 2 ^ 31"
    and dec: "dec_struct ListReq_field w zero_ListReq = Ok req"
    and here: "part_of (a_NumPartitions S) (l_Pk req) \<in> set (GetPartitionIDs pm)"
    and "handleList S pm gm (Some w) = JSON 200 rs"
  shows "\<forall>r \<in> set rs. record_ok r"
proof -
  let ?p = "part_of (a_NumPartitions S) (l_Pk req)"
  obtain q where q: "Load (Partitions pm) ?p = Some q" "store_ok (db_map (DB q))"
    using here ok by (auto simp: GetPartitionIDs_iff pm_ok_def part_ok_def)
  have "ListRecords B (a_X S) q (l_Pk req) (l_SkPrefix req) (l_Limit req) (l_If req) (l_IfStop req) = Ok rs"
    using assms(2,7) dec here q(1) n
    by (auto simp: handleList_def ValidateRequest_def GetPartition_pos part_of_def [symmetric] pm_ListRecords_def
        split: go.splits option.splits if_splits)
  then show ?thesis by (rule ListRecords_records [OF q(2)])
qed

text \<open>A group of keys that one node holds, asked for over the wire.\<close>

lemma served_get:
  assumes ok: "pm_ok db_map pm" and S: "a_B S = B" and n: "0 < a_NumPartitions S" "a_NumPartitions S \<le> 2 ^ 31"
    and here: "keys \<noteq> []" "\<forall>k \<in> set keys. no_nul (Pk k) \<and> part_of (a_NumPartitions S) (Pk k) \<in> set (GetPartitionIDs pm)"
  shows "\<exists>w rs. answer (handleGet S pm gm (Some (marshal_GetReq keys))) = Inr (200, w) \<and>
    dec_struct (Records_field Record_field zero_Record) w [] = Ok rs \<and>
    mset rs = mset (List.map_filter (node_lookup (a_NumPartitions S) (abs_node db_map pm)) keys)"
proof -
  have "badger_reliable (a_B S) db_map txn_map" using S badger_reliable_axioms by simp
  from handleGet_local_reads [OF this ok n GetReq_roundtrip here, of gm] obtain rs where
    rs: "handleGet S pm gm (Some (marshal_GetReq keys)) = JSON 200 rs"
      "mset rs = mset (List.map_filter (node_lookup (a_NumPartitions S) (abs_node db_map pm)) keys)"
    by blast
  have "record_ok r" if "r \<in> set rs" for r
  proof -
    have "r \<in> set (List.map_filter (node_lookup (a_NumPartitions S) (abs_node db_map pm)) keys)"
      using that rs(2) by (metis set_mset_mset)
    then obtain k where "node_lookup (a_NumPartitions S) (abs_node db_map pm) k = Some r"
      by (auto simp: List.map_filter_def)
    then show ?thesis by (rule node_lookup_ok [OF ok])
  qed
  then have times: "\<forall>r \<in> set rs. time_ok (r_CreatedAt r) \<and> time_ok (r_UpdatedAt r)" and data: "\<forall>r \<in> set rs. data_ok (r_Data r)"
    by (simp_all add: record_ok_def)
  then obtain w where "marshal_GetRes rs = Ok w" by (simp add: marshal_GetRes_def)
  with rs GetRes_roundtrip [OF this data] show ?thesis by (auto simp: answer_def)
qed

end

section \<open>Properties\<close>

text \<open>
  C21. A listing through another node is the listing of the node that holds the partition: if
  that node answers its own clients with a list of records, a node that does not hold the
  partition and picks it answers the same request with the same list.
\<close>

theorem handleList_transparent:
  assumes "badger_reliable (a_B S) db_map txn_map" and "pm_ok db_map pmS"
    and same: "a_NumPartitions S = a_NumPartitions A" "a_X S = a_X A"
    and n: "0 < a_NumPartitions A" "a_NumPartitions A \<le> 2 ^ 31"
    and dec: "dec_struct ListReq_field w zero_ListReq = Ok req"
    and away: "part_of (a_NumPartitions A) (l_Pk req) \<notin> set (GetPartitionIDs pm)"
      "GetRandomRemotePartition (a_rnd A) rp (part_of (a_NumPartitions A) (l_Pk req)) = Ok addr"
    and there: "part_of (a_NumPartitions A) (l_Pk req) \<in> set (GetPartitionIDs pmS)"
    and net: "a_http A (''http://'' @ addr @ ''/records/list'') (marshal_ListReq req) =
      answer (fst (operationHandler S pmS gmS topic nMS OperationList (Some (marshal_ListReq req)) k))"
    and served: "handleList S pmS gmS (Some w) = JSON 200 rs"
  shows "handleList A pm (Some rp) (Some w) = JSON 200 rs"
proof -
  have req: "dec_struct ListReq_field (marshal_ListReq req) zero_ListReq = Ok req"
    by (rule ListReq_roundtrip [OF ListReq_limit_range [OF dec]])
  have "\<forall>r \<in> set rs. record_ok r"
    using badger_reliable.served_list_ok [OF assms(1,2) refl _ _ dec _ served] same n there by simp
  then have "\<exists>b. marshal_GetRes rs = Ok b \<and> dec_struct (Records_field Record_field zero_Record) b [] = Ok rs"
    using GetRes_roundtrip [of rs] by (auto simp: marshal_GetRes_def record_ok_def)
  moreover have "handleList S pmS gmS (Some (marshal_ListReq req)) = JSON 200 rs"
    using served dec req by (simp add: handleList_def ValidateRequest_def)
  ultimately have remote: "doRemoteOperation A addr OperationList (marshal_ListReq req) = Ok rs"
    using net by (auto simp: doRemoteOperation_def operation_defs operationHandler_def answer_def)
  have valid: "0 \<le> l_Limit req" "(case l_If req of None \<Rightarrow> None | Some s \<Rightarrow> VerifyIfStatement (a_X A) s) = None"
    using served dec same n
    by (auto simp: handleList_def ValidateRequest_def GetPartition_pos split: if_splits option.splits)
  show ?thesis
    using dec valid away remote n
    by (simp add: handleList_def ValidateRequest_def GetPartition_pos part_of_def [symmetric])
qed

theorem handleList_transparent_witness:
  "handleList (demo_api\<lparr>a_http := (\<lambda>url body. answer (fst (operationHandler demo_api demo_db_pm None ''t'' 0
       OperationList (Some body) [])))\<rparr>)
     (NewPartitionManager ''ns'' :: mem PartitionManager) (Some [(0, [''other:8190''])])
     (Some (Doc (JObj [(''pk'', JStr ''pk1'')]))) = handleList demo_api demo_db_pm None (Some (Doc (JObj [(''pk'', JStr ''pk1'')])))"
proof -
  let ?A = "demo_api\<lparr>a_http := (\<lambda>url body. answer (fst (operationHandler demo_api demo_db_pm None ''t'' 0
       OperationList (Some body) [])))\<rparr>"
  let ?w = "Doc (JObj [(''pk'', JStr ''pk1'')])"
  have "case handleList demo_api demo_db_pm None (Some ?w) of JSON c _ \<Rightarrow> c = 200 | _ \<Rightarrow> False" by code_simp
  then obtain rs where rs: "handleList demo_api demo_db_pm None (Some ?w) = JSON 200 rs"
    by (auto split: reply.splits)
  have B: "badger_reliable (a_B demo_api) map_of map_of"
    using mem.badger_reliable_axioms by (simp add: demo_api_def)
  have dec: "dec_struct ListReq_field ?w zero_ListReq = Ok (zero_ListReq\<lparr>l_Pk := ''pk1''\<rparr>)" by code_simp
  have "handleList ?A (NewPartitionManager ''ns'' :: mem PartitionManager) (Some [(0, [''other:8190''])]) (Some ?w) = JSON 200 rs"
    by (rule handleList_transparent [OF B demo_db_pm_ok _ _ _ _ dec _ _ _ _ rs, where addr = "''other:8190''"])
      (simp_all add: demo_api_def part_of_def GetPartitionIDs_map NewPartitionManager_def NewMap_def demo_db_pm_def
        GetRandomRemotePartition_def getRemotePartitions_def Let_def)
  with rs show ?thesis by simp
qed

text \<open>The keys of one partition, read by a node that holds it.\<close>

lemma remote_get_served:
  assumes B: "badger_reliable (a_B A) db_map txn_map" and S: "a_B S = a_B A" "a_NumPartitions S = a_NumPartitions A"
    and ok: "pm_ok db_map pm"
    and n: "0 < a_NumPartitions A" "a_NumPartitions A \<le> 2 ^ 31"
    and ks: "ks \<noteq> []" "\<forall>k \<in> set ks. part_of (a_NumPartitions A) (Pk k) = p" "\<forall>k \<in> set ks. no_nul (Pk k)"
    and there: "GetRandomRemotePartition (a_rnd A) rp p = Ok addr" "p \<in> set (GetPartitionIDs pm)"
      "\<forall>body. a_http A (''http://'' @ addr @ ''/records/get'') body = answer (handleGet S pm gm (Some body))"
  shows "\<exists>rs. remote_get A (Some rp) (p, ks) = Ok (Some rs) \<and>
    mset rs = mset (List.map_filter (node_lookup (a_NumPartitions A) (abs_node db_map pm)) ks)"
proof -
  have "\<exists>b rs. answer (handleGet S pm gm (Some (marshal_GetReq ks))) = Inr (200, b) \<and>
      dec_struct (Records_field Record_field zero_Record) b [] = Ok rs \<and>
      mset rs = mset (List.map_filter (node_lookup (a_NumPartitions S) (abs_node db_map pm)) ks)"
    using badger_reliable.served_get [OF B ok S(1) _ _ ks(1)] ks(2,3) there(2) S(2) n by auto
  with there S(2) show ?thesis by (auto simp: remote_get_def doRemoteOperation_def operation_defs)
qed

text \<open>The groups of the keys, read one by one, are all the keys.\<close>

lemma grouped_reads:
  assumes "grouped part ks r" and "\<forall>pk \<in> set r. mset (f pk) = mset (List.map_filter look (snd pk))"
  shows "mset (concat (map f r)) = mset (List.map_filter look ks)"
proof -
  have "mset (concat (map f r)) = mset (concat (map (\<lambda>pk. List.map_filter look (snd pk)) r))"
    using assms(2) by (induction r) auto
  also have "\<dots> = mset (List.map_filter look (concat (map snd r)))" by (simp add: map_filter_concat o_def)
  also have "\<dots> = mset (List.map_filter look ks)" by (rule map_filter_mset [OF grouped_mset [OF assms(1)]])
  finally show ?thesis .
qed


definition demo_remote_pm :: "mem PartitionManager" where
  "demo_remote_pm = \<lparr>Partitions = [(1, \<lparr>ID = 1, DB = [(formatRecordKey ''d'' ''z'', demo_stored ''9'' 5 6)],
     LastOffset = None, Namespace = ''ns''\<rparr>)], pm_Namespace = ''ns''\<rparr>"

lemma demo_remote_pm_ok: "pm_ok map_of demo_remote_pm"
proof -
  have z: "time_ok 5" "time_ok 6" "no_nul ''d''" by (simp_all add: time_ok_def no_nul_def NUL_def)
  have "store_ok (Map.empty(formatRecordKey ''d'' ''z'' \<mapsto> demo_stored ''9'' 5 6))"
    by (rule store_ok_set [OF store_ok_empty z(3) demo_decode [folded decode_Some]]) (simp_all add: stored_ok_def data_ok_def z)
  then show ?thesis
    by (auto simp: pm_ok_def demo_remote_pm_def map_ok_def Load_def part_ok_def abs_offset_def split: if_splits)
qed


end
