(* ===== verification/Interleave.thy ===== *)
theory Interleave
  imports Replay
begin

text \<open>
  The goroutines of \<^verbatim>\<open>pollRecords\<close>: one for every partition of a fetch, run by an
  \<^verbatim>\<open>errgroup.Group\<close> in any interleaving of their mutations. \<open>consume_all\<close> of theory \<open>Replay\<close> runs
  them one after the other; here every schedule is considered, and shown to agree with it.
\<close>

section \<open>Goroutines\<close>

text \<open>
  A goroutine has the records it still has to look at, or has returned (a panic ends the
  program). \<open>routine_step\<close> is one turn of its loop.
\<close>

datatype routine = Working "(wire \<times> int) list" | Ended "unit go"

fun routine_step :: "('db, 'txn) badger_api \<Rightarrow> 'prog expr_lib \<Rightarrow> int \<Rightarrow> routine \<Rightarrow> 'db PartitionManager \<Rightarrow>
    (routine \<times> 'db PartitionManager) option" where
  "routine_step B X i (Working []) pm = Some (Ended (Ok ()), pm)"
| "routine_step B X i (Working ((value, offset) # records)) pm = Some
     (case pm_HandleMutation B X pm i value offset of
        (Ok _, pm') \<Rightarrow> (Working records, pm')
      | (Err e, pm') \<Rightarrow> (Ended (Err e), pm')
      | (Panic, pm') \<Rightarrow> (Ended Panic, pm'))"
| "routine_step B X i (Ended r) pm = None"

text \<open>
  The group: the goroutines with their partitions, the partition manager they share, and the
  first error one of them has returned. The group has no context, so an error stops its own
  goroutine only.
\<close>

record 'db group =
  gr_routines :: "(int \<times> routine) list"
  gr_pm :: "'db PartitionManager"
  gr_err :: "go_error option"

definition start_group :: "(int \<times> (wire \<times> int) list) list \<Rightarrow> 'db PartitionManager \<Rightarrow> 'db group" where
  "start_group parts pm = \<lparr>gr_routines = map (\<lambda>(i, records). (i, Working records)) parts, gr_pm = pm, gr_err = None\<rparr>"

definition crashed :: "'db group \<Rightarrow> bool" where
  "crashed g \<longleftrightarrow> Ended Panic \<in> snd ` set (gr_routines g)"

definition keep_error :: "go_error option \<Rightarrow> routine \<Rightarrow> go_error option" where
  "keep_error err r = (case err of Some e \<Rightarrow> Some e | None \<Rightarrow> (case r of Ended (Err e) \<Rightarrow> Some e | _ \<Rightarrow> None))"

inductive group_step :: "('db, 'txn) badger_api \<Rightarrow> 'prog expr_lib \<Rightarrow> 'db group \<Rightarrow> 'db group \<Rightarrow> bool"
  for B X where
  turn: "\<not> crashed g \<Longrightarrow> k < length (gr_routines g) \<Longrightarrow> gr_routines g ! k = (i, r) \<Longrightarrow>
    routine_step B X i r (gr_pm g) = Some (r', pm') \<Longrightarrow>
    group_step B X g \<lparr>gr_routines = (gr_routines g)[k := (i, r')], gr_pm = pm', gr_err = keep_error (gr_err g) r'\<rparr>"

text \<open>What \<^verbatim>\<open>Wait\<close> returns; \<open>None\<close> while it waits.\<close>

definition is_ended :: "routine \<Rightarrow> bool" where
  "is_ended r = (case r of Ended _ \<Rightarrow> True | Working _ \<Rightarrow> False)"

definition Wait :: "'db group \<Rightarrow> unit go option" where
  "Wait g =
     (if crashed g then Some Panic
      else if list_all (\<lambda>(i, r). is_ended r) (gr_routines g)
        then Some (case gr_err g of None \<Rightarrow> Ok () | Some e \<Rightarrow> Err e)
      else None)"

section \<open>The fate of a partition\<close>

text \<open>
  What a goroutine makes of its partition depends on its records and the partition only. The
  partition is \<open>None\<close> if the node does not have it.
\<close>

fun spec_batch :: "'prog expr_lib \<Rightarrow> (wire \<times> int) list \<Rightarrow> replica option \<Rightarrow> replica option \<times> unit go" where
  "spec_batch X [] st = (st, Ok ())"
| "spec_batch X ((value, offset) # records) st =
     (case unmarshal_RecordMutation value zero_RecordMutation of
        Err e \<Rightarrow> (st, Err e)
      | Panic \<Rightarrow> (st, Panic)
      | Ok m \<Rightarrow>
          (case st of
             None \<Rightarrow> (st, Err ErrPartitionNotFound)
           | Some s \<Rightarrow>
               (case spec_mutation X s m offset of
                  Ok s' \<Rightarrow> spec_batch X records (Some s')
                | Err e \<Rightarrow> (st, Err e)
                | Panic \<Rightarrow> (st, Panic))))"

fun fate :: "'prog expr_lib \<Rightarrow> routine \<Rightarrow> replica option \<Rightarrow> replica option \<times> unit go" where
  "fate X (Working records) st = spec_batch X records st"
| "fate X (Ended r) st = (st, r)"

text \<open>The records of the log: those that parse are mutations that the handler accepts.\<close>

definition wires_ok :: "(wire \<times> int) list \<Rightarrow> bool" where
  "wires_ok ws \<longleftrightarrow> list_all (\<lambda>(w, off). int64_range off \<and>
     (case unmarshal_RecordMutation w zero_RecordMutation of Ok m \<Rightarrow> mutation_ok m | _ \<Rightarrow> True)) ws"

fun routine_ok :: "routine \<Rightarrow> bool" where
  "routine_ok (Working ws) = wires_ok ws"
| "routine_ok (Ended r) = True"

lemma wires_ok_simps [simp]:
  "wires_ok []" "wires_ok ((w, off) # ws) \<longleftrightarrow> int64_range off \<and>
    (case unmarshal_RecordMutation w zero_RecordMutation of Ok m \<Rightarrow> mutation_ok m | _ \<Rightarrow> True) \<and> wires_ok ws"
  by (simp_all add: wires_ok_def)

context badger_reliable
begin

text \<open>One mutation, as the goroutine sees it.\<close>

lemma pm_HandleMutation_fate:
  assumes ok: "pm_ok db_map pm" and ws: "wires_ok ((w, off) # ws)" and step: "pm_HandleMutation B X pm i w off = (r, pm')"
  shows "(r \<noteq> Panic \<longrightarrow> pm_ok db_map pm') \<and> (\<forall>j. j \<noteq> i \<longrightarrow> abs_node db_map pm' j = abs_node db_map pm j) \<and>
    spec_batch X ((w, off) # ws) (abs_node db_map pm i) =
      (case r of Ok _ \<Rightarrow> spec_batch X ws (abs_node db_map pm' i) | _ \<Rightarrow> (abs_node db_map pm' i, r)) \<and>
    (\<forall>u. r \<noteq> Ok u \<longrightarrow> abs_node db_map pm' = abs_node db_map pm)"
proof (cases "unmarshal_RecordMutation w zero_RecordMutation")
  case (Ok m)
  with ws have m: "mutation_ok m" "int64_range off" by simp_all
  note ref = pm_HandleMutation_refines [OF ok Ok m, of X i, unfolded step]
  show ?thesis
  proof (cases "abs_node db_map pm i")
    case None
    with ref have "r = Err ErrPartitionNotFound" "abs_node db_map pm' = abs_node db_map pm" "pm_ok db_map pm'"
      by (auto simp: spec_node_mutation_def)
    with None Ok show ?thesis by simp
  next
    case (Some st)
    show ?thesis
    proof (cases "spec_mutation X st m off")
      case (Ok st')
      with ref Some have "r = go.Ok ()" "abs_node db_map pm' = (abs_node db_map pm)(i \<mapsto> st')" "pm_ok db_map pm'"
        by (auto simp: spec_node_mutation_def)
      with Some Ok \<open>unmarshal_RecordMutation w zero_RecordMutation = go.Ok m\<close> show ?thesis by simp
    next
      case (Err e)
      with ref Some have "r = go.Err e" "abs_node db_map pm' = abs_node db_map pm" "pm_ok db_map pm'"
        by (auto simp: spec_node_mutation_def)
      with Some Err Ok show ?thesis by simp
    next
      case Panic
      with ref Some have "r = go.Panic" "abs_node db_map pm' = abs_node db_map pm"
        by (auto simp: spec_node_mutation_def)
      with Some Panic Ok show ?thesis by simp
    qed
  qed
qed (use ok step in \<open>auto simp: pm_HandleMutation_def\<close>)

lemma routine_step_fate:
  assumes ok: "pm_ok db_map pm" and r: "routine_ok r" and step: "routine_step B X i r pm = Some (r', pm')"
  shows "(r' \<noteq> Ended Panic \<longrightarrow> pm_ok db_map pm') \<and> routine_ok r' \<and>
    (\<forall>j. j \<noteq> i \<longrightarrow> abs_node db_map pm' j = abs_node db_map pm j) \<and>
    fate X r' (abs_node db_map pm' i) = fate X r (abs_node db_map pm i)"
proof (cases "(B, X, i, r, pm)" rule: routine_step.cases)
  case (2 _ _ _ w off ws _)
  obtain res pm1 where h: "pm_HandleMutation B X pm i w off = (res, pm1)" by fastforce
  note f = pm_HandleMutation_fate [OF ok _ h, of ws]
  from 2 r have ws: "wires_ok ((w, off) # ws)" by simp
  from 2 step h show ?thesis using f [OF ws] ws by (cases res) auto
qed (use ok r step in auto)

lemma consume_batch_fate:
  assumes "pm_ok db_map pm" and "wires_ok ws" and "consume_batch B X i ws pm = (r, pm')"
  shows "r = snd (spec_batch X ws (abs_node db_map pm i)) \<and> (r \<noteq> Panic \<longrightarrow> pm_ok db_map pm') \<and>
    abs_node db_map pm' = (abs_node db_map pm)(i := fst (spec_batch X ws (abs_node db_map pm i)))"
  using assms
proof (induction ws arbitrary: pm)
  case (Cons wo ws)
  obtain w off where wo: "wo = (w, off)" by fastforce
  obtain res pm1 where h: "pm_HandleMutation B X pm i w off = (res, pm1)" by fastforce
  note ws = Cons.prems(2) [unfolded wo]
  note f = pm_HandleMutation_fate [OF Cons.prems(1) ws h]
  show ?case
  proof (cases res)
    case (Ok u)
    with Cons.prems(3) wo h have b: "consume_batch B X i ws pm1 = (r, pm')" by simp
    from ws have "wires_ok ws" by simp
    from Cons.IH [OF _ this b] f Ok wo show ?thesis by (auto simp: fun_eq_iff simp del: spec_batch.simps)
  next
    case (Err e)
    with Cons.prems(3) wo h f show ?thesis by (auto simp: fun_eq_iff simp del: spec_batch.simps)
  next
    case Panic
    with Cons.prems(3) wo h f show ?thesis by (auto simp: fun_eq_iff simp del: spec_batch.simps)
  qed
qed simp

end

text \<open>The records of a log, in the form in which they are delivered.\<close>

lemma spec_batch_log:
  "log_ok ms \<Longrightarrow> spec_run X ms st = Ok st' \<Longrightarrow> spec_batch X (wire_log ms) (Some st) = (Some st', Ok ())"
proof (induction ms arbitrary: st)
  case (Cons mo ms)
  obtain m off where mo: "mo = (m, off)" by fastforce
  with Cons.prems obtain st1 where "spec_mutation X st m off = Ok st1" "spec_run X ms st1 = Ok st'"
    by (auto simp: bind_go_Ok_iff)
  with Cons mo show ?case by (simp add: unmarshal_marshal_RecordMutation mutation_ok_def)
qed (simp add: wire_log_def)

lemma spec_batch_not_found: "log_ok ms \<Longrightarrow> ms \<noteq> [] \<Longrightarrow> spec_batch X (wire_log ms) None = (None, Err ErrPartitionNotFound)"
  by (cases ms) (auto simp: unmarshal_marshal_RecordMutation mutation_ok_def)

lemma wires_ok_log: "log_ok ms \<Longrightarrow> wires_ok (wire_log ms)"
  by (induction ms) (auto simp: unmarshal_marshal_RecordMutation mutation_ok_def)

lemma spec_batch_open: "\<exists>st'. fst (spec_batch X ws (Some st)) = Some st'"
  by (induction ws arbitrary: st) (auto split: go.split)

lemma spec_batch_closed: "fst (spec_batch X ws None) = None"
  by (cases ws) (auto split: go.split)

section \<open>Schedules\<close>

text \<open>What a fetch makes of a node, and what its goroutines return.\<close>

definition run_parts :: "'prog expr_lib \<Rightarrow> (int \<times> (wire \<times> int) list) list \<Rightarrow> node \<Rightarrow> node" where
  "run_parts X parts n = (\<lambda>i. case map_of parts i of None \<Rightarrow> n i | Some ws \<Rightarrow> fst (spec_batch X ws (n i)))"

definition results :: "'prog expr_lib \<Rightarrow> (int \<times> (wire \<times> int) list) list \<Rightarrow> node \<Rightarrow> unit go list" where
  "results X parts n = map (\<lambda>(i, ws). snd (spec_batch X ws (n i))) parts"

lemma run_parts_Cons:
  assumes "i \<notin> fst ` set parts"
  shows "run_parts X ((i, ws) # parts) n = run_parts X parts (n(i := fst (spec_batch X ws (n i))))"
proof -
  have "map_of parts i = None" using assms by (simp add: map_of_eq_None_iff)
  then show ?thesis by (auto simp: run_parts_def fun_eq_iff split: option.split)
qed

lemma results_cong: "(\<And>i. i \<in> fst ` set parts \<Longrightarrow> n i = n' i) \<Longrightarrow> results X parts n = results X parts n'"
  by (force simp: results_def)

lemma results_upd: "i \<notin> fst ` set parts \<Longrightarrow> results X parts (n(i := st)) = results X parts n"
  by (rule results_cong) auto

definition summary :: "unit go list \<Rightarrow> unit go \<Rightarrow> bool" where
  "summary rs r \<longleftrightarrow> (case r of Panic \<Rightarrow> Panic \<in> set rs | Ok _ \<Rightarrow> list_all (\<lambda>r. r = Ok ()) rs
     | Err e \<Rightarrow> Panic \<notin> set rs \<and> Err e \<in> set rs)"

lemma summary_agree: "summary rs r \<Longrightarrow> summary rs r' \<Longrightarrow> (r = Panic \<longleftrightarrow> r' = Panic) \<and> (r = Ok () \<longleftrightarrow> r' = Ok ())"
  by (auto simp: summary_def list_all_iff split: go.splits)

lemma go_unit_cases: "(r :: unit go) = Ok () \<or> (\<exists>e. r = Err e) \<or> r = Panic"
  by (cases r) auto

context badger_reliable
begin

lemma consume_all_fate:
  assumes "pm_ok db_map pm" and "distinct (map fst parts)" and "\<forall>(i, ws) \<in> set parts. wires_ok ws"
    and "consume_all B X parts pm = (r, pm')"
  shows "summary (results X parts (abs_node db_map pm)) r \<and>
    (r \<noteq> Panic \<longrightarrow> pm_ok db_map pm' \<and> abs_node db_map pm' = run_parts X parts (abs_node db_map pm))"
  using assms
proof (induction parts arbitrary: pm r pm')
  case Nil
  then show ?case by (auto simp: summary_def results_def run_parts_def)
next
  case (Cons p parts)
  obtain i ws where p: "p = (i, ws)" by fastforce
  obtain r1 pm1 where b: "consume_batch B X i ws pm = (r1, pm1)" by fastforce
  obtain r2 pm2 where all: "consume_all B X parts pm1 = (r2, pm2)" by fastforce
  let ?n = "abs_node db_map pm"
  from Cons.prems p have i: "i \<notin> fst ` set parts" and ws: "wires_ok ws" by auto
  from consume_batch_fate [OF Cons.prems(1) ws b] have r1: "r1 = snd (spec_batch X ws (?n i))"
    and pm1: "r1 \<noteq> Panic \<Longrightarrow> pm_ok db_map pm1" "abs_node db_map pm1 = ?n(i := fst (spec_batch X ws (?n i)))"
    by auto
  have res: "results X (p # parts) ?n = r1 # results X parts (abs_node db_map pm1)"
    by (simp add: p results_def [of X "(i, ws) # parts"] r1 pm1(2) results_upd [OF i]) (simp add: results_def)
  show ?case
  proof (cases "r1 = Panic")
    case True
    with Cons.prems(4) p b show ?thesis unfolding res by (auto simp: summary_def)
  next
    case False
    have d: "distinct (map fst parts)" and w: "\<forall>(i, ws) \<in> set parts. wires_ok ws" using Cons.prems(2,3) by auto
    have "run_parts X (p # parts) ?n = run_parts X parts (abs_node db_map pm1)"
      unfolding p pm1(2) by (rule run_parts_Cons [OF i])
    with Cons.IH [OF pm1(1) [OF False] d w all]
    have IH: "summary (results X parts (abs_node db_map pm1)) r2"
      "r2 \<noteq> Panic \<Longrightarrow> pm_ok db_map pm2 \<and> abs_node db_map pm2 = run_parts X (p # parts) ?n"
      by simp_all
    with False Cons.prems(4) p b all show ?thesis unfolding res
      by (cases r1; cases r2) (auto simp: summary_def list_all_iff)
  qed
qed

end

text \<open>
  In every state of the group the fate of each partition is the one it started with, and the
  error that is kept is one of those that were returned.
\<close>

definition group_inv :: "('db \<Rightarrow> bytes \<Rightarrow> wire option) \<Rightarrow> 'prog expr_lib \<Rightarrow> (int \<times> (wire \<times> int) list) list \<Rightarrow>
    node \<Rightarrow> 'db group \<Rightarrow> bool" where
  "group_inv db_map X parts n g \<longleftrightarrow>
     (crashed g \<or> pm_ok db_map (gr_pm g)) \<and> map fst (gr_routines g) = map fst parts \<and>
     (\<forall>k < length parts. routine_ok (snd (gr_routines g ! k)) \<and>
        fate X (snd (gr_routines g ! k)) (abs_node db_map (gr_pm g) (fst (parts ! k))) =
          spec_batch X (snd (parts ! k)) (n (fst (parts ! k)))) \<and>
     (\<forall>i. i \<notin> fst ` set parts \<longrightarrow> abs_node db_map (gr_pm g) i = n i) \<and>
     (case gr_err g of
        None \<Rightarrow> \<forall>e. Ended (Err e) \<notin> snd ` set (gr_routines g)
      | Some e \<Rightarrow> Ended (Err e) \<in> snd ` set (gr_routines g))"

lemma group_inv_start:
  "pm_ok db_map pm \<Longrightarrow> \<forall>(i, ws) \<in> set parts. wires_ok ws \<Longrightarrow>
    group_inv db_map X parts (abs_node db_map pm) (start_group parts pm)"
  by (auto simp: group_inv_def start_group_def case_prod_unfold dest: nth_mem)

lemma group_invD:
  assumes "group_inv db_map X parts n g"
  shows "crashed g \<or> pm_ok db_map (gr_pm g)" and "map fst (gr_routines g) = map fst parts"
    and "k < length parts \<Longrightarrow> routine_ok (snd (gr_routines g ! k))"
    and "k < length parts \<Longrightarrow> fate X (snd (gr_routines g ! k)) (abs_node db_map (gr_pm g) (fst (parts ! k))) =
          spec_batch X (snd (parts ! k)) (n (fst (parts ! k)))"
    and "i \<notin> fst ` set parts \<Longrightarrow> abs_node db_map (gr_pm g) i = n i"
    and "case gr_err g of None \<Rightarrow> \<forall>e. Ended (Err e) \<notin> snd ` set (gr_routines g)
      | Some e \<Rightarrow> Ended (Err e) \<in> snd ` set (gr_routines g)"
    and "length (gr_routines g) = length parts" and "k < length parts \<Longrightarrow> fst (gr_routines g ! k) = fst (parts ! k)"
proof -
  note I = assms [unfolded group_inv_def]
  show maps: "map fst (gr_routines g) = map fst parts" using I by blast
  then show len: "length (gr_routines g) = length parts" by (rule map_eq_imp_length_eq)
  show "k < length parts \<Longrightarrow> fst (gr_routines g ! k) = fst (parts ! k)"
    using arg_cong [OF maps, of "\<lambda>xs. xs ! k"] len by simp
qed (use assms in \<open>unfold group_inv_def, blast+\<close>)

lemma in_set_update: "k < length xs \<Longrightarrow> xs ! k \<noteq> a \<Longrightarrow> a \<in> set (xs[k := y]) \<longleftrightarrow> a \<in> set xs \<or> y = a"
  by (auto simp: in_set_conv_nth nth_list_update)

lemma ended_update:
  assumes "k < length rs" and "rs ! k = (i, r)" and "\<not> is_ended r"
  shows "Ended x \<in> snd ` set (rs[k := (i, r')]) \<longleftrightarrow> Ended x \<in> snd ` set rs \<or> r' = Ended x"
proof -
  have "map snd rs ! k \<noteq> Ended x" using assms by (auto simp: is_ended_def)
  with in_set_update [of k "map snd rs" "Ended x" r'] assms(1) show ?thesis
    by (simp add: map_update flip: set_map)
qed

lemma keep_error_inv:
  assumes "case err of None \<Rightarrow> \<forall>e. Ended (Err e) \<notin> snd ` set rs | Some e \<Rightarrow> Ended (Err e) \<in> snd ` set rs"
    and "k < length rs" "rs ! k = (i, r)" "\<not> is_ended r"
  shows "case keep_error err r' of None \<Rightarrow> \<forall>e. Ended (Err e) \<notin> snd ` set (rs[k := (i, r')])
    | Some e \<Rightarrow> Ended (Err e) \<in> snd ` set (rs[k := (i, r')])"
  unfolding ended_update [OF assms(2-4)]
  using assms(1) by (auto simp: keep_error_def split: option.splits routine.splits go.splits)

lemma routine_step_working: "routine_step B X i r pm = Some x \<Longrightarrow> \<not> is_ended r"
  by (cases r) (auto simp: is_ended_def)

context badger_reliable
begin

lemma group_inv_step:
  assumes d: "distinct (map fst parts)" and inv: "group_inv db_map X parts n g" and step: "group_step B X g g'"
  shows "group_inv db_map X parts n g'"
  using step
proof cases
  case (turn k i r r' pm')
  let ?rs = "gr_routines g"
  note I = group_invD [OF inv]
  have k: "k < length parts" using turn(3) I(7) by simp
  have i: "fst (parts ! k) = i" using I(8) [OF k] turn(4) by simp
  have pm: "pm_ok db_map (gr_pm g)" "routine_ok r" using I(1) I(3) [OF k] turn(2,4) by auto
  note f = routine_step_fate [OF pm turn(5)]
  note upd = ended_update [OF turn(3,4) routine_step_working [OF turn(5)]]
  have "crashed g' \<or> pm_ok db_map (gr_pm g')"
    using f by (auto simp: crashed_def turn(1) upd)
  moreover have "map fst (gr_routines g') = map fst parts"
    using I(2) k i by (simp add: turn(1) map_update list_update_same_conv)
  moreover have "routine_ok (snd (gr_routines g' ! j)) \<and>
      fate X (snd (gr_routines g' ! j)) (abs_node db_map (gr_pm g') (fst (parts ! j))) =
        spec_batch X (snd (parts ! j)) (n (fst (parts ! j)))" if j: "j < length parts" for j
  proof (cases "j = k")
    case True
    with I(4) [OF k] f turn(3,4) i show ?thesis by (simp add: turn(1))
  next
    case False
    with d j k i have "fst (parts ! j) \<noteq> i" by (metis distinct_conv_nth length_map nth_map)
    with I(3,4) [OF j] f False show ?thesis by (simp add: turn(1))
  qed
  moreover have "abs_node db_map (gr_pm g') j = n j" if "j \<notin> fst ` set parts" for j
  proof -
    have "j \<noteq> i" using that i k nth_mem by blast
    with f I(5) [OF that] show ?thesis by (simp add: turn(1))
  qed
  moreover have "case gr_err g' of None \<Rightarrow> \<forall>e. Ended (Err e) \<notin> snd ` set (gr_routines g')
      | Some e \<Rightarrow> Ended (Err e) \<in> snd ` set (gr_routines g')"
    unfolding turn(1) group.select_convs
    by (rule keep_error_inv [OF I(6) turn(3,4) routine_step_working [OF turn(5)]])
  ultimately show ?thesis by (simp add: group_inv_def)
qed

lemma group_inv_steps:
  "(group_step B X)\<^sup>*\<^sup>* g g' \<Longrightarrow> distinct (map fst parts) \<Longrightarrow> group_inv db_map X parts n g \<Longrightarrow> group_inv db_map X parts n g'"
  by (induction rule: rtranclp_induct) (auto intro: group_inv_step)

lemma group_Wait:
  assumes inv: "group_inv db_map X parts n g" and d: "distinct (map fst parts)" and w: "Wait g = Some r"
  shows "summary (results X parts n) r \<and>
    (r \<noteq> Panic \<longrightarrow> pm_ok db_map (gr_pm g) \<and> abs_node db_map (gr_pm g) = run_parts X parts n)"
proof (cases "crashed g")
  case True
  note I = group_invD [OF inv]
  from True obtain k where "k < length parts" "snd (gr_routines g ! k) = Ended Panic"
    using I(7) by (auto simp: crashed_def in_set_conv_nth)
  with I(4) [of k] have "results X parts n ! k = Panic" "k < length (results X parts n)"
    by (simp_all add: results_def case_prod_unfold eq_commute [of "(_, Panic)"])
  then have "Panic \<in> set (results X parts n)" by (metis nth_mem)
  with True w show ?thesis by (auto simp: Wait_def summary_def)
next
  case False
  note I = group_invD [OF inv]
  let ?rs = "gr_routines g"
  have all: "list_all (\<lambda>(i, r). is_ended r) ?rs" using w False by (auto simp: Wait_def split: if_splits)
  have res: "snd (?rs ! k) = Ended (results X parts n ! k)"
    and node: "abs_node db_map (gr_pm g) (fst (parts ! k)) = fst (spec_batch X (snd (parts ! k)) (n (fst (parts ! k))))"
    if k: "k < length parts" for k
  proof -
    have "is_ended (snd (?rs ! k))" using all k I(7) by (auto simp: list_all_length case_prod_unfold)
    then obtain u where "snd (?rs ! k) = Ended u" by (auto simp: is_ended_def split: routine.splits)
    with I(4) [OF k] k show "snd (?rs ! k) = Ended (results X parts n ! k)"
      "abs_node db_map (gr_pm g) (fst (parts ! k)) = fst (spec_batch X (snd (parts ! k)) (n (fst (parts ! k))))"
      by (auto simp: results_def case_prod_unfold) (metis fst_conv snd_conv)+
  qed
  have ends: "snd ` set ?rs = Ended ` set (results X parts n)"
  proof -
    have "map snd ?rs = map Ended (results X parts n)"
      using res I(7) by (intro nth_equalityI) (simp_all add: results_def)
    then show ?thesis by (metis list.set_map)
  qed
  have "abs_node db_map (gr_pm g) i = run_parts X parts n i" for i
  proof (cases "map_of parts i")
    case None
    then have "i \<notin> fst ` set parts" by (simp add: map_of_eq_None_iff)
    from I(5) [OF this] None show ?thesis by (simp add: run_parts_def)
  next
    case (Some ws)
    then obtain k where "k < length parts" "parts ! k = (i, ws)" by (metis in_set_conv_nth map_of_SomeD)
    with node [of k] Some show ?thesis by (simp add: run_parts_def)
  qed
  moreover have "summary (results X parts n) r"
    using w False all I(6) unfolding Wait_def crashed_def ends
    by (auto simp: summary_def list_all_iff image_iff split: option.splits) (metis go_unit_cases)
  moreover have "r \<noteq> Panic" using w False by (auto simp: Wait_def split: if_splits option.splits)
  ultimately show ?thesis using False I(1) by auto
qed

lemma group_any_schedule:
  assumes "pm_ok db_map pm" and "distinct (map fst parts)" and "\<forall>(i, ws) \<in> set parts. wires_ok ws"
    and "(group_step B X)\<^sup>*\<^sup>* (start_group parts pm) g" and "Wait g = Some r"
  shows "summary (results X parts (abs_node db_map pm)) r \<and>
    (r \<noteq> Panic \<longrightarrow> pm_ok db_map (gr_pm g) \<and> abs_node db_map (gr_pm g) = run_parts X parts (abs_node db_map pm))"
  using group_Wait [OF group_inv_steps [OF assms(4,2) group_inv_start [OF assms(1,3)]] assms(2,5)] .

end

section \<open>Polling under any schedule\<close>

text \<open>The polling loop, with any schedule of the goroutines of each fetch.\<close>

inductive polls :: "('db, 'txn) badger_api \<Rightarrow> 'prog expr_lib \<Rightarrow> fetch list \<Rightarrow> 'db PartitionManager \<Rightarrow>
    'db PartitionManager \<Rightarrow> bool" for B X where
  none: "polls B X [] pm pm"
| failed: "f_Errors f \<noteq> [] \<Longrightarrow> polls B X fs pm pm' \<Longrightarrow> polls B X (f # fs) pm pm'"
| round: "f_Errors f = [] \<Longrightarrow> (group_step B X)\<^sup>*\<^sup>* (start_group (f_Partitions f) pm) g \<Longrightarrow> Wait g = Some r \<Longrightarrow>
    r \<noteq> Panic \<Longrightarrow> polls B X fs (gr_pm g) pm' \<Longrightarrow> polls B X (f # fs) pm pm'"

text \<open>What the client returns: every partition once, and records of the log.\<close>

definition fetch_ok :: "fetch \<Rightarrow> bool" where
  "fetch_ok f \<longleftrightarrow> distinct (map fst (f_Partitions f)) \<and> list_all (\<lambda>(i, ws). wires_ok ws) (f_Partitions f)"

lemma pollRecords_failed: "f_Errors f \<noteq> [] \<Longrightarrow> snd (pollRecords B X f pm) = pm \<and> fst (pollRecords B X f pm) \<noteq> Panic"
  by (auto simp: pollRecords_def Let_def)

lemma polls_run:
  assumes B: "badger_reliable B db_map txn_map"
  shows "polls B X fs pm pm' \<Longrightarrow> list_all fetch_ok fs \<Longrightarrow> pm_ok db_map pm \<Longrightarrow> pm_ok db_map qm \<Longrightarrow>
    abs_node db_map qm = abs_node db_map pm \<Longrightarrow>
    pm_ok db_map pm' \<and> (\<exists>qm'. launchPollRecordLoop B X fs qm = Some qm' \<and> abs_node db_map qm' = abs_node db_map pm')"
proof (induction arbitrary: qm rule: polls.induct)
  case (failed f fs pm pm')
  from pollRecords_failed [OF failed(1), of B X qm] failed show ?case
    by (auto simp: split: prod.split go.split)
next
  case (round f pm g r fs pm')
  let ?parts = "f_Partitions f"
  have ok: "distinct (map fst ?parts)" "\<forall>(i, ws) \<in> set ?parts. wires_ok ws"
    using round.prems(1) by (auto simp: fetch_ok_def list_all_iff)
  obtain r2 qm1 where all: "consume_all B X ?parts qm = (r2, qm1)" by fastforce
  note g = badger_reliable.group_any_schedule [OF B round.prems(2) ok round.hyps(2,3)]
  note q = badger_reliable.consume_all_fate [OF B round.prems(3) ok all]
  have r2: "r2 \<noteq> Panic" using g q summary_agree round.hyps(4) round.prems(4) by metis
  with g q round.hyps(4) round.prems(4)
  have eq: "pm_ok db_map qm1" "abs_node db_map qm1 = abs_node db_map (gr_pm g)" "pm_ok db_map (gr_pm g)" by auto
  have "list_all fetch_ok fs" using round.prems(1) by simp
  from round.IH [OF this eq(3,1,2)] all round.hyps(1) r2 show ?case
    by (cases r2) (auto simp: pollRecords_def)
qed auto

section \<open>Every schedule ends\<close>

fun routine_size :: "routine \<Rightarrow> nat" where
  "routine_size (Working ws) = Suc (length ws)"
| "routine_size (Ended r) = 0"

definition group_size :: "'db group \<Rightarrow> nat" where
  "group_size g = sum_list (map (\<lambda>(i, r). routine_size r) (gr_routines g))"

lemma routine_step_size: "routine_step B X i r pm = Some (r', pm') \<Longrightarrow> routine_size r' < routine_size r"
  by (cases "(B, X, i, r, pm)" rule: routine_step.cases) (auto split: prod.splits go.splits)

lemma group_step_size:
  assumes "group_step B X g g'"
  shows "group_size g' < group_size g"
  using assms
proof cases
  case (turn k i r r' pm')
  then show ?thesis
    using routine_step_size [OF turn(5)] elem_le_sum_list [of k "map (\<lambda>(i, r). routine_size r) (gr_routines g)"]
    by (simp add: group_size_def map_update sum_list_update)
qed

lemma group_steps_size: "(group_step B X ^^ n) g g' \<Longrightarrow> group_size g' + n \<le> group_size g"
proof (induction n arbitrary: g')
  case (Suc n)
  then obtain h where "(group_step B X ^^ n) g h" "group_step B X h g'" by auto
  with Suc.IH [of h] group_step_size [of B X h g'] show ?case by simp
qed simp

lemma group_can_step:
  assumes "Wait g = None"
  shows "\<exists>g'. group_step B X g g'"
proof -
  have c: "\<not> crashed g" and "\<not> list_all (\<lambda>(i, r). is_ended r) (gr_routines g)"
    using assms by (auto simp: Wait_def split: if_splits)
  then obtain k i r where k: "k < length (gr_routines g)" "gr_routines g ! k = (i, r)" "\<not> is_ended r"
    by (auto simp: list_all_length)
  moreover have "\<exists>x. routine_step B X i r (gr_pm g) = Some x"
    using k(3) by (cases "(B, X, i, r, gr_pm g)" rule: routine_step.cases) (auto simp: is_ended_def)
  ultimately show ?thesis using group_step.turn [OF c k(1,2)] by (metis surj_pair)
qed

lemma Wait_stuck: "Wait g = Some r \<Longrightarrow> \<not> group_step B X g g'"
proof
  assume w: "Wait g = Some r" and "group_step B X g g'"
  from this(2) show False
  proof cases
    case (turn k i r r' pm')
    with w routine_step_working [OF turn(5)] show False
      by (auto simp: Wait_def list_all_length split: if_splits dest: spec [of _ k])
  qed
qed

lemma group_returns: "\<exists>g' r. (group_step B X)\<^sup>*\<^sup>* g g' \<and> Wait g' = Some r"
proof (induction "group_size g" arbitrary: g rule: less_induct)
  case less
  show ?case
  proof (cases "Wait g")
    case None
    with group_can_step obtain h where h: "group_step B X g h" by blast
    from less [OF group_step_size [OF h]] show ?thesis
      using h by (meson converse_rtranclp_into_rtranclp)
  qed auto
qed

lemma run_polls:
  assumes B: "badger_reliable B db_map txn_map"
  shows "launchPollRecordLoop B X fs qm = Some qm' \<Longrightarrow> list_all fetch_ok fs \<Longrightarrow> pm_ok db_map pm \<Longrightarrow> pm_ok db_map qm \<Longrightarrow>
    abs_node db_map qm = abs_node db_map pm \<Longrightarrow> \<exists>pm'. polls B X fs pm pm' \<and> abs_node db_map qm' = abs_node db_map pm'"
proof (induction fs arbitrary: pm qm)
  case Nil
  then show ?case using polls.none by auto
next
  case (Cons f fs)
  let ?parts = "f_Partitions f"
  have ok: "distinct (map fst ?parts)" "\<forall>(i, ws) \<in> set ?parts. wires_ok ws" and fs: "list_all fetch_ok fs"
    using Cons.prems(2) by (auto simp: fetch_ok_def list_all_iff)
  show ?case
  proof (cases "f_Errors f")
    case Nil
    obtain r2 qm1 where all: "consume_all B X ?parts qm = (r2, qm1)" by fastforce
    with Cons.prems(1) Nil have r2: "r2 \<noteq> Panic" and loop: "launchPollRecordLoop B X fs qm1 = Some qm'"
      by (auto simp: pollRecords_def split: go.splits)
    obtain g r where g: "(group_step B X)\<^sup>*\<^sup>* (start_group ?parts pm) g" "Wait g = Some r"
      using group_returns by blast
    note G = badger_reliable.group_any_schedule [OF B Cons.prems(3) ok g]
    note Q = badger_reliable.consume_all_fate [OF B Cons.prems(4) ok all]
    have r: "r \<noteq> Panic" using G Q summary_agree r2 Cons.prems(5) by metis
    with G Q r2 Cons.prems(5)
    have "pm_ok db_map qm1" "abs_node db_map qm1 = abs_node db_map (gr_pm g)" "pm_ok db_map (gr_pm g)" by auto
    from Cons.IH [OF loop fs this(3,1,2)] polls.round [OF Nil g r] show ?thesis by blast
  next
    case (Cons e es)
    then have err: "f_Errors f \<noteq> []" by simp
    from pollRecords_failed [OF err, of B X qm] Cons.prems(1) have "launchPollRecordLoop B X fs qm = Some qm'"
      by (auto split: prod.splits go.splits)
    from Cons.IH [OF this fs Cons.prems(3-5)] polls.failed [OF err] show ?thesis by blast
  qed
qed

section \<open>Properties\<close>

text \<open>In the examples the node has partition 0 only; the records for partition 1 fail.\<close>

definition demo_parts :: "(int \<times> log) list" where
  "demo_parts = [(1, take 1 demo_log), (0, demo_log)]"

lemma demo_not_found:
  "consume_batch mem_badger demo_expr 1 (wire_log (take 1 demo_log)) demo_pm = (Err ErrPartitionNotFound, demo_pm)"
  "routine_step mem_badger demo_expr 1 (Working (wire_log (take 1 demo_log))) demo_pm =
    Some (Ended (Err ErrPartitionNotFound), demo_pm)"
  by code_simp+

lemma demo_fetch_ok: "fetch_ok (fetch_of (Some demo_parts))"
  by code_simp

text \<open>
  C13. The order in which the goroutines of a fetch take their turns does not matter: the states
  of a node that polling can end in, with any schedule of the goroutines of every fetch, whether
  mutations fail or not, are exactly the state that the loop of \<open>launchPollRecordLoop\<close> ends in,
  which runs them one after the other; and if that loop ends in a panic every schedule does.
\<close>

theorem any_schedule_is_sequential:
  assumes "badger_reliable B db_map txn_map" and "pm_ok db_map pm" and "list_all fetch_ok fs"
  shows "(\<exists>pm'. polls B X fs pm pm' \<and> abs_node db_map pm' = n) \<longleftrightarrow>
    (\<exists>pm'. launchPollRecordLoop B X fs pm = Some pm' \<and> abs_node db_map pm' = n)"
  using polls_run [OF assms(1) _ assms(3,2,2)] run_polls [OF assms(1) _ assms(3,2,2)] by metis

theorem any_schedule_is_sequential_witness:
  "\<exists>pm'. polls mem_badger demo_expr [fetch_of (Some demo_parts)] demo_pm pm' \<and>
     abs_node map_of pm' = [0 \<mapsto> (\<lambda>k. key_run demo_log k None, Some 2)]"
proof -
  have run: "spec_run demo_expr demo_log (\<lambda>_. None, None) = Ok (\<lambda>k. key_run demo_log k None, Some 2)"
    using spec_run_unconditional [OF demo_log_unconditional, of demo_expr "\<lambda>_. None" None] by (simp add: demo_log_def)
  have node: "abs_node map_of demo_pm 0 = Some (\<lambda>_. None, None)" by (simp add: demo_pm_abs)
  obtain pm' where b: "consume_batch mem_badger demo_expr 0 (wire_log demo_log) demo_pm = (Ok (), pm')"
      "abs_node map_of pm' = [0 \<mapsto> (\<lambda>k. key_run demo_log k None, Some 2)]"
    using mem.consume_batch_Ok [OF demo_pm_ok demo_log_ok node run] by (auto simp: demo_pm_abs)
  have "launchPollRecordLoop mem_badger demo_expr [fetch_of (Some demo_parts)] demo_pm = Some pm'"
    by (simp add: demo_parts_def demo_not_found(1) [unfolded One_nat_def] b(1) del: consume_batch.simps)
  with b(2) any_schedule_is_sequential [OF mem.badger_reliable_axioms demo_pm_ok, of "[fetch_of (Some demo_parts)]" demo_expr]
  show ?thesis by (auto simp: demo_fetch_ok)
qed



end
