(* ===== verification/System.thy ===== *)
theory System
  imports LogConsumer Interleave
begin

text \<open>
  Nodes, the mutation log and the bucket of backups as one system: every node polls the log
  (\<^verbatim>\<open>pollRecords\<close>), follows its assignment (\<^verbatim>\<open>topicInfoLoop\<close>), which may restore partitions, backs them
  up (\<^verbatim>\<open>runBackup\<close>), is stopped and started again, in any order. The steps call the models of the code;
  the log and the consuming client are described by what they promise. The locale \<open>replica_invariant\<close> says what a claim about replicas and their logs has to
  fulfil to be an invariant of the system; the theories \<open>Cluster\<close> and \<open>Failures\<close> interpret it.
\<close>

section \<open>State\<close>

text \<open>
  A node's process: the partitions it has open, its directory, its log consumer and the
  position of its consuming client in each partition of the log.
\<close>

record 'db process =
  pr_pm :: "'db PartitionManager"
  pr_disk :: "'db disk"
  pr_lc :: LogConsumer
  pr_pos :: "int \<Rightarrow> int"

record ('db, 's3) cluster =
  cl_logs :: "int \<Rightarrow> log"
  cl_bucket :: 's3
  cl_nodes :: "nat \<Rightarrow> 'db process"

definition pending :: "log \<Rightarrow> int \<Rightarrow> log" where
  "pending log pos = filter (\<lambda>(m, k). pos \<le> k) log"

text \<open>What the client does with a fetch it returns, and with a call of \<^verbatim>\<open>topicInfoLoop\<close>.\<close>

definition advance :: "(int \<times> log) list \<Rightarrow> (int \<Rightarrow> int) \<Rightarrow> int \<Rightarrow> int" where
  "advance batches pos = (\<lambda>i. case map_of batches i of
     None \<Rightarrow> pos i | Some ms \<Rightarrow> if ms = [] then pos i else snd (last ms) + 1)"

fun apply_call :: "kgo_call \<Rightarrow> (int \<Rightarrow> int) \<Rightarrow> int \<Rightarrow> int" where
  "apply_call (SetOffsets t offs) pos = (\<lambda>i. case map_of offs i of None \<Rightarrow> pos i | Some k \<Rightarrow> k)"
| "apply_call _ pos = pos"

section \<open>Steps\<close>

text \<open>A group assigns no partition twice, and partitions are numbered from 0.\<close>

definition assignment_ok :: "group_info \<Rightarrow> bool" where
  "assignment_ok resp \<longleftrightarrow> (\<forall>groups. resp = Inr groups \<longrightarrow>
     (\<forall>ms \<in> set groups. \<forall>me \<in> set ms. \<forall>topics. Assigned me = Some topics \<longrightarrow> (\<forall>(t, parts) \<in> set topics. distinct parts \<and> (\<forall>i \<in> set parts. 0 \<le> i))))"

text \<open>
  One step of a process, with the bucket of the backups. A fetch has, for each of its partitions,
  the records that come next at the client's position. The position of a partition the node has
  open moves only when records are fetched and when \<^verbatim>\<open>topicInfoLoop\<close> sets it; the client may move
  the others (it resumes a partition it is given at the offset the group has committed). A process
  that is killed, or panics, leaves in its directory what its transactions have committed; it is
  started again on the same machine or (\<open>replaced\<close>) on one without a directory. A partition that
  is on disk with an offset behind the newest backup is not opened by a node that restores: what
  loading a backup over it does is not documented.
\<close>

inductive process_step :: "('db, 'txn, 's3, 'bk) node_env \<Rightarrow> 'prog expr_lib \<Rightarrow> (int \<Rightarrow> log) \<Rightarrow> 's3 \<Rightarrow> 'db process \<Rightarrow> 'db process \<Rightarrow> bool"
  for E X logs s where
  polled: "distinct (map fst batches) \<Longrightarrow>
    \<forall>(i, ms) \<in> set batches. prefix ms (pending (logs i) (pr_pos n i)) \<Longrightarrow>
    pollRecords (env_B E) X (fetch_of (Some batches)) (pr_pm n) = (r, pm') \<Longrightarrow> r \<noteq> Panic \<Longrightarrow>
    process_step E X logs s n (n\<lparr>pr_pm := pm', pr_pos := advance batches (pr_pos n)\<rparr>)"
| poll_failed: "f_Errors f \<noteq> [] \<Longrightarrow> pollRecords (env_B E) X f (pr_pm n) = (r, pm') \<Longrightarrow>
    process_step E X logs s n (n\<lparr>pr_pm := pm'\<rparr>)"
| rebalanced: "\<forall>i. Load (Partitions (pr_pm n)) i \<noteq> None \<longrightarrow> pos' i = pr_pos n i \<Longrightarrow>
    process_step E X logs s n (n\<lparr>pr_pos := pos'\<rparr>)"
| assigned: "assignment_ok resp \<Longrightarrow>
    env_S3RestoreEnabled E \<longrightarrow> (\<forall>i. Load (Partitions (pr_pm n)) i = None \<longrightarrow>
      restores_clean E s (pr_disk n) (pm_Namespace (pr_pm n)) i) \<Longrightarrow>
    topicInfoLoop E s resp memberID (pr_lc n) (pr_pm n) (pr_disk n) = (st, calls, lc', pm', disk') \<Longrightarrow> st \<noteq> Exits \<Longrightarrow>
    process_step E X logs s n (n\<lparr>pr_pm := pm', pr_disk := disk', pr_lc := lc', pr_pos := fold apply_call calls (pr_pos n)\<rparr>)"
| restarted: "pm_Shutdown E (pr_pm n) (pr_disk n) = (r, disk') \<Longrightarrow>
    process_step E X logs s n (n\<lparr>pr_pm := NewPartitionManager (pm_Namespace (pr_pm n)), pr_disk := disk', pr_lc := lc', pr_pos := pos'\<rparr>)"
| killed: "\<forall>i. disk' (getPartitionPath i) =
      (case Load (Partitions (pr_pm n)) i of None \<Rightarrow> pr_disk n (getPartitionPath i) | Some p \<Rightarrow> Some (DB p)) \<Longrightarrow>
    process_step E X logs s n (n\<lparr>pr_pm := NewPartitionManager (pm_Namespace (pr_pm n)), pr_disk := disk', pr_lc := lc', pr_pos := pos'\<rparr>)"
| replaced: "\<forall>i. disk' (getPartitionPath i) = None \<Longrightarrow>
    process_step E X logs s n (n\<lparr>pr_pm := NewPartitionManager (pm_Namespace (pr_pm n)), pr_disk := disk', pr_lc := lc', pr_pos := pos'\<rparr>)"

inductive_cases process_stepE: "process_step E X logs s n n'"

text \<open>
  The cluster: the logs grow and stay good ones (\<open>L\<close>), one of the nodes takes a step, or backs up
  one of its partitions (while it applies no mutation to it: \<open>Replay\<close> has the other case).
\<close>

inductive cluster_step_on :: "(log \<Rightarrow> bool) \<Rightarrow> (nat \<Rightarrow> ('db, 'txn, 's3, 'bk) node_env) \<Rightarrow> 'prog expr_lib \<Rightarrow>
    ('db, 's3) cluster \<Rightarrow> ('db, 's3) cluster \<Rightarrow> bool"
  for L E X where
  produced: "\<forall>i. prefix (cl_logs c i) (logs' i) \<Longrightarrow> \<forall>i. L (logs' i) \<Longrightarrow> cluster_step_on L E X c (c\<lparr>cl_logs := logs'\<rparr>)"
| by_node: "process_step (E v) X (cl_logs c) (cl_bucket c) (cl_nodes c v) n' \<Longrightarrow>
    cluster_step_on L E X c (c\<lparr>cl_nodes := (cl_nodes c)(v := n')\<rparr>)"
| backed_up: "env_BackupEnabled (E v) \<Longrightarrow> Load (Partitions (pr_pm (cl_nodes c v))) i = Some p \<Longrightarrow>
    runBackup (env_A (E v)) (env_K (E v)) p (DB p) (cl_bucket c) = (r, s') \<Longrightarrow>
    cluster_step_on L E X c (c\<lparr>cl_bucket := s'\<rparr>)"

text \<open>At the start there is nothing, and all nodes are configured with one namespace.\<close>

definition process_start :: "string \<Rightarrow> 'db process \<Rightarrow> bool" where
  "process_start ns n \<longleftrightarrow> pr_pm n = NewPartitionManager ns \<and> (\<forall>i. pr_disk n (getPartitionPath i) = None)"

definition cluster_start :: "(nat \<Rightarrow> ('db, 'txn, 's3, 'bk) node_env) \<Rightarrow> string \<Rightarrow> ('db, 's3) cluster \<Rightarrow> bool" where
  "cluster_start E ns c \<longleftrightarrow> (\<forall>i. cl_logs c i = []) \<and> (\<forall>v. process_start ns (cl_nodes c v)) \<and>
     (\<forall>v i pages. s3_list (env_A (E v)) (cl_bucket c) (backup_prefix ns i) = (pages, None) \<longrightarrow> concat pages = [])"

inductive cluster_reach_on :: "(log \<Rightarrow> bool) \<Rightarrow> (nat \<Rightarrow> ('db, 'txn, 's3, 'bk) node_env) \<Rightarrow> 'prog expr_lib \<Rightarrow>
    string \<Rightarrow> ('db, 's3) cluster \<Rightarrow> bool"
  for L E X ns where
  reach_start: "cluster_start E ns c \<Longrightarrow> cluster_reach_on L E X ns c"
| reach_step: "cluster_reach_on L E X ns c \<Longrightarrow> cluster_step_on L E X c c' \<Longrightarrow> cluster_reach_on L E X ns c'"

lemma cluster_reach_steps: "(cluster_step_on L E X)\<^sup>*\<^sup>* c c' \<Longrightarrow> cluster_reach_on L E X ns c \<Longrightarrow> cluster_reach_on L E X ns c'"
  by (induction rule: rtranclp_induct) (auto intro: reach_step)

section \<open>Positions in a log\<close>

lemma offsets_split_at:
  "sorted_wrt (<) (map snd ms) \<Longrightarrow> x \<le> y \<Longrightarrow>
    filter (\<lambda>(m, k). k < y) ms = filter (\<lambda>(m, k). k < x) ms @ filter (\<lambda>(m, k). x \<le> k \<and> k < (y :: int)) ms"
proof (induction ms)
  case (Cons mk ms)
  obtain m k where mk: "mk = (m, k)" by fastforce
  have "filter (\<lambda>(m, k). k < x) ms = []" if "x \<le> k"
    using that Cons.prems(1) mk by (force simp: filter_empty_conv)
  with Cons mk show ?case by auto
qed simp

lemma offsets_split:
  "sorted_wrt (<) (map snd ms) \<Longrightarrow> ms = filter (\<lambda>(m, k). k < x) ms @ filter (\<lambda>(m, k). x \<le> (k :: int)) ms"
proof (induction ms)
  case (Cons mk ms)
  obtain m k where mk: "mk = (m, k)" by fastforce
  have "filter (\<lambda>(m, k). k < x) ms = []" if "x \<le> k"
    using that Cons.prems mk by (force simp: filter_empty_conv)
  with Cons mk show ?case by auto
qed simp

lemma filter_below:
  "\<forall>(m, k) \<in> set ms. k < (x :: int) \<Longrightarrow> filter (\<lambda>(m, k). x \<le> k) ms = [] \<and> filter (\<lambda>(m, k). k < x) ms = ms"
  by (induction ms) auto

lemma filter_above:
  "\<forall>(m, k) \<in> set ms. (x :: int) \<le> k \<Longrightarrow> filter (\<lambda>(m, k). x \<le> k) ms = ms \<and> filter (\<lambda>(m, k). k < x) ms = []"
  by (induction ms) auto

text \<open>The offset a run records is one of the log.\<close>

lemma offsets_ok_filter: "offsets_ok off ms \<Longrightarrow> offsets_ok off (filter P ms)"
  by (auto simp: offsets_ok_def sorted_wrt_filter filter_map [symmetric] comp_def sorted_wrt_map)

lemma run_offset:
  assumes "offsets_ok None ms" and "spec_run X ms (s0, None) = Ok (s, Some off)"
  shows "0 \<le> off \<and> off < 2 ^ 63 - 1"
  using replay_nothing [OF assms] assms(1) by (force simp: offsets_ok_def)

text \<open>The next record of a log.\<close>

lemma pending_next:
  assumes ok: "offsets_ok None log" and nxt: "pending log pos = (m, k) # rest"
  shows "(m, k) \<in> set log \<and> pos \<le> k \<and> 0 \<le> k \<and> k < 2 ^ 63 - 1 \<and> pending log (k + 1) = rest \<and>
    (\<forall>(m', k') \<in> set rest. k < k') \<and> filter (\<lambda>(m, k'). k' < k + 1) log = filter (\<lambda>(m, k). k < pos) log @ [(m, k)]"
proof -
  have sorted: "sorted_wrt (<) (map snd log)" using ok by (simp add: offsets_ok_def)
  have "(m, k) \<in> set (pending log pos)" by (simp add: nxt)
  then have mem: "(m, k) \<in> set log" "pos \<le> k" by (simp_all add: pending_def)
  then have k: "0 \<le> k" "k < 2 ^ 63 - 1" using ok by (force simp: offsets_ok_def)+
  obtain a where a: "a = filter (\<lambda>(m, k). k < pos) log" by blast
  have log: "log = a @ (m, k) # rest"
    using offsets_split [OF sorted, of pos] nxt by (simp add: pending_def a)
  have rest: "\<forall>(m', k') \<in> set rest. k < k'" and before: "\<forall>(m', k') \<in> set a. k' < k"
    using sorted unfolding log by (auto simp: sorted_wrt_append)
  have "\<forall>(m', k') \<in> set a. k' < k + 1" "\<forall>(m', k') \<in> set rest. k + 1 \<le> k'"
    using rest before by (auto dest!: bspec)
  from filter_below [OF this(1)] filter_above [OF this(2)]
  have "pending log (k + 1) = rest" "filter (\<lambda>(m, k'). k' < k + 1) log = a @ [(m, k)]"
    by (simp_all only: log pending_def filter_append filter.simps) simp_all
  then show ?thesis using mem k rest a by simp
qed

lemma pending_all:
  "offsets_ok None log \<Longrightarrow> pending log (if pending log pos = [] then pos else snd (last (pending log pos)) + 1) = []"
proof (cases "pending log pos = []")
  case False
  assume ok: "offsets_ok None log"
  let ?p = "pending log pos"
  have "sorted_wrt (<) (map snd log)" using ok by (simp add: offsets_ok_def)
  then have sorted: "sorted_wrt (<) (map snd ?p)" unfolding pending_def sorted_wrt_map by (rule sorted_wrt_filter)
  have p: "?p = butlast ?p @ [last ?p]" using False by simp
  have "snd mk \<le> snd (last ?p)" if "mk \<in> set ?p" for mk
    using that sorted by (subst (asm) (1 2) p) (auto simp: sorted_wrt_append)
  moreover have "pos \<le> snd (last ?p)" using last_in_set [OF False] by (auto simp: pending_def)
  ultimately have "(m, k) \<in> set log \<Longrightarrow> k < snd (last ?p) + 1" for m k
    by (cases "pos \<le> k") (force simp: pending_def)+
  then have "pending log (snd (last ?p) + 1) = []"
    by (simp only: pending_def filter_empty_conv) force
  then show ?thesis using False by simp
qed simp

section \<open>Invariants of processes\<close>

text \<open>
  What is claimed of the replicas of a log, in memory (with the position of the client, \<open>P\<close>)
  and in a directory (\<open>R\<close>).
\<close>

definition process_inv :: "('db \<Rightarrow> bytes \<Rightarrow> wire option) \<Rightarrow> (log \<Rightarrow> replica \<Rightarrow> bool) \<Rightarrow> (log \<Rightarrow> replica \<Rightarrow> int \<Rightarrow> bool) \<Rightarrow>
    string \<Rightarrow> (int \<Rightarrow> log) \<Rightarrow> 'db process \<Rightarrow> bool" where
  "process_inv db_map R P ns logs n \<longleftrightarrow> pm_ok db_map (pr_pm n) \<and> pm_Namespace (pr_pm n) = ns \<and>
     (\<forall>i st. abs_node db_map (pr_pm n) i = Some st \<longrightarrow> R (logs i) st \<and> P (logs i) st (pr_pos n i)) \<and>
     (\<forall>i d. abs_node db_map (pr_pm n) i = None \<longrightarrow> pr_disk n (getPartitionPath i) = Some d \<longrightarrow>
        store_ok (db_map d) \<and> R (logs i) (abs_store (db_map d)))"

lemma process_invI:
  assumes "pm_ok db_map (pr_pm n)" and "pm_Namespace (pr_pm n) = ns"
    and "\<And>i st. abs_node db_map (pr_pm n) i = Some st \<Longrightarrow> R (logs i) st \<and> P (logs i) st (pr_pos n i)"
    and "\<And>i d. abs_node db_map (pr_pm n) i = None \<Longrightarrow> pr_disk n (getPartitionPath i) = Some d \<Longrightarrow>
      store_ok (db_map d) \<and> R (logs i) (abs_store (db_map d))"
  shows "process_inv db_map R P ns logs n"
  using assms unfolding process_inv_def by blast

lemma process_invD:
  assumes "process_inv db_map R P ns logs n"
  shows "pm_ok db_map (pr_pm n)" and "pm_Namespace (pr_pm n) = ns"
    and "abs_node db_map (pr_pm n) i = Some st \<Longrightarrow> R (logs i) st \<and> P (logs i) st (pr_pos n i)"
    and "abs_node db_map (pr_pm n) i = None \<Longrightarrow> pr_disk n (getPartitionPath i) = Some d \<Longrightarrow>
      store_ok (db_map d) \<and> R (logs i) (abs_store (db_map d))"
  using assms unfolding process_inv_def by blast+

lemma abs_node_Load: "abs_node db_map pm i = map_option (\<lambda>p. abs_store (db_map (DB p))) (Load (Partitions pm) i)"
  by (simp add: abs_node_def)

lemma pm_Namespace_new: "pm_Namespace (NewPartitionManager ns) = ns"
  by (simp add: NewPartitionManager_def)

text \<open>Polling does not rename the node.\<close>

lemma pm_HandleMutation_Namespace: "pm_HandleMutation B X pm i w off = (r, pm') \<Longrightarrow> pm_Namespace pm' = pm_Namespace pm"
  by (auto simp: pm_HandleMutation_def split: go.splits option.splits prod.splits)

lemma consume_batch_Namespace: "consume_batch B X i ws pm = (r, pm') \<Longrightarrow> pm_Namespace pm' = pm_Namespace pm"
  by (induction B X i ws pm rule: consume_batch.induct)
    (auto split: go.splits prod.splits dest!: pm_HandleMutation_Namespace)

lemma consume_all_Namespace: "consume_all B X parts pm = (r, pm') \<Longrightarrow> pm_Namespace pm' = pm_Namespace pm"
proof (induction parts arbitrary: pm r pm')
  case (Cons part parts)
  obtain i ws r1 pm1 r2 pm2 where run: "part = (i, ws)" "consume_batch B X i ws pm = (r1, pm1)" "consume_all B X parts pm1 = (r2, pm2)"
    by (metis surj_pair)
  then have "pm' = pm1 \<or> pm' = pm2" using Cons.prems by (auto split: go.splits)
  with consume_batch_Namespace [OF run(2)] Cons.IH [OF run(3)] show ?case by auto
qed simp

lemma pollRecords_Namespace: "pollRecords B X f pm = (r, pm') \<Longrightarrow> pm_Namespace pm' = pm_Namespace pm"
  by (auto simp: pollRecords_def Let_def dest: consume_all_Namespace split: if_splits)

text \<open>A process whose partitions were all closed, or lost with it: what was open is on disk.\<close>

lemma process_inv_stopped:
  assumes inv: "process_inv db_map R P ns logs n"
    and disk: "\<And>i p. Load (Partitions (pr_pm n)) i = Some p \<Longrightarrow> disk' (getPartitionPath i) = Some (DB p)"
      "\<And>i. Load (Partitions (pr_pm n)) i = None \<Longrightarrow> disk' (getPartitionPath i) = pr_disk n (getPartitionPath i)"
  shows "process_inv db_map R P ns logs (n\<lparr>pr_pm := NewPartitionManager (pm_Namespace (pr_pm n)), pr_disk := disk', pr_lc := lc', pr_pos := pos'\<rparr>)"
proof (rule process_invI)
  fix i d assume "pr_disk (n\<lparr>pr_pm := NewPartitionManager (pm_Namespace (pr_pm n)), pr_disk := disk', pr_lc := lc', pr_pos := pos'\<rparr>) (getPartitionPath i) = Some d"
  then have d: "disk' (getPartitionPath i) = Some d" by simp
  show "store_ok (db_map d) \<and> R (logs i) (abs_store (db_map d))"
  proof (cases "Load (Partitions (pr_pm n)) i")
    case None
    with d disk(2) process_invD(4) [OF inv, of i d] show ?thesis by (simp add: abs_node_Load)
  next
    case (Some p)
    with d disk(1) have "DB p = d" by simp
    with Some process_invD(3) [OF inv, of i "abs_store (db_map d)"] process_invD(1) [OF inv] show ?thesis
      by (auto simp: abs_node_Load pm_ok_def part_ok_def)
  qed
qed (simp_all add: pm_ok_new abs_node_new pm_Namespace_new process_invD(2) [OF inv])

text \<open>A process that starts, on an empty directory.\<close>

lemma process_inv_start: "process_start ns n \<Longrightarrow> process_inv db_map R P ns logs n"
  by (rule process_invI) (auto simp: process_start_def pm_ok_new abs_node_new pm_Namespace_new)

text \<open>Dropping partitions.\<close>

lemma process_inv_drops:
  assumes inv: "process_inv db_map R P ns logs n" and drops: "drops db_map (pr_pm n) (pr_disk n) pm' disk'"
  shows "process_inv db_map R P ns logs (n\<lparr>pr_pm := pm', pr_disk := disk', pr_lc := lc'\<rparr>)"
proof (rule process_invI)
  show "pm_ok db_map (pr_pm (n\<lparr>pr_pm := pm', pr_disk := disk', pr_lc := lc'\<rparr>))"
    using drops by (simp add: drops_def)
  show "pm_Namespace (pr_pm (n\<lparr>pr_pm := pm', pr_disk := disk', pr_lc := lc'\<rparr>)) = ns"
    using drops process_invD(2) [OF inv] by (simp add: drops_def)
next
  fix i st assume "abs_node db_map (pr_pm (n\<lparr>pr_pm := pm', pr_disk := disk', pr_lc := lc'\<rparr>)) i = Some st"
  then have "abs_node db_map (pr_pm n) i = Some st" using drops by (auto simp: drops_def dest!: spec [of _ i])
  from process_invD(3) [OF inv this]
  show "R (logs i) st \<and> P (logs i) st
      (pr_pos (n\<lparr>pr_pm := pm', pr_disk := disk', pr_lc := lc'\<rparr>) i)" by simp
next
  fix i d assume "abs_node db_map (pr_pm (n\<lparr>pr_pm := pm', pr_disk := disk', pr_lc := lc'\<rparr>)) i = None"
    and "pr_disk (n\<lparr>pr_pm := pm', pr_disk := disk', pr_lc := lc'\<rparr>) (getPartitionPath i) = Some d"
  then have gone: "abs_node db_map pm' i = None" "disk' (getPartitionPath i) = Some d" by simp_all
  from drops consider
      "abs_node db_map pm' i = abs_node db_map (pr_pm n) i" "disk' (getPartitionPath i) = pr_disk n (getPartitionPath i)"
    | "store_ok (db_map d)" "abs_node db_map (pr_pm n) i = Some (abs_store (db_map d))"
    using gone(2) by (auto simp: drops_def dest!: spec [of _ i])
  then show "store_ok (db_map d) \<and> R (logs i) (abs_store (db_map d))"
  proof cases
    case 1
    with gone process_invD(4) [OF inv, of i d] show ?thesis by simp
  next
    case 2
    with process_invD(3) [OF inv 2(2)] show ?thesis by simp
  qed
qed

text \<open>What a call of \<^verbatim>\<open>topicInfoLoop\<close> tells the client.\<close>

lemma apply_calls:
  "fold apply_call (if news = [] then [] else
      [PauseFetchPartitions t news, SetOffsets t (map (\<lambda>i. (i, f i)) news), ResumeFetchPartitions t news]) pos =
    (\<lambda>i. if i \<in> set news then f i else pos i)"
  by (auto simp: map_of_map_restrict restrict_map_def fun_eq_iff)

text \<open>What a fetch that does not panic makes of each partition.\<close>

lemma fetch_fate:
  assumes B: "badger_reliable B db_map txn_map" and ok: "pm_ok db_map pm"
    and batches: "distinct (map fst batches)" "\<forall>(i, ms) \<in> set batches. log_ok ms"
    and run: "pollRecords B X (fetch_of (Some batches)) pm = (r, pm')" "r \<noteq> Panic"
  shows "pm_ok db_map pm'"
    and "map_of batches i = None \<Longrightarrow> abs_node db_map pm' i = abs_node db_map pm i"
    and "(i, ms) \<in> set batches \<Longrightarrow> abs_node db_map pm i = Some st \<Longrightarrow>
      \<exists>st' res. spec_batch X (wire_log ms) (Some st) = (Some st', res) \<and> res \<noteq> Panic \<and> abs_node db_map pm' i = Some st'"
    and "abs_node db_map pm' i = None \<longleftrightarrow> abs_node db_map pm i = None"
proof -
  let ?parts = "map (\<lambda>(i, l). (i, wire_log l)) batches"
  have parts: "distinct (map fst ?parts)" "\<forall>(i, ws) \<in> set ?parts. wires_ok ws"
    using batches by (auto simp: comp_def case_prod_unfold wires_ok_log)
  have "consume_all B X ?parts pm = (r, pm')" using run(1) by (simp add: pollRecords_def fetch_of_def)
  from badger_reliable.consume_all_fate [OF B ok parts this] run(2)
  have sum: "summary (results X ?parts (abs_node db_map pm)) r" and pm': "pm_ok db_map pm'"
    "abs_node db_map pm' = run_parts X ?parts (abs_node db_map pm)" by auto
  show "pm_ok db_map pm'" by (rule pm'(1))
  have node: "abs_node db_map pm' i = (case map_of batches i of None \<Rightarrow> abs_node db_map pm i
    | Some ms \<Rightarrow> fst (spec_batch X (wire_log ms) (abs_node db_map pm i)))" for i
    by (simp add: pm'(2) run_parts_def map_of_map split: option.split)
  then show "abs_node db_map pm' i = abs_node db_map pm i" if "map_of batches i = None" using that by simp
  show "\<exists>st' res. spec_batch X (wire_log ms) (Some st) = (Some st', res) \<and> res \<noteq> Panic \<and> abs_node db_map pm' i = Some st'"
    if i: "(i, ms) \<in> set batches" and st: "abs_node db_map pm i = Some st"
  proof -
    have "snd (spec_batch X (wire_log ms) (abs_node db_map pm i)) \<noteq> Panic"
      using sum run(2) i by (force simp: summary_def results_def list_all_iff split: go.splits)
    with node [of i] i st batches(1) spec_batch_open [of X "wire_log ms" st] show ?thesis
      by (cases "spec_batch X (wire_log ms) (Some st)") auto
  qed
  show "abs_node db_map pm' i = None \<longleftrightarrow> abs_node db_map pm i = None"
  proof (cases "map_of batches i")
    case (Some ms)
    with node [of i] spec_batch_open [of X "wire_log ms"] show ?thesis
      by (cases "abs_node db_map pm i") (simp add: spec_batch_closed, metis option.distinct(1) option.simps(5))
  qed (use node [of i] in simp)
qed

text \<open>A fetch with records of one partition that the node has open.\<close>

lemma polled_partition:
  assumes B: "badger_reliable (env_B E) db_map txn_map" and ok: "pm_ok db_map (pr_pm n)"
    and log: "log_ok (logs i)" and ms: "prefix ms (pending (logs i) (pr_pos n i))"
    and st: "abs_node db_map (pr_pm n) i = Some st" and run: "spec_batch X (wire_log ms) (Some st) = (Some st', r)" "r \<noteq> Panic"
  shows "\<exists>n'. process_step E X logs s n n' \<and> pm_ok db_map (pr_pm n') \<and>
    abs_node db_map (pr_pm n') = (abs_node db_map (pr_pm n))(i \<mapsto> st') \<and>
    pr_pos n' = (pr_pos n)(i := if ms = [] then pr_pos n i else snd (last ms) + 1)"
proof -
  have "set ms \<subseteq> set (logs i)" using ms by (auto simp: pending_def dest!: set_mono_prefix)
  with log have wires: "wires_ok (wire_log ms)" by (intro wires_ok_log) (auto simp: log_ok_def)
  obtain r' pm' where b: "consume_batch (env_B E) X i (wire_log ms) (pr_pm n) = (r', pm')" by fastforce
  from badger_reliable.consume_batch_fate [OF B ok wires b] run
  have r': "r' = r" and pm': "pm_ok db_map pm'" "abs_node db_map pm' = (abs_node db_map (pr_pm n))(i \<mapsto> st')"
    by (simp_all add: st)
  have "pollRecords (env_B E) X (fetch_of (Some [(i, ms)])) (pr_pm n) = (r, pm')"
    using b run(2) by (cases r) (auto simp: fetch_of_def pollRecords_def r')
  then have "process_step E X logs s n (n\<lparr>pr_pm := pm', pr_pos := advance [(i, ms)] (pr_pos n)\<rparr>)"
    using ms run(2) by (intro polled) simp_all
  moreover have "advance [(i, ms)] (pr_pos n) = (pr_pos n)(i := if ms = [] then pr_pos n i else snd (last ms) + 1)"
    by (auto simp: advance_def fun_eq_iff)
  ultimately show ?thesis using pm' by force
qed

text \<open>
  What the nodes call: stores and directories that work; and, if one of them restores, a bucket
  that works for all of them.
\<close>

locale system_env =
  fixes E :: "nat \<Rightarrow> ('db, 'txn, 's3, 'bk) node_env" and db_map txn_map s3_map bk_map
  assumes nodes: "node_disk (E v) db_map txn_map" and session: "env_session (E v) = None"
    and storage: "env_S3RestoreEnabled (E w) \<Longrightarrow> backup_node (E v) db_map txn_map s3_map bk_map"

text \<open>
  What such a claim has to fulfil for logs that are good (\<open>L\<close>): it holds of an empty replica, at the
  position behind the recorded offset, it is kept when the log grows, and when records are
  delivered, also if one of them fails.
\<close>

locale replica_invariant =
  fixes X :: "'prog expr_lib" and L :: "log \<Rightarrow> bool" and R :: "log \<Rightarrow> replica \<Rightarrow> bool" and P :: "log \<Rightarrow> replica \<Rightarrow> int \<Rightarrow> bool"
  assumes empty_log: "L []"
    and accepted: "L log \<Longrightarrow> log_ok log"
    and fresh: "L log \<Longrightarrow> R log (Map.empty, None)"
    and recorded: "L log \<Longrightarrow> R log (s, Some off) \<Longrightarrow> 0 \<le> off \<and> off < 2 ^ 63 - 1"
    and resumed: "R log st \<Longrightarrow> P log st (resetOffset (snd st))"
    and grown: "L log' \<Longrightarrow> prefix log log' \<Longrightarrow> R log st \<Longrightarrow> P log st pos \<Longrightarrow> R log' st \<and> P log' st pos"
    and delivered: "L log \<Longrightarrow> R log st \<Longrightarrow> P log st pos \<Longrightarrow> prefix ms (pending log pos) \<Longrightarrow>
      spec_batch X (wire_log ms) (Some st) = (Some st', r) \<Longrightarrow> r \<noteq> Panic \<Longrightarrow>
      R log st' \<and> P log st' (if ms = [] then pos else snd (last ms) + 1)"
begin

text \<open>Opening partitions.\<close>

lemma process_inv_opens:
  assumes inv: "process_inv db_map R P ns logs n"
    and pm1: "pm_ok db_map pm1" "pm_Namespace pm1 = ns" "\<forall>j. j \<notin> set news \<longrightarrow> disk1 (getPartitionPath j) = pr_disk n (getPartitionPath j)"
      "abs_node db_map pm1 = (\<lambda>i. if i \<in> set news then Some (F i) else abs_node db_map (pr_pm n) i)"
    and new: "\<forall>i \<in> set news. R (logs i) (F i)"
    and pos: "pos1 = (\<lambda>i. if i \<in> set news then resetOffset (snd (F i)) else pr_pos n i)"
  shows "process_inv db_map R P ns logs (n\<lparr>pr_pm := pm1, pr_disk := disk1, pr_pos := pos1\<rparr>)"
proof (rule process_invI)
  fix i st assume "abs_node db_map (pr_pm (n\<lparr>pr_pm := pm1, pr_disk := disk1, pr_pos := pos1\<rparr>)) i = Some st"
  then have st: "abs_node db_map pm1 i = Some st" by simp
  show "R (logs i) st \<and> P (logs i) st (pr_pos (n\<lparr>pr_pm := pm1, pr_disk := disk1, pr_pos := pos1\<rparr>) i)"
  proof (cases "i \<in> set news")
    case True
    with st have "F i = st" by (simp add: pm1(4))
    with bspec [OF new True] resumed [of "logs i" st] True show ?thesis by (simp add: pos)
  next
    case False
    then show ?thesis using st process_invD(3) [OF inv, of i st] by (simp add: pm1(4) pos)
  qed
next
  fix i d assume "abs_node db_map (pr_pm (n\<lparr>pr_pm := pm1, pr_disk := disk1, pr_pos := pos1\<rparr>)) i = None"
    "pr_disk (n\<lparr>pr_pm := pm1, pr_disk := disk1, pr_pos := pos1\<rparr>) (getPartitionPath i) = Some d"
  then show "store_ok (db_map d) \<and> R (logs i) (abs_store (db_map d))"
    using process_invD(4) [OF inv, of i d] pm1(3) by (simp add: pm1(4) split: if_splits)
qed (simp_all add: pm1(1,2))

text \<open>What new partitions open with: their directory, or a backup.\<close>

lemma node_opens:
  assumes node: "node_disk E db_map txn_map" and session: "env_session E = None"
    and restore: "env_S3RestoreEnabled E \<Longrightarrow> backup_node E db_map txn_map s3_map bk_map \<and>
      backups_ok bk_map (s3_map s) ns i (R (logs i)) \<and> restores_clean E s (pr_disk n) ns i"
    and inv: "process_inv db_map R P ns logs n" and i: "0 \<le> i" "abs_node db_map (pr_pm n) i = None" and log: "L (logs i)"
  shows "\<exists>st. opens db_map E s (pr_disk n) ns i st \<and> R (logs i) st"
proof -
  have dir: "\<And>d. pr_disk n (getPartitionPath i) = Some d \<Longrightarrow> store_ok (db_map d) \<and> R (logs i) (abs_store (db_map d))"
    by (rule process_invD(4) [OF inv i(2)])
  note new = fresh [OF log]
  show ?thesis
  proof (cases "env_S3RestoreEnabled E")
    case True
    note b = restore [OF True]
    show ?thesis
      by (rule backup_node.opens_restored [where disk = "pr_disk n" and i = i and R = "R (logs i)", OF _ True session i(1) _ _ new dir])
        (use b in blast)+
  next
    case False
    have "R (logs i) (abs_store (stored db_map (pr_disk n) i))"
      using dir new by (auto simp: stored_def abs_store_empty split: option.split)
    moreover have "opens db_map E s (pr_disk n) ns i (abs_store (stored db_map (pr_disk n) i))"
      using dir by (intro node_disk.opens_stored [OF node False session]) blast
    ultimately show ?thesis by blast
  qed
qed

text \<open>A run of \<^verbatim>\<open>topicInfoLoop\<close>.\<close>

lemma process_inv_assigned:
  assumes node: "node_disk E db_map txn_map" and session: "env_session E = None"
    and restore: "env_S3RestoreEnabled E \<Longrightarrow> backup_node E db_map txn_map s3_map bk_map \<and>
      (\<forall>i. 0 \<le> i \<longrightarrow> backups_ok bk_map (s3_map s) ns i (R (logs i)))"
    and clean: "env_S3RestoreEnabled E \<longrightarrow> (\<forall>i. Load (Partitions (pr_pm n)) i = None \<longrightarrow>
      restores_clean E s (pr_disk n) (pm_Namespace (pr_pm n)) i)"
    and logs: "\<forall>i. L (logs i)" and inv: "process_inv db_map R P ns logs n" and resp: "assignment_ok resp"
    and run: "topicInfoLoop E s resp memberID (pr_lc n) (pr_pm n) (pr_disk n) = (st, calls, lc', pm', disk')"
  shows "process_inv db_map R P ns logs (n\<lparr>pr_pm := pm', pr_disk := disk', pr_lc := lc', pr_pos := fold apply_call calls (pr_pos n)\<rparr>)"
proof (cases "\<exists>ms groups me topics. resp = Inr (ms # groups) \<and> find (\<lambda>item. MemberID item = memberID) ms = Some me \<and> Assigned me = Some topics \<and> topics \<noteq> []")
  case False
  from topicInfoLoop_idle [OF this, of E s "pr_lc n" "pr_pm n" "pr_disk n"] run
  have "calls = []" "pm' = pr_pm n" "disk' = pr_disk n" by auto
  with inv show ?thesis by (simp add: process_inv_def)
next
  case True
  then obtain ms groups me topic parts rest where me: "resp = Inr (ms # groups)"
      "find (\<lambda>item. MemberID item = memberID) ms = Some me" "Assigned me = Some ((topic, parts) # rest)"
    by (metis list.exhaust surj_pair)
  then have "me \<in> set ms" by (auto simp: find_Some_iff)
  with me resp have parts: "distinct parts" "\<forall>i \<in> set parts. 0 \<le> i" by (force simp: assignment_ok_def)+
  obtain news where news: "news = filter (\<lambda>i. abs_node db_map (pr_pm n) i = None) parts" by blast
  have "\<exists>st. opens db_map E s (pr_disk n) ns i st \<and> R (logs i) st" if i: "i \<in> set news" for i
  proof (rule node_opens [OF node session _ inv])
    show "0 \<le> i" and none: "abs_node db_map (pr_pm n) i = None" and "L (logs i)" using i parts(2) logs by (auto simp: news)
    then show "backup_node E db_map txn_map s3_map bk_map \<and> backups_ok bk_map (s3_map s) ns i (R (logs i)) \<and>
        restores_clean E s (pr_disk n) ns i" if "env_S3RestoreEnabled E"
      using restore [OF that] clean that process_invD(2) [OF inv] by (simp add: abs_node_Load)
  qed
  then obtain F where F: "\<And>i. i \<in> set news \<Longrightarrow> opens db_map E s (pr_disk n) ns i (F i) \<and> R (logs i) (F i)" by metis
  then have opens: "\<forall>i \<in> set parts. abs_node db_map (pr_pm n) i = None \<longrightarrow> opens db_map E s (pr_disk n) (pm_Namespace (pr_pm n)) i (F i)"
    by (simp add: news process_invD(2) [OF inv])
  from node_disk.topicInfoLoop_opens [OF node process_invD(1) [OF inv] me(2,3) parts(1) opens, of groups "pr_lc n",
      folded news, unfolded run [unfolded me(1)] prod.inject process_invD(2) [OF inv]]
  obtain pm1 disk1 where
    calls: "calls = (if news = [] then [] else
        [PauseFetchPartitions (formatMutationTopic (lc_Namespace (pr_lc n))) news,
         SetOffsets (formatMutationTopic (lc_Namespace (pr_lc n))) (map (\<lambda>i. (i, resetOffset (snd (F i)))) news),
         ResumeFetchPartitions (formatMutationTopic (lc_Namespace (pr_lc n))) news])"
    and pm1: "pm_ok db_map pm1" "pm_Namespace pm1 = ns"
      "\<forall>j. j \<notin> set news \<longrightarrow> disk1 (getPartitionPath j) = pr_disk n (getPartitionPath j)"
      "abs_node db_map pm1 = (\<lambda>i. if i \<in> set news then Some (F i) else abs_node db_map (pr_pm n) i)"
    and drops: "drops db_map pm1 disk1 pm' disk'"
    by blast
  have "\<forall>i \<in> set news. R (logs i) (F i)" using F by blast
  from process_inv_opens [OF inv pm1 this apply_calls [of news "formatMutationTopic (lc_Namespace (pr_lc n))" _ "pr_pos n"]]
  have "process_inv db_map R P ns logs (n\<lparr>pr_pm := pm1, pr_disk := disk1, pr_pos := fold apply_call calls (pr_pos n)\<rparr>)"
    unfolding calls .
  from process_inv_drops [OF this, of pm' disk' lc'] drops show ?thesis by (simp add: process_inv_def)
qed

text \<open>A fetch with batches for open and for other partitions.\<close>

lemma process_inv_polled:
  assumes B: "badger_reliable B db_map txn_map" and logs: "\<forall>i. L (logs i)" and inv: "process_inv db_map R P ns logs n"
    and batches: "distinct (map fst batches)" "\<forall>(i, ms) \<in> set batches. prefix ms (pending (logs i) (pr_pos n i))"
    and run: "pollRecords B X (fetch_of (Some batches)) (pr_pm n) = (r, pm')" "r \<noteq> Panic"
  shows "process_inv db_map R P ns logs (n\<lparr>pr_pm := pm', pr_pos := advance batches (pr_pos n)\<rparr>)"
proof -
  have batch: "prefix ms (pending (logs i) (pr_pos n i))" "log_ok ms" if "(i, ms) \<in> set batches" for i ms
  proof -
    show p: "prefix ms (pending (logs i) (pr_pos n i))" using batches(2) that by auto
    then have "set ms \<subseteq> set (logs i)" by (auto simp: pending_def dest!: set_mono_prefix)
    then show "log_ok ms" using accepted [of "logs i"] logs by (auto simp: log_ok_def)
  qed
  then have "\<forall>(i, ms) \<in> set batches. log_ok ms" by blast
  note fate = fetch_fate [OF B process_invD(1) [OF inv] batches(1) this run]
  show ?thesis
  proof (rule process_invI)
    fix i st assume "abs_node db_map (pr_pm (n\<lparr>pr_pm := pm', pr_pos := advance batches (pr_pos n)\<rparr>)) i = Some st"
    then have st: "abs_node db_map pm' i = Some st" by simp
    then obtain st0 where st0: "abs_node db_map (pr_pm n) i = Some st0"
      using fate(4) [of i] by fastforce
    note old = process_invD(3) [OF inv st0]
    show "R (logs i) st \<and> P (logs i) st (pr_pos (n\<lparr>pr_pm := pm', pr_pos := advance batches (pr_pos n)\<rparr>) i)"
    proof (cases "map_of batches i")
      case None
      with old st st0 fate(2) [of i] show ?thesis by (simp add: advance_def)
    next
      case (Some ms)
      then have i: "(i, ms) \<in> set batches" by (rule map_of_SomeD)
      from fate(3) [OF i st0] st obtain res where "spec_batch X (wire_log ms) (Some st0) = (Some st, res)" "res \<noteq> Panic" by auto
      from delivered [OF _ conjunct1 [OF old] conjunct2 [OF old] batch(1) [OF i] this] logs Some show ?thesis
        by (simp add: advance_def)
    qed
  next
    fix i d assume "abs_node db_map (pr_pm (n\<lparr>pr_pm := pm', pr_pos := advance batches (pr_pos n)\<rparr>)) i = None"
      "pr_disk (n\<lparr>pr_pm := pm', pr_pos := advance batches (pr_pos n)\<rparr>) (getPartitionPath i) = Some d"
    with fate(4) [of i] process_invD(4) [OF inv, of i d] show "store_ok (db_map d) \<and> R (logs i) (abs_store (db_map d))" by simp
  qed (use fate(1) pollRecords_Namespace [OF run(1)] process_invD(2) [OF inv] in simp_all)
qed

text \<open>Every step of a process keeps the invariant.\<close>

lemma process_step_ok:
  assumes node: "node_disk E db_map txn_map" and session: "env_session E = None"
    and restore: "env_S3RestoreEnabled E \<Longrightarrow> backup_node E db_map txn_map s3_map bk_map \<and>
      (\<forall>i. 0 \<le> i \<longrightarrow> backups_ok bk_map (s3_map s) ns i (R (logs i)))"
    and logs: "\<forall>i. L (logs i)" and inv: "process_inv db_map R P ns logs n" and step: "process_step E X logs s n n'"
  shows "process_inv db_map R P ns logs n'"
  using step
proof cases
  case (polled batches r pm')
  with process_inv_polled [OF node_disk.axioms(1) [OF node] logs inv polled(2-5)] show ?thesis by simp
next
  case (poll_failed f r pm')
  then have "pm' = pr_pm n" by (auto simp: pollRecords_def Let_def split: if_splits)
  with poll_failed(1) inv show ?thesis by (simp add: process_inv_def)
next
  case (rebalanced pos')
  then have "pos' i = pr_pos n i" if "abs_node db_map (pr_pm n) i = Some st" for i st
    using that by (auto simp: abs_node_Load)
  with rebalanced(1) inv show ?thesis by (simp add: process_inv_def)
next
  case (assigned resp memberID st calls lc' pm' disk')
  with process_inv_assigned [OF node session restore assigned(3) logs inv assigned(2,4)] show ?thesis by simp
next
  case (restarted r disk' lc' pos')
  from pm_Shutdown_Ok [OF node_disk.close_ok [OF node] process_invD(1) [OF inv], of "pr_disk n"] restarted(2)
  have "\<forall>i p. Load (Partitions (pr_pm n)) i = Some p \<longrightarrow> disk' (getPartitionPath i) = Some (DB p)"
    "\<forall>i. Load (Partitions (pr_pm n)) i = None \<longrightarrow> disk' (getPartitionPath i) = pr_disk n (getPartitionPath i)"
    by auto
  with process_inv_stopped [OF inv, of disk' lc' pos'] restarted(1) show ?thesis by simp
next
  case (killed disk' lc' pos')
  with process_inv_stopped [OF inv, of disk' lc' pos'] show ?thesis by simp
next
  case (replaced disk' lc' pos')
  with process_inv_start [of ns n'] process_invD(2) [OF inv] show ?thesis by (simp add: process_start_def)
qed

text \<open>The cluster.\<close>

lemma process_inv_grows:
  assumes "\<forall>i. L (logs' i)" and "\<forall>i. prefix (logs i) (logs' i)" and inv: "process_inv db_map R P ns logs n"
  shows "process_inv db_map R P ns logs' n"
proof (rule process_invI)
  fix i d assume "abs_node db_map (pr_pm n) i = None" "pr_disk n (getPartitionPath i) = Some d"
  from process_invD(4) [OF inv this] grown resumed assms(1,2)
  show "store_ok (db_map d) \<and> R (logs' i) (abs_store (db_map d))" by blast
qed (use process_invD(1,2,3) [OF inv] grown assms(1,2) in blast)+

lemma backups_grow: "\<forall>i. L (logs' i) \<Longrightarrow> \<forall>i. prefix (logs i) (logs' i) \<Longrightarrow>
    backups_ok bk_map objects ns i (R (logs i)) \<Longrightarrow> backups_ok bk_map objects ns i (R (logs' i))"
  using grown resumed unfolding backups_ok_def by (meson)

lemma cluster_inv_reach:
  assumes sys: "system_env E db_map txn_map s3_map bk_map"
  shows "cluster_reach_on L E X ns c \<Longrightarrow> (\<forall>i. L (cl_logs c i)) \<and> (\<forall>v. process_inv db_map R P ns (cl_logs c) (cl_nodes c v)) \<and>
    ((\<exists>w. env_S3RestoreEnabled (E w)) \<longrightarrow> (\<forall>i. 0 \<le> i \<longrightarrow> backups_ok bk_map (s3_map (cl_bucket c)) ns i (R (cl_logs c i))))"
proof (induction rule: cluster_reach_on.induct)
  case (reach_start c)
  then have "(\<forall>i. L (cl_logs c i)) \<and> (\<forall>v. process_inv db_map R P ns (cl_logs c) (cl_nodes c v))"
    by (simp add: cluster_start_def empty_log process_inv_start)
  moreover have "backups_ok bk_map (s3_map (cl_bucket c)) ns i (R (cl_logs c i))" if "env_S3RestoreEnabled (E w)" for w i
  proof -
    have b: "backup_node (E w) db_map txn_map s3_map bk_map" by (rule system_env.storage [OF sys that])
    obtain pages where p: "s3_list (env_A (E w)) (cl_bucket c) (backup_prefix ns i) = (pages, None)"
      using backup_node.lists [OF b] by blast
    with reach_start have "concat pages = []" unfolding cluster_start_def by blast
    with s3_bucket.list_keys [OF backup_node.axioms(2) [OF b] p]
    show ?thesis by (auto simp: backups_ok_def)
  qed
  ultimately show ?case by blast
next
  case (reach_step c c')
  from reach_step.hyps(2) show ?case
  proof cases
    case (produced logs')
    with reach_step.IH show ?thesis by (auto intro: process_inv_grows backups_grow)
  next
    case (by_node v n')
    have "process_inv db_map R P ns (cl_logs c) n'"
    proof (rule process_step_ok [OF system_env.nodes [OF sys, of v] system_env.session [OF sys, of v] _ _ _ by_node(2)])
      show "\<forall>i. L (cl_logs c i)" "process_inv db_map R P ns (cl_logs c) (cl_nodes c v)" using reach_step.IH by simp_all
      show "backup_node (E v) db_map txn_map s3_map bk_map \<and> (\<forall>i. 0 \<le> i \<longrightarrow> backups_ok bk_map (s3_map (cl_bucket c)) ns i (R (cl_logs c i)))"
        if "env_S3RestoreEnabled (E v)"
        using that reach_step.IH system_env.storage [OF sys that] by blast
    qed
    with by_node(1) reach_step.IH show ?thesis by simp
  next
    case (backed_up v j p r s')
    have inv: "process_inv db_map R P ns (cl_logs c) (cl_nodes c v)" and log: "L (cl_logs c j)" using reach_step.IH by simp_all
    have p: "ID p = j" "Namespace p = ns" "part_ok db_map p"
      using process_invD(1,2) [OF inv] backed_up(3) by (auto simp: pm_ok_def)
    have st: "R (cl_logs c j) (abs_store (db_map (DB p)))"
      using process_invD(3) [OF inv, of j] backed_up(3) by (simp add: abs_node_Load)
    have off: "0 \<le> off \<and> int64_range off" if "LastOffset p = Some off" for off
      using recorded [OF log, of "fst (abs_store (db_map (DB p)))" off] st p(3) that by (simp add: part_ok_def abs_store_def int64_range_def)
    have "backups_ok bk_map (s3_map s') ns i (R (cl_logs c i))" if "env_S3RestoreEnabled (E w)" "0 \<le> i" for w i
      using that reach_step.IH st p(1) off
      by (intro backup_node.runBackup_backups [OF system_env.storage [OF sys that(1)] _ that(2) p(3,2) _ _ backed_up(4)]) auto
    with reach_step.IH backed_up(1) show ?thesis by auto
  qed
qed

end

section \<open>A small cluster\<close>

definition demo_process :: "mem process" where
  "demo_process = \<lparr>pr_pm = NewPartitionManager ''ns'', pr_disk = Map.empty,
     pr_lc = \<lparr>ConsumerGroup = ''g'', lc_Namespace = ''ns'', MutationTopic = ''t'', NumPartitions = 1, Ready = False, shuttingDown = False\<rparr>,
     pr_pos = (\<lambda>_. 0)\<rparr>"

abbreviation demo_envs :: "bool \<Rightarrow> bool \<Rightarrow> nat \<Rightarrow> (mem, mem, mem mem_s3, mem) node_env" where
  "demo_envs b r \<equiv> \<lambda>_. mem_env b r"

interpretation demo: system_env "demo_envs b r" map_of map_of map_of map_of
  by unfold_locales (simp add: mem_env_def)

text \<open>A node that is assigned the partition 0: it holds what the partition opens with.\<close>

lemma demo_assigned:
  assumes "opens map_of (mem_env b r) s Map.empty ''ns'' 0 st"
  shows "\<exists>n. process_step (mem_env b r) X logs s demo_process n \<and>
    abs_node map_of (pr_pm n) 0 = Some st \<and> pr_pos n 0 = resetOffset (snd st)"
proof -
  let ?me = "\<lparr>MemberID = ''m'', Assigned = Some [(''t'', [0])]\<rparr>"
  have me: "find (\<lambda>item. MemberID item = ''m'') [?me] = Some ?me" "Assigned ?me = Some ((''t'', [0]) # [])" "distinct [0 :: int]" by simp_all
  have pr: "pr_disk demo_process = Map.empty" "pm_Namespace (pr_pm demo_process) = ''ns''" "pr_pos demo_process = (\<lambda>_. 0)"
    by (simp_all add: demo_process_def pm_Namespace_new)
  have pm: "pm_ok map_of (pr_pm demo_process)" "\<And>i. abs_node map_of (pr_pm demo_process) i = None"
    by (simp_all add: demo_process_def pm_ok_new abs_node_new)
  then have none: "dom (abs_node map_of (pr_pm demo_process)) = {}" by auto
  have "\<forall>i \<in> set [0]. abs_node map_of (pr_pm demo_process) i = None \<longrightarrow>
      opens map_of (mem_env b r) s (pr_disk demo_process) (pm_Namespace (pr_pm demo_process)) i st" using assms by (simp add: pr)
  from mem_node.topicInfoLoop_opens [OF pm(1) me this, of "[]" "pr_lc demo_process"]
  obtain calls lc' pm' disk' where run: "topicInfoLoop (mem_env b r) s (Inr ([?me] # [])) ''m'' (pr_lc demo_process) (pr_pm demo_process) (pr_disk demo_process)
      = (Returned, calls, lc', pm', disk')" "abs_node map_of pm' 0 = Some st" "fold apply_call calls (pr_pos demo_process) 0 = resetOffset (snd st)"
    by (auto simp: none pm(2) pr(3))
  have "assignment_ok (Inr ([?me] # []))" by (simp add: assignment_ok_def)
  moreover have "env_S3RestoreEnabled (mem_env b r) \<longrightarrow> (\<forall>i. Load (Partitions (pr_pm demo_process)) i = None \<longrightarrow>
      restores_clean (mem_env b r) s (pr_disk demo_process) (pm_Namespace (pr_pm demo_process)) i)"
    by (simp add: restores_clean_def pr(1))
  ultimately have "process_step (mem_env b r) X logs s demo_process (demo_process\<lparr>pr_pm := pm', pr_disk := disk', pr_lc := lc',
      pr_pos := fold apply_call calls (pr_pos demo_process)\<rparr>)" using run(1) by (rule process_step.assigned) simp
  with run(2,3) show ?thesis by fastforce
qed

lemma demo_opens: "opens map_of (mem_env b r) [] Map.empty ''ns'' 0 (Map.empty, None)"
  by (simp add: opens_def newPartition_def createLocalDB_def checkAndRestoreFromS3_def getLatestBackupOffset_def
      mem_env_def mem_s3_def part_ok_def abs_store_empty store_ok_empty abs_offset_def Let_def) blast

text \<open>Two nodes with the partition 0 open and its log not yet read, and one that is not used yet.\<close>

lemma small_cluster:
  assumes "\<And>i. L (logs i)"
  shows "\<exists>c. cluster_reach_on L (demo_envs b r) X ''ns'' c \<and> cl_logs c = logs \<and> cl_bucket c = [] \<and>
    abs_node map_of (pr_pm (cl_nodes c 0)) 0 = Some (Map.empty, None) \<and> pr_pos (cl_nodes c 0) 0 = 0 \<and>
    abs_node map_of (pr_pm (cl_nodes c 1)) 0 = Some (Map.empty, None) \<and> pr_pos (cl_nodes c 1) 0 = 0 \<and> cl_nodes c 2 = demo_process"
proof -
  let ?c0 = "\<lparr>cl_logs = (\<lambda>_. []), cl_bucket = [], cl_nodes = (\<lambda>_. demo_process)\<rparr> :: (mem, mem mem_s3) cluster"
  let ?c1 = "?c0\<lparr>cl_logs := logs\<rparr>"
  obtain n where n: "process_step (mem_env b r) X logs [] demo_process n" "abs_node map_of (pr_pm n) 0 = Some (Map.empty, None)" "pr_pos n 0 = 0"
    using demo_assigned [OF demo_opens, where X = X and logs = logs and b = b and r = r] by (auto simp: resetOffset_def)
  let ?c2 = "?c1\<lparr>cl_nodes := (cl_nodes ?c1)(0 := n)\<rparr>"
  let ?c3 = "?c2\<lparr>cl_nodes := (cl_nodes ?c2)(1 := n)\<rparr>"
  have "cluster_reach_on L (demo_envs b r) X ''ns'' ?c0"
    by (rule reach_start) (auto simp: cluster_start_def process_start_def demo_process_def mem_env_def mem_s3_def)
  moreover have "cluster_step_on L (demo_envs b r) X ?c0 ?c1" by (rule produced) (simp_all add: assms)
  moreover have "cluster_step_on L (demo_envs b r) X ?c1 ?c2" by (rule by_node) (use n(1) in simp)
  moreover have "cluster_step_on L (demo_envs b r) X ?c2 ?c3" by (rule by_node) (use n(1) in simp)
  ultimately have "cluster_reach_on L (demo_envs b r) X ''ns'' ?c3" by (blast intro: reach_step)
  then show ?thesis by (intro exI [of _ ?c3] conjI) (simp_all add: n(2,3))
qed

end
