(* ===== verification/Cluster.thy ===== *)
theory Cluster
  imports System
begin

text \<open>
  The invariant of a cluster whose mutations do not fail: what a node holds for a partition, in
  memory or in its directory, is the run of the log up to the offset it has recorded. It
  interprets the locale of \<open>System\<close>.
\<close>

section \<open>Logs without failures\<close>

text \<open>
  A mutation that cannot fail: its operation is known and its condition evaluates to a boolean
  whatever the record is. What failing mutations do is in \<open>Failures\<close>.
\<close>

definition mutation_safe :: "'prog expr_lib \<Rightarrow> RecordMutation \<Rightarrow> bool" where
  "mutation_safe X m \<longleftrightarrow> (\<forall>st k. \<exists>st'. spec_mutation X st m k = Ok st')"

definition safe_log :: "'prog expr_lib \<Rightarrow> log \<Rightarrow> bool" where
  "safe_log X log \<longleftrightarrow> log_ok log \<and> offsets_ok None log \<and> (\<forall>(m, k) \<in> set log. mutation_safe X m)"

abbreviation cluster_step :: "(nat \<Rightarrow> ('db, 'txn, 's3, 'bk) node_env) \<Rightarrow> 'prog expr_lib \<Rightarrow> ('db, 's3) cluster \<Rightarrow> ('db, 's3) cluster \<Rightarrow> bool" where
  "cluster_step E X \<equiv> cluster_step_on (safe_log X) E X"

abbreviation cluster_reach :: "(nat \<Rightarrow> ('db, 'txn, 's3, 'bk) node_env) \<Rightarrow> 'prog expr_lib \<Rightarrow> string \<Rightarrow> ('db, 's3) cluster \<Rightarrow> bool" where
  "cluster_reach E X \<equiv> cluster_reach_on (safe_log X) E X"

section \<open>A replica and its log\<close>

text \<open>
  The state of a replica is the run of the log up to the offset it has recorded; the records
  between that and the client's position have been applied and had nothing to do.
\<close>

definition replica_ok :: "'prog expr_lib \<Rightarrow> log \<Rightarrow> replica \<Rightarrow> bool" where
  "replica_ok X log st \<longleftrightarrow> spec_run X (filter (\<lambda>(m, k). k < resetOffset (snd st)) log) (Map.empty, None) = Ok st"

definition position_ok :: "'prog expr_lib \<Rightarrow> log \<Rightarrow> replica \<Rightarrow> int \<Rightarrow> bool" where
  "position_ok X log st pos \<longleftrightarrow> resetOffset (snd st) \<le> pos \<and> (pos = resetOffset (snd st) \<or> (\<exists>(m, k) \<in> set log. pos = k + 1)) \<and>
     (\<forall>(m, k) \<in> set log. resetOffset (snd st) \<le> k \<and> k < pos \<longrightarrow> spec_mutation X st m k = Ok st)"

lemma resetOffset_offset:
  assumes "offsets_ok None log" and "spec_run X (filter P log) (s0, None) = Ok (s, off)"
  shows "resetOffset off = 0 \<or> (\<exists>(m, k) \<in> set log. off = Some k \<and> resetOffset off = k + 1)"
proof -
  from offsets_ok_filter [OF assms(1)]
  have "offsets_ok None (filter P log)" .
  from replay_nothing [OF this assms(2)] show ?thesis
    using assms(1) by (force simp: resetOffset_def offsets_ok_def int64_range_def)
qed

lemma replica_offset:
  assumes "offsets_ok None log" and "replica_ok X log (s, Some off)"
  shows "0 \<le> off \<and> off < 2 ^ 63 - 1"
proof -
  have "offsets_ok None (filter (\<lambda>(m, k). k < resetOffset (Some off)) log)" by (rule offsets_ok_filter [OF assms(1)])
  moreover have "spec_run X (filter (\<lambda>(m, k). k < resetOffset (Some off)) log) (Map.empty, None) = Ok (s, Some off)"
    using assms(2) by (simp add: replica_ok_def)
  ultimately show ?thesis by (rule run_offset)
qed

lemma spec_run_idle: "\<forall>(m, k) \<in> set ms. spec_mutation X st m k = Ok st \<Longrightarrow> spec_run X ms st = Ok st"
  by (induction ms) auto

text \<open>The next record: it is applied, or it had nothing to do; the client is behind it.\<close>

lemma deliver_one:
  assumes ok: "offsets_ok None log" and st: "replica_ok X log st" "position_ok X log st pos"
    and nxt: "pending log pos = (m, k) # rest" and run: "spec_mutation X st m k = Ok st'"
  shows "replica_ok X log st' \<and> position_ok X log st' (k + 1) \<and> pending log (k + 1) = rest"
proof -
  obtain s off where s: "st = (s, off)" by fastforce
  let ?x = "resetOffset off"
  obtain a b where a: "a = filter (\<lambda>(m, k). k < ?x) log" and b: "b = filter (\<lambda>(m, k). ?x \<le> k \<and> k < pos) log"
    by blast
  have sorted: "sorted_wrt (<) (map snd log)" using ok by (simp add: offsets_ok_def)
  from pending_next [OF ok nxt] have mem: "(m, k) \<in> set log" "pos \<le> k" and k: "0 \<le> k" "k < 2 ^ 63 - 1"
    and pend: "pending log (k + 1) = rest" and rest: "\<forall>(m', k') \<in> set rest. k < k'"
    and upto0: "filter (\<lambda>(m, k'). k' < k + 1) log = filter (\<lambda>(m, k). k < pos) log @ [(m, k)]"
    by simp_all
  have xpos: "?x \<le> pos" using st(2) by (simp add: position_ok_def s)
  have upto: "filter (\<lambda>(m, k'). k' < k + 1) log = a @ b @ [(m, k)]"
    unfolding upto0 a b using offsets_split_at [OF sorted xpos] by simp
  have runs: "spec_run X a (Map.empty, None) = Ok st" "spec_run X b st = Ok st"
    using st by (auto simp: replica_ok_def position_ok_def s a b intro!: spec_run_idle)
  obtain s' off' where s': "st' = (s', off')" by fastforce
  from spec_mutation_cases [of X s off m k s' off'] run s s' have "off' = Some k \<or> st' = st" by auto
  then show ?thesis
  proof
    assume off': "off' = Some k"
    then have "resetOffset off' = k + 1" using k by (simp add: resetOffset_Some)
    moreover have "spec_run X (a @ b @ [(m, k)]) (Map.empty, None) = Ok st'"
      using runs run by (simp add: spec_run_append)
    ultimately show ?thesis
      using pend upto mem(1) by (auto simp: replica_ok_def position_ok_def s')
  next
    assume same: "st' = st"
    have "spec_mutation X st m' k' = Ok st" if "(m', k') \<in> set log" "?x \<le> k'" "k' < k + 1" for m' k'
    proof (cases "k' < pos")
      case True
      with that st(2) show ?thesis by (auto simp: position_ok_def s)
    next
      case False
      then have "(m', k') \<in> set (pending log pos)" using that(1) by (simp add: pending_def)
      then have "(m', k') = (m, k)" using rest that(3) unfolding nxt by force
      with run same show ?thesis by simp
    qed
    then show ?thesis using st pend same mem xpos by (auto simp: position_ok_def s)
  qed
qed

lemma deliver:
  assumes "offsets_ok None log" and "\<forall>(m, k) \<in> set log. mutation_safe X m"
  shows "replica_ok X log st \<Longrightarrow> position_ok X log st pos \<Longrightarrow> prefix ms (pending log pos) \<Longrightarrow>
    \<exists>st'. spec_run X ms st = Ok st' \<and> replica_ok X log st' \<and>
      position_ok X log st' (if ms = [] then pos else snd (last ms) + 1)"
proof (induction ms arbitrary: st pos)
  case (Cons mk ms)
  obtain m k where mk: "mk = (m, k)" by fastforce
  with Cons.prems(3) obtain rest where nxt: "pending log pos = (m, k) # rest" "prefix ms rest"
    by (auto simp: prefix_def)
  then have "(m, k) \<in> set (pending log pos)" by simp
  then have "mutation_safe X m" using assms(2) by (auto simp: pending_def)
  then obtain st1 where st1: "spec_mutation X st m k = Ok st1" unfolding mutation_safe_def by blast
  note one = deliver_one [OF assms(1) Cons.prems(1,2) nxt(1) st1]
  then have "prefix ms (pending log (k + 1))" using nxt(2) by simp
  from Cons.IH [OF conjunct1 [OF one] _ this] one st1 mk show ?case
    by (cases "ms = []") auto
qed simp

text \<open>A log that grows does not touch what a replica has applied.\<close>

lemma replica_grows:
  assumes "offsets_ok None log'" and "prefix log log'" and "replica_ok X log st" and "position_ok X log st pos"
  shows "replica_ok X log' st \<and> position_ok X log' st pos"
proof -
  obtain more where log': "log' = log @ more" using assms(2) by (auto simp: prefix_def)
  obtain s off where s: "st = (s, off)" by fastforce
  have ok: "offsets_ok None log" and new: "\<forall>(m, k) \<in> set log. \<forall>(m', k') \<in> set more. k < k'"
    and pos: "\<forall>(m', k') \<in> set more. 0 \<le> k'"
    using assms(1) by (force simp: log' offsets_ok_def sorted_wrt_append resetOffset_def)+
  from resetOffset_offset [OF ok assms(3) [unfolded replica_ok_def s]]
  have x: "\<forall>(m', k') \<in> set more. resetOffset off \<le> k'" using new pos by (fastforce simp: s)
  then have "filter (\<lambda>(m, k). k < resetOffset off) more = []" by (force simp: filter_empty_conv)
  moreover have "\<forall>(m', k') \<in> set more. pos \<le> k'"
    using assms(4) new x by (fastforce simp: position_ok_def s)
  ultimately show ?thesis
    using assms(3,4) by (fastforce simp: replica_ok_def position_ok_def log' s)
qed

lemma replica_empty:
  assumes "offsets_ok None log"
  shows "replica_ok X log (Map.empty, None)"
proof -
  have "\<forall>(m, k) \<in> set log. 0 \<le> k" using assms by (force simp: offsets_ok_def)
  from filter_above [OF this] show ?thesis by (simp add: replica_ok_def resetOffset_def)
qed

lemma position_start:
  "replica_ok X log st \<Longrightarrow> position_ok X log st (resetOffset (snd st))"
  by (auto simp: position_ok_def)

section \<open>The invariant of the cluster\<close>

lemma delivered_log:
  assumes "safe_log X log" and "replica_ok X log st" and "position_ok X log st pos" and "prefix ms (pending log pos)"
  shows "\<exists>st'. spec_run X ms st = Ok st' \<and> spec_batch X (wire_log ms) (Some st) = (Some st', Ok ()) \<and> replica_ok X log st' \<and>
    position_ok X log st' (if ms = [] then pos else snd (last ms) + 1)"
proof -
  have log: "log_ok log" "offsets_ok None log" "\<forall>(m, k) \<in> set log. mutation_safe X m" using assms(1) by (auto simp: safe_log_def)
  from deliver [OF log(2,3) assms(2-4)] obtain st' where st': "spec_run X ms st = Ok st'" "replica_ok X log st'"
    "position_ok X log st' (if ms = [] then pos else snd (last ms) + 1)" by blast
  have "set ms \<subseteq> set log" using assms(4) by (auto simp: pending_def dest!: set_mono_prefix)
  with log(1) have "log_ok ms" by (auto simp: log_ok_def)
  with st' spec_batch_log show ?thesis by blast
qed

interpretation followed: replica_invariant X "safe_log X" "replica_ok X" "position_ok X" for X
proof unfold_locales
  show "safe_log X []" by (simp add: safe_log_def offsets_ok_def)
  show "replica_ok X log (Map.empty, None)" if "safe_log X log" for log
    using that by (simp add: safe_log_def replica_empty)
  show "replica_ok X log' st \<and> position_ok X log' st pos"
    if "safe_log X log'" "prefix log log'" "replica_ok X log st" "position_ok X log st pos" for log log' st pos
    using that by (intro replica_grows) (auto simp: safe_log_def)
  show "replica_ok X log st' \<and> position_ok X log st' (if ms = [] then pos else snd (last ms) + 1)"
    if "safe_log X log" "replica_ok X log st" "position_ok X log st pos" "prefix ms (pending log pos)"
      "spec_batch X (wire_log ms) (Some st) = (Some st', r)" for log st pos ms st' r
    using delivered_log [OF that(1-4)] that(5) by auto
  show "0 \<le> off \<and> off < 2 ^ 63 - 1" if "safe_log X log" "replica_ok X log (s, Some off)" for log s off
    using that replica_offset by (auto simp: safe_log_def)
qed (simp_all add: safe_log_def position_start)

abbreviation process_ok :: "('db \<Rightarrow> bytes \<Rightarrow> wire option) \<Rightarrow> 'prog expr_lib \<Rightarrow> string \<Rightarrow> (int \<Rightarrow> log) \<Rightarrow> 'db process \<Rightarrow> bool" where
  "process_ok db_map X \<equiv> process_inv db_map (replica_ok X) (position_ok X)"

definition cluster_ok :: "('db \<Rightarrow> bytes \<Rightarrow> wire option) \<Rightarrow> 'prog expr_lib \<Rightarrow> string \<Rightarrow> ('db, 's3) cluster \<Rightarrow> bool" where
  "cluster_ok db_map X ns c \<longleftrightarrow> (\<forall>i. safe_log X (cl_logs c i)) \<and> (\<forall>v. process_ok db_map X ns (cl_logs c) (cl_nodes c v))"

lemma cluster_ok_reach:
  assumes "system_env E db_map txn_map s3_map bk_map" and "cluster_reach E X ns c"
  shows "cluster_ok db_map X ns c"
  using followed.cluster_inv_reach [OF assms] by (simp add: cluster_ok_def)

section \<open>Catching up\<close>

lemma replica_caught_up:
  assumes "offsets_ok None log" and "replica_ok X log st" and "position_ok X log st pos" and "pending log pos = []"
  shows "spec_run X log (Map.empty, None) = Ok st"
proof -
  have "\<forall>(m, k) \<in> set log. k < pos" using assms(4) by (auto simp: pending_def filter_empty_conv)
  then have "spec_run X (filter (\<lambda>(m, k). resetOffset (snd st) \<le> k) log) st = Ok st"
    using assms(3) by (intro spec_run_idle) (fastforce simp: position_ok_def)
  moreover have "log = filter (\<lambda>(m, k). k < resetOffset (snd st)) log @ filter (\<lambda>(m, k). resetOffset (snd st) \<le> k) log"
    using assms(1) by (intro offsets_split) (simp add: offsets_ok_def)
  ultimately show ?thesis using assms(2) by (metis replica_ok_def bind_go.simps(1) spec_run_append)
qed

text \<open>One fetch of everything that is pending brings a replica to the end of its log.\<close>

lemma cluster_catches_up:
  assumes sys: "system_env E db_map txn_map s3_map bk_map"
    and reach: "cluster_reach E X ns c" and st: "abs_node db_map (pr_pm (cl_nodes c v)) i = Some st"
  shows "\<exists>n' st'. cluster_step E X c (c\<lparr>cl_nodes := (cl_nodes c)(v := n')\<rparr>) \<and>
    abs_node db_map (pr_pm n') = (abs_node db_map (pr_pm (cl_nodes c v)))(i \<mapsto> st') \<and>
    spec_run X (cl_logs c i) (Map.empty, None) = Ok st'"
proof -
  let ?n = "cl_nodes c v"
  let ?ms = "pending (cl_logs c i) (pr_pos ?n i)"
  have ok: "\<forall>i. safe_log X (cl_logs c i)" "process_ok db_map X ns (cl_logs c) ?n"
    using cluster_ok_reach [OF sys reach] by (simp_all add: cluster_ok_def)
  have log: "safe_log X (cl_logs c i)" "log_ok (cl_logs c i)" "offsets_ok None (cl_logs c i)" using ok(1) by (simp_all add: safe_log_def)
  from delivered_log [OF log(1) conjunct1 [OF process_invD(3) [OF ok(2) st]] conjunct2 [OF process_invD(3) [OF ok(2) st]], of ?ms]
  obtain st' where run: "spec_batch X (wire_log ?ms) (Some st) = (Some st', Ok ())" "replica_ok X (cl_logs c i) st'"
    "position_ok X (cl_logs c i) st' (if ?ms = [] then pr_pos ?n i else snd (last ?ms) + 1)" by auto
  from polled_partition [where logs = "cl_logs c" and s = "cl_bucket c", OF node_disk.axioms(1) [OF system_env.nodes [OF sys, of v]] process_invD(1) [OF ok(2)] log(2) _ st run(1)]
  obtain n' where n': "process_step (E v) X (cl_logs c) (cl_bucket c) ?n n'" "abs_node db_map (pr_pm n') = (abs_node db_map (pr_pm ?n))(i \<mapsto> st')" by auto
  have "spec_run X (cl_logs c i) (Map.empty, None) = Ok st'"
    by (rule replica_caught_up [OF log(3) run(2,3) pending_all [OF log(3)]])
  with n'(2) by_node [where c = c and v = v and E = E, OF n'(1)] show ?thesis by (intro exI [of _ n'] exI [of _ st']) simp
qed

text \<open>A node's partition is caught up if it is the run of its whole log.\<close>

definition caught_up :: "('db \<Rightarrow> bytes \<Rightarrow> wire option) \<Rightarrow> 'prog expr_lib \<Rightarrow> ('db, 's3) cluster \<Rightarrow> nat \<times> int \<Rightarrow> bool" where
  "caught_up db_map X c = (\<lambda>(v, i). case abs_node db_map (pr_pm (cl_nodes c v)) i of
     None \<Rightarrow> False | Some st \<Rightarrow> spec_run X (cl_logs c i) (Map.empty, None) = Ok st)"

lemma all_catch_up:
  assumes sys: "system_env E db_map txn_map s3_map bk_map"
    and reach: "cluster_reach E X ns c"
  shows "finite S \<Longrightarrow> \<forall>(v, i) \<in> S. abs_node db_map (pr_pm (cl_nodes c v)) i \<noteq> None \<Longrightarrow>
    \<exists>c'. (cluster_step E X)\<^sup>*\<^sup>* c c' \<and> cl_logs c' = cl_logs c \<and> (\<forall>r \<in> S. caught_up db_map X c' r) \<and>
      (\<forall>v. dom (abs_node db_map (pr_pm (cl_nodes c' v))) = dom (abs_node db_map (pr_pm (cl_nodes c v))))"
proof (induction rule: finite_induct)
  case empty
  show ?case by (rule exI [of _ c]) simp
next
  case (insert r S)
  obtain v i where r: "r = (v, i)" by fastforce
  from insert obtain c1 where c1: "(cluster_step E X)\<^sup>*\<^sup>* c c1" "cl_logs c1 = cl_logs c" "\<forall>r \<in> S. caught_up db_map X c1 r"
      "\<forall>v. dom (abs_node db_map (pr_pm (cl_nodes c1 v))) = dom (abs_node db_map (pr_pm (cl_nodes c v)))"
    by auto
  from insert.prems r have "i \<in> dom (abs_node db_map (pr_pm (cl_nodes c v)))" by auto
  then obtain st where st: "abs_node db_map (pr_pm (cl_nodes c1 v)) i = Some st" using c1(4) by blast
  from cluster_catches_up [OF sys cluster_reach_steps [OF c1(1) reach] st] obtain n' st' where
    n': "cluster_step E X c1 (c1\<lparr>cl_nodes := (cl_nodes c1)(v := n')\<rparr>)"
      "abs_node db_map (pr_pm n') = (abs_node db_map (pr_pm (cl_nodes c1 v)))(i \<mapsto> st')"
      "spec_run X (cl_logs c1 i) (Map.empty, None) = Ok st'" by blast
  let ?c = "c1\<lparr>cl_nodes := (cl_nodes c1)(v := n')\<rparr>"
  have "caught_up db_map X ?c r'" if "r' \<in> insert r S" for r'
    using that c1(3) r n'(2,3) by (cases r') (fastforce simp: caught_up_def split: option.splits)
  moreover have "dom (abs_node db_map (pr_pm (cl_nodes ?c w))) = dom (abs_node db_map (pr_pm (cl_nodes c w)))" for w
  proof -
    have "i \<in> dom (abs_node db_map (pr_pm (cl_nodes c v)))" using c1(4) st by blast
    then show ?thesis using c1(4) n'(2) by (simp add: insert_absorb)
  qed
  moreover have "(cluster_step E X)\<^sup>*\<^sup>* c ?c" using c1(1) n'(1) by (rule rtranclp.rtrancl_into_rtrancl)
  ultimately show ?case using c1(2) by (intro exI [of _ ?c]) simp
qed

section \<open>A small cluster\<close>

definition demo_logs :: "int \<Rightarrow> log" where
  "demo_logs i = (if i = 0 then demo_log else [])"

lemma unconditional_safe: "unconditional ms \<Longrightarrow> (m, k) \<in> set ms \<Longrightarrow> mutation_safe X m"
  unfolding unconditional_def mutation_safe_def
  by (auto simp: spec_mutation_def spec_put_def spec_delete_def check_if_def Let_def split: option.splits dest!: bspec)

lemma demo_logs_ok: "safe_log X (demo_logs i)"
  using demo_log_ok unconditional_safe [OF demo_log_unconditional]
  by (auto simp: safe_log_def demo_logs_def offsets_ok_def resetOffset_def) (auto simp: demo_log_def)

lemma demo_cluster:
  "\<exists>c. cluster_reach (demo_envs b r) demo_expr ''ns'' c \<and> cl_logs c = demo_logs \<and> cl_bucket c = [] \<and>
    abs_node map_of (pr_pm (cl_nodes c 0)) 0 = Some (Map.empty, None) \<and>
    abs_node map_of (pr_pm (cl_nodes c 1)) 0 = Some (Map.empty, None) \<and> cl_nodes c 2 = demo_process"
  using small_cluster [of "safe_log demo_expr" demo_logs b r demo_expr] demo_logs_ok by blast

text \<open>A node that has applied its log and backs the partition up, and what opens from that backup.\<close>

lemma demo_backed_up:
  "\<exists>c d. cluster_reach (demo_envs True True) demo_expr ''ns'' c \<and> cl_logs c = demo_logs \<and> cl_bucket c = [(backup_key ''ns'' 0 2, d)] \<and>
    cl_nodes c 2 = demo_process \<and> store_ok (map_of d) \<and> abs_offset (map_of d) = Some 2"
proof -
  let ?E = "demo_envs True True"
  obtain c where c: "cluster_reach ?E demo_expr ''ns'' c" "cl_logs c = demo_logs" "cl_bucket c = []"
    "abs_node map_of (pr_pm (cl_nodes c 0)) 0 = Some (Map.empty, None)" "cl_nodes c 2 = demo_process" using demo_cluster by blast
  from cluster_catches_up [OF demo.system_env_axioms c(1,4)] c(2) obtain n' st where
    n': "cluster_step ?E demo_expr c (c\<lparr>cl_nodes := (cl_nodes c)(0 := n')\<rparr>)" "abs_node map_of (pr_pm n') 0 = Some st"
      "spec_run demo_expr demo_log (Map.empty, None) = Ok st" by (auto simp: demo_logs_def)
  have st: "snd st = Some 2"
    using n'(3) spec_run_unconditional [OF demo_log_unconditional, of demo_expr Map.empty None] by (auto simp: demo_log_def)
  let ?c1 = "c\<lparr>cl_nodes := (cl_nodes c)(0 := n')\<rparr>"
  have r1: "cluster_reach ?E demo_expr ''ns'' ?c1" by (rule reach_step [OF c(1) n'(1)])
  have "process_ok map_of demo_expr ''ns'' (cl_logs ?c1) (cl_nodes ?c1 0)"
    using cluster_ok_reach [OF demo.system_env_axioms r1] unfolding cluster_ok_def by blast
  then have "pm_ok map_of (pr_pm n')" "pm_Namespace (pr_pm n') = ''ns''" by (simp_all add: process_inv_def)
  with n'(2) obtain p where p: "Load (Partitions (pr_pm n')) 0 = Some p" "abs_store (map_of (DB p)) = st" "ID p = 0" "Namespace p = ''ns''"
      "part_ok map_of p" by (auto simp: abs_node_Load pm_ok_def)
  let ?s = "[(backup_key ''ns'' 0 2, DB p)]"
  have off: "abs_offset (map_of (DB p)) = Some 2" using p(2) st by (auto simp: abs_store_def)
  with p(3-5) have bk: "runBackup mem_s3 mem_backup p (DB p) [] = (Finished (Ok ()), ?s)"
    by (simp add: mem_s3_def mem_backup_def runBackup_def part_ok_def)
  have "cluster_step ?E demo_expr ?c1 (?c1\<lparr>cl_bucket := ?s\<rparr>)"
    by (rule backed_up [where v = 0 and i = 0 and p = p]) (simp_all add: p(1) c(3) bk mem_env_def)
  with r1 have "cluster_reach ?E demo_expr ''ns'' (?c1\<lparr>cl_bucket := ?s\<rparr>)" by (rule reach_step)
  then show ?thesis using c(2,5) p(5) off
    by (intro exI [of _ "?c1\<lparr>cl_bucket := ?s\<rparr>"] exI [of _ "DB p"]) (simp add: part_ok_def)
qed

lemma demo_opens_backup:
  assumes "store_ok (map_of d)" and "abs_offset (map_of d) = Some 2"
  shows "opens map_of (mem_env True True) [(backup_key ''ns'' 0 2, d)] Map.empty ''ns'' 0 (abs_store (map_of d))"
proof (rule mem_backup_node.opens_backup [OF _ _ _ _ _ assms])
  fix q :: "mem Partition" assume "ID q = 0" "Namespace q = ''ns''"
  moreover have "prefix (backup_prefix ''ns'' 0) (backup_key ''ns'' 0 2)" by (simp add: backup_prefix_def backup_key_def)
  ultimately show "getLatestBackupOffset (env_A (mem_env True True)) [(backup_key ''ns'' 0 2, d)] q = Ok (2, backup_key ''ns'' 0 2)"
    by (simp add: getLatestBackupOffset_def mem_env_def mem_s3_def parse_backup_key int64_range_def)
qed (simp_all add: mem_env_def)

section \<open>Properties\<close>









end
