(* ===== verification/Failures.thy ===== *)
theory Failures
  imports Cluster
begin

text \<open>
  The cluster of \<open>System\<close> without any assumption about its mutations: their conditions may not
  compile or not evaluate, their operations may be unknown. A mutation that fails is never
  applied, and the client reads on behind the batch it was in: mutations can get lost, but
  nothing is applied twice or out of order. A second interpretation of the locale.
\<close>

section \<open>Replicas of logs with failures\<close>

definition any_log :: "log \<Rightarrow> bool" where
  "any_log log \<longleftrightarrow> log_ok log \<and> offsets_ok None log"

text \<open>The state of a replica is the run of a part of what its log has up to its offset.\<close>

definition selected_run :: "'prog expr_lib \<Rightarrow> log \<Rightarrow> replica \<Rightarrow> bool" where
  "selected_run X log st \<longleftrightarrow> (\<exists>ms. subseq ms (filter (\<lambda>(m, k). k < resetOffset (snd st)) log) \<and> spec_run X ms (Map.empty, None) = Ok st)"

definition behind :: "log \<Rightarrow> replica \<Rightarrow> int \<Rightarrow> bool" where
  "behind log st pos \<longleftrightarrow> resetOffset (snd st) \<le> pos"

lemma selected_grows: "prefix log log' \<Longrightarrow> selected_run X log st \<Longrightarrow> selected_run X log' st"
  by (auto simp: selected_run_def prefix_def) (blast intro: subseq_rev_drop_many)

lemma sorted_wrt_subseq: "subseq xs ys \<Longrightarrow> sorted_wrt P ys \<Longrightarrow> sorted_wrt P xs"
  by (induction rule: list_emb.induct) (auto dest: list_emb_set)

lemma offsets_ok_subseq: "subseq ms log \<Longrightarrow> offsets_ok off log \<Longrightarrow> offsets_ok off ms"
  unfolding offsets_ok_def using sorted_wrt_subseq [OF subseq_map] by (auto dest: list_emb_set)

text \<open>The next record: it is applied, has nothing to do, or fails.\<close>

lemma selected_next:
  assumes ok: "offsets_ok None log" and st: "selected_run X log st" "behind log st pos"
    and nxt: "pending log pos = (m, k) # rest" and run: "spec_mutation X st m k = Ok st'"
  shows "selected_run X log st' \<and> behind log st' (k + 1)"
proof -
  obtain s off s' off' where s: "st = (s, off)" "st' = (s', off')" by fastforce
  have sorted: "sorted_wrt (<) (map snd log)" using ok by (simp add: offsets_ok_def)
  from pending_next [OF ok nxt] have k: "pos \<le> k" "0 \<le> k" "k < 2 ^ 63 - 1"
    and upto: "filter (\<lambda>(m, k'). k' < k + 1) log = filter (\<lambda>(m, k). k < pos) log @ [(m, k)]" by simp_all
  obtain ms where ms: "subseq ms (filter (\<lambda>(m, k). k < resetOffset off) log)" "spec_run X ms (Map.empty, None) = Ok st"
    using st(1) by (auto simp: selected_run_def s)
  show ?thesis
  proof (cases "off' = Some k")
    case True
    then have off': "resetOffset off' = k + 1" using k by (simp add: resetOffset_Some)
    have "filter (\<lambda>(m, k). k < pos) log = filter (\<lambda>(m, k). k < resetOffset off) log @ filter (\<lambda>(m, k). resetOffset off \<le> k \<and> k < pos) log"
      using offsets_split_at [OF sorted] st(2) by (simp add: behind_def s)
    with ms(1) have "subseq ms (filter (\<lambda>(m, k). k < pos) log)" by (simp add: subseq_rev_drop_many)
    then have "subseq (ms @ [(m, k)]) (filter (\<lambda>(m, k'). k' < k + 1) log)"
      unfolding upto by (intro list_emb_append_mono) simp_all
    moreover have "spec_run X (ms @ [(m, k)]) (Map.empty, None) = Ok st'" using ms(2) run by (simp add: spec_run_append)
    ultimately show ?thesis by (auto simp: selected_run_def behind_def s off')
  next
    case False
    then have "st' = st" using spec_mutation_cases [of X s off m k s' off'] run by (simp add: s)
    with st k(1) show ?thesis by (simp add: behind_def)
  qed
qed

text \<open>A batch: it ends at its first failure, and the client reads on behind it.\<close>

lemma selected_batch:
  assumes ok: "log_ok log" "offsets_ok None log"
  shows "selected_run X log st \<Longrightarrow> behind log st pos \<Longrightarrow> prefix ms (pending log pos) \<Longrightarrow>
    spec_batch X (wire_log ms) (Some st) = (Some st', r) \<Longrightarrow>
    selected_run X log st' \<and> behind log st' (if ms = [] then pos else snd (last ms) + 1)"
proof (induction ms arbitrary: st pos)
  case (Cons mk ms)
  obtain m k where mk: "mk = (m, k)" by fastforce
  with Cons.prems(3) obtain rest where nxt: "pending log pos = (m, k) # rest" "prefix ms rest"
    by (auto simp: prefix_def)
  note p = pending_next [OF ok(2) nxt(1)]
  have "mutation_ok m" "int64_range (m_TsMs m)" using ok(1) p by (force simp: log_ok_def)+
  note parse = unmarshal_mutation [OF this]
  show ?case
  proof (cases "spec_mutation X st m k")
    case (Ok st1)
    note one = selected_next [OF ok(2) Cons.prems(1,2) nxt(1) Ok]
    have "prefix ms (pending log (k + 1))" using nxt(2) p by simp
    moreover have "spec_batch X (wire_log ms) (Some st1) = (Some st', r)"
      using Cons.prems(4) Ok by (simp add: mk parse)
    ultimately have "selected_run X log st' \<and> behind log st' (if ms = [] then k + 1 else snd (last ms) + 1)"
      using one Cons.IH by blast
    then show ?thesis by (cases "ms = []") (simp_all add: mk)
  next
    case (Err e)
    then have st: "st' = st" using Cons.prems(4) by (simp add: mk parse)
    have "pos \<le> snd (last (mk # ms))"
      using last_in_set [of "mk # ms"] set_mono_prefix [OF Cons.prems(3)] by (auto simp: pending_def)
    with Cons.prems(1,2) show ?thesis by (simp add: st behind_def)
  next
    case Panic
    then have st: "st' = st" using Cons.prems(4) by (simp add: mk parse)
    have "pos \<le> snd (last (mk # ms))"
      using last_in_set [of "mk # ms"] set_mono_prefix [OF Cons.prems(3)] by (auto simp: pending_def)
    with Cons.prems(1,2) show ?thesis by (simp add: st behind_def)
  qed
qed simp

interpretation selected: replica_invariant X any_log "selected_run X" behind for X
proof unfold_locales
  show "any_log []" by (simp add: any_log_def offsets_ok_def)
  show "selected_run X log (Map.empty, None)" for log
    unfolding selected_run_def by (rule exI [of _ "[]"]) simp
  show "selected_run X log' st \<and> behind log' st pos"
    if "prefix log log'" "selected_run X log st" "behind log st pos" for log log' st pos
    using that by (simp add: selected_grows behind_def)
  show "selected_run X log st' \<and> behind log st' (if ms = [] then pos else snd (last ms) + 1)"
    if "any_log log" "selected_run X log st" "behind log st pos" "prefix ms (pending log pos)"
      "spec_batch X (wire_log ms) (Some st) = (Some st', r)" for log st pos ms st' r
    using that by (intro selected_batch) (simp_all add: any_log_def)
  show "0 \<le> off \<and> off < 2 ^ 63 - 1" if "any_log log" "selected_run X log (s, Some off)" for log s off
    using that run_offset offsets_ok_subseq offsets_ok_filter unfolding any_log_def selected_run_def by blast
qed (simp_all add: any_log_def behind_def)

abbreviation failing_step :: "(nat \<Rightarrow> ('db, 'txn, 's3, 'bk) node_env) \<Rightarrow> 'prog expr_lib \<Rightarrow> ('db, 's3) cluster \<Rightarrow> ('db, 's3) cluster \<Rightarrow> bool" where
  "failing_step E X \<equiv> cluster_step_on any_log E X"

abbreviation failing_reach :: "(nat \<Rightarrow> ('db, 'txn, 's3, 'bk) node_env) \<Rightarrow> 'prog expr_lib \<Rightarrow> string \<Rightarrow> ('db, 's3) cluster \<Rightarrow> bool" where
  "failing_reach E X \<equiv> cluster_reach_on any_log E X"

text \<open>A node that polls some of what is pending, whatever becomes of it.\<close>

lemma node_polls:
  assumes sys: "system_env E db_map txn_map s3_map bk_map"
    and reach: "failing_reach E X ns c" and ms: "prefix ms (pending (cl_logs c i) (pr_pos (cl_nodes c v) i))" "ms \<noteq> []"
    and st: "abs_node db_map (pr_pm (cl_nodes c v)) i = Some st"
    and run: "spec_batch X (wire_log ms) (Some st) = (Some st', r)" "r \<noteq> Panic"
  shows "\<exists>c'. failing_step E X c c' \<and> cl_logs c' = cl_logs c \<and> (\<forall>w. w \<noteq> v \<longrightarrow> cl_nodes c' w = cl_nodes c w) \<and>
    abs_node db_map (pr_pm (cl_nodes c' v)) i = Some st' \<and> pr_pos (cl_nodes c' v) i = snd (last ms) + 1"
proof -
  from selected.cluster_inv_reach [OF sys reach]
  have "log_ok (cl_logs c i)" "pm_ok db_map (pr_pm (cl_nodes c v))"
    by (simp_all add: any_log_def process_inv_def)
  from polled_partition [where logs = "cl_logs c" and s = "cl_bucket c", OF node_disk.axioms(1) [OF system_env.nodes [OF sys, of v]] this(2,1) ms(1) st run] ms(2)
  obtain n' where "process_step (E v) X (cl_logs c) (cl_bucket c) (cl_nodes c v) n'" "abs_node db_map (pr_pm n') i = Some st'"
    "pr_pos n' i = snd (last ms) + 1" by auto
  with by_node [where c = c and v = v and E = E, OF this(1)] show ?thesis
    by (intro exI [of _ "c\<lparr>cl_nodes := (cl_nodes c)(v := n')\<rparr>"]) simp
qed

lemma failing_wire:
  "log_ok [(m, k)] \<Longrightarrow> spec_mutation X st m k = Err e \<Longrightarrow> spec_batch X (wire_log ((m, k) # ms)) (Some st) = (Some st, Err e)"
  by (simp add: unmarshal_mutation)

text \<open>Two nodes with a log whose first mutation fails.\<close>

definition failing_log :: log where
  "failing_log = [(demo_put ''a'' ''x'' (Some ''data.n > 1'') 7, 0), (demo_put ''b'' ''y'' None 8, 1)]"

lemma failing_log_ok: "any_log failing_log"
  by (simp add: any_log_def failing_log_def demo_mutation_ok time_ok_def int64_range_def offsets_ok_def resetOffset_def)
    (simp add: demo_put_def)

lemma failing_log_fails: "spec_mutation failing_expr (Map.empty, None) (demo_put ''a'' ''x'' (Some ''data.n > 1'') 7) 0 = Err (External ''nil value'')"
  by (simp add: spec_mutation_def spec_put_def check_if_def CompareIfStatement_def failing_expr_def demo_put_def)

lemma failing_log_goes_on: "spec_mutation failing_expr (Map.empty, None) (demo_put ''b'' ''y'' None 8) 1 =
    Ok ([(''pk1'', ''b'') \<mapsto> \<lparr>Data = Some [(''v'', JStr ''y'')], CreatedAt = 8, UpdatedAt = 8\<rparr>], Some 1)"
  by (simp add: spec_mutation_def spec_put_def check_if_def demo_put_def loaded_def operation_defs)

lemma failing_cluster:
  "\<exists>c. failing_reach (demo_envs False False) failing_expr ''ns'' c \<and> cl_logs c 0 = failing_log \<and>
    abs_node map_of (pr_pm (cl_nodes c 0)) 0 = Some (Map.empty, None) \<and> pr_pos (cl_nodes c 0) 0 = 0 \<and>
    abs_node map_of (pr_pm (cl_nodes c 1)) 0 = Some (Map.empty, None) \<and> pr_pos (cl_nodes c 1) 0 = 0"
  using small_cluster [of any_log "\<lambda>_. failing_log" False False failing_expr, OF failing_log_ok] by auto

section \<open>Properties\<close>





end
