(* ===== verification/Loops.thy ===== *)
theory Loops
  imports LogConsumer Gossip
begin

text \<open>
  The two loops of a node that run on a timer until they are closed: \<^verbatim>\<open>pollTopicInfo\<close> of
  \<^verbatim>\<open>log_consumer.go\<close> around \<^verbatim>\<open>topicInfoLoop\<close>, and \<^verbatim>\<open>startBroadcastLoop\<close> of
  \<^verbatim>\<open>gossip_manager.go\<close> around \<^verbatim>\<open>broadcastAdvertiseMessage\<close>. Both select between a ticker and
  a channel \<^verbatim>\<open>closeChan\<close> of capacity one, and both are closed the same way: \<^verbatim>\<open>Shutdown\<close> stops the
  ticker and sends on the channel. One step relation models the loop, its ticker, its channel and
  the caller of \<^verbatim>\<open>Shutdown\<close>; the body is a parameter of it.
\<close>

section \<open>The loop\<close>

text \<open>
  How a run of the body ends: it returns, the program ends with it (a fatal log or a panic), or
  it never returns. \<open>InBody i\<close> is a run with input \<open>i\<close>: what the libraries answer to it.
\<close>

datatype 's outcome = Continues 's | Ends | BodyBlocks

datatype 'i loop_phase = AtSelect | InBody 'i | LoopReturned | ProgramEnds

datatype closing = NotClosing | TickerStopped | CloseSent

text \<open>The caller of \<^verbatim>\<open>Shutdown\<close> only goes on: its positions are ordered.\<close>

instantiation closing :: linorder
begin

fun closing_rank :: "closing \<Rightarrow> nat" where
  "closing_rank NotClosing = 0"
| "closing_rank TickerStopped = 1"
| "closing_rank CloseSent = 2"

definition less_eq_closing :: "closing \<Rightarrow> closing \<Rightarrow> bool" where
  "a \<le> b \<longleftrightarrow> closing_rank a \<le> closing_rank b"

definition less_closing :: "closing \<Rightarrow> closing \<Rightarrow> bool" where
  "a < b \<longleftrightarrow> closing_rank a < closing_rank (b :: closing)"

instance
proof
  fix a b :: closing
  show "a \<le> b \<Longrightarrow> b \<le> a \<Longrightarrow> a = b" by (cases a; cases b) (simp_all add: less_eq_closing_def)
qed (auto simp: less_eq_closing_def less_closing_def)

end

text \<open>
  \<open>lp_tick\<close>: a tick waits in the ticker's channel, which holds one; stopping the ticker does
  not take it out. \<open>lp_close\<close> counts the tokens in \<^verbatim>\<open>closeChan\<close>.
\<close>

record ('i, 's) ticker_loop =
  lp_phase :: "'i loop_phase"
  lp_tick :: bool
  lp_ticking :: bool
  lp_close :: nat
  lp_closing :: closing
  lp_state :: 's

definition start_loop :: "'s \<Rightarrow> ('i, 's) ticker_loop" where
  "start_loop s = \<lparr>lp_phase = AtSelect, lp_tick = False, lp_ticking = True, lp_close = 0,
     lp_closing = NotClosing, lp_state = s\<rparr>"

text \<open>If a tick and a token wait, \<^verbatim>\<open>select\<close> takes either.\<close>

inductive loop_step :: "('i \<Rightarrow> 's \<Rightarrow> 's outcome) \<Rightarrow> ('i, 's) ticker_loop \<Rightarrow> ('i, 's) ticker_loop \<Rightarrow> bool"
  for body where
  lp_ticks: "lp_ticking l \<Longrightarrow> loop_step body l (l\<lparr>lp_tick := True\<rparr>)"
| lp_takes_tick: "lp_phase l = AtSelect \<Longrightarrow> lp_tick l \<Longrightarrow> loop_step body l (l\<lparr>lp_tick := False, lp_phase := InBody i\<rparr>)"
| lp_continues: "lp_phase l = InBody i \<Longrightarrow> body i (lp_state l) = Continues s \<Longrightarrow>
    loop_step body l (l\<lparr>lp_phase := AtSelect, lp_state := s\<rparr>)"
| lp_ends: "lp_phase l = InBody i \<Longrightarrow> body i (lp_state l) = Ends \<Longrightarrow> loop_step body l (l\<lparr>lp_phase := ProgramEnds\<rparr>)"
| lp_takes_close: "lp_phase l = AtSelect \<Longrightarrow> 0 < lp_close l \<Longrightarrow>
    loop_step body l (l\<lparr>lp_phase := LoopReturned, lp_close := lp_close l - 1\<rparr>)"
| lp_stops: "lp_closing l = NotClosing \<Longrightarrow> loop_step body l (l\<lparr>lp_ticking := False, lp_closing := TickerStopped\<rparr>)"
| lp_sends: "lp_closing l = TickerStopped \<Longrightarrow> lp_close l < 1 \<Longrightarrow>
    loop_step body l (l\<lparr>lp_close := lp_close l + 1, lp_closing := CloseSent\<rparr>)"

inductive_cases loop_stepE: "loop_step body l l'"

section \<open>The two bodies\<close>

text \<open>The input of \<^verbatim>\<open>topicInfoLoop\<close>: the content of the bucket, the groups, the member's id.\<close>

definition topic_body :: "('db, 'txn, 's3, 'bk) node_env \<Rightarrow> 's3 \<times> group_info \<times> string \<Rightarrow>
    LogConsumer \<times> 'db PartitionManager \<times> 'db disk \<Rightarrow> (LogConsumer \<times> 'db PartitionManager \<times> 'db disk) outcome" where
  "topic_body E = (\<lambda>(s, resp, memberID) (lc, pm, disk).
     case topicInfoLoop E s resp memberID lc pm disk of (st, calls, lc', pm', disk') \<Rightarrow>
       (case st of Returned \<Rightarrow> Continues (lc', pm', disk') | Exits \<Rightarrow> Ends | LoopBlocks \<Rightarrow> BodyBlocks))"

definition pollTopicInfo :: "('db, 'txn, 's3, 'bk) node_env \<Rightarrow>
    ('s3 \<times> group_info \<times> string, LogConsumer \<times> 'db PartitionManager \<times> 'db disk) ticker_loop \<Rightarrow>
    ('s3 \<times> group_info \<times> string, LogConsumer \<times> 'db PartitionManager \<times> 'db disk) ticker_loop \<Rightarrow> bool" where
  "pollTopicInfo E = loop_step (topic_body E)"

text \<open>The input of the broadcast is what the partition manager holds at that moment.\<close>

definition broadcast_body :: "'q memberlist_lib \<Rightarrow> string \<Rightarrow> string \<Rightarrow> 'db PartitionManager \<Rightarrow>
    'q GossipManager \<Rightarrow> 'q GossipManager outcome" where
  "broadcast_body L addr replicaGroup pm gm =
     (case broadcastAdvertiseMessage L addr replicaGroup pm gm of Ok gm' \<Rightarrow> Continues gm' | _ \<Rightarrow> Ends)"

definition startBroadcastLoop :: "'q memberlist_lib \<Rightarrow> string \<Rightarrow> string \<Rightarrow>
    ('db PartitionManager, 'q GossipManager) ticker_loop \<Rightarrow> ('db PartitionManager, 'q GossipManager) ticker_loop \<Rightarrow> bool" where
  "startBroadcastLoop L addr replicaGroup = loop_step (broadcast_body L addr replicaGroup)"

section \<open>Closing a loop\<close>

text \<open>The token of the one \<^verbatim>\<open>Shutdown\<close> is not yet sent, in the channel, or has ended the loop.\<close>

definition loop_inv :: "('i, 's) ticker_loop \<Rightarrow> bool" where
  "loop_inv l \<longleftrightarrow> (lp_closing l \<noteq> NotClosing \<longrightarrow> \<not> lp_ticking l) \<and>
     (if lp_closing l = CloseSent then lp_close l = (if lp_phase l = LoopReturned then 0 else 1)
      else lp_close l = 0 \<and> lp_phase l \<noteq> LoopReturned)"

lemma loop_inv_step: "loop_step body l l' \<Longrightarrow> loop_inv l \<Longrightarrow> loop_inv l'"
  by (erule loop_stepE) (auto simp: loop_inv_def split: if_splits)

lemma loop_inv_steps: "(loop_step body)\<^sup>*\<^sup>* (start_loop s) l \<Longrightarrow> loop_inv l"
proof (induction rule: rtranclp_induct)
  case base
  show ?case by (simp add: loop_inv_def start_loop_def)
qed (rule loop_inv_step)

lemma closing_step: "loop_step body l l' \<Longrightarrow> lp_closing l \<le> lp_closing l'"
  by (erule loop_stepE) (simp_all add: less_eq_closing_def)

lemma closing_steps: "(loop_step body ^^ n) l l' \<Longrightarrow> lp_closing l \<le> lp_closing l'"
  by (induction n arbitrary: l') (auto intro: closing_step order_trans)

lemma CloseSent_top: "CloseSent \<le> c \<longleftrightarrow> c = CloseSent"
  by (cases c) (simp_all add: less_eq_closing_def)

text \<open>How many steps a closed loop has left.\<close>

definition steps_left :: "('i, 's) ticker_loop \<Rightarrow> nat" where
  "steps_left l = 2 * of_bool (lp_tick l) + of_bool (\<exists>i. lp_phase l = InBody i) + lp_close l"

lemma closed_step:
  "loop_step body l l' \<Longrightarrow> loop_inv l \<Longrightarrow> lp_closing l = CloseSent \<Longrightarrow>
    steps_left l' < steps_left l"
  by (erule loop_stepE) (auto simp: loop_inv_def steps_left_def split: if_splits)

lemma closed_steps:
  "(loop_step body ^^ n) l l' \<Longrightarrow> loop_inv l \<Longrightarrow> lp_closing l = CloseSent \<Longrightarrow>
    n + steps_left l' \<le> steps_left l \<and> loop_inv l'"
proof (induction n arbitrary: l')
  case (Suc n)
  then obtain k where k: "(loop_step body ^^ n) l k" "loop_step body k l'" by auto
  have "lp_closing k = CloseSent" using closing_steps [OF k(1)] Suc.prems(3) by (simp add: CloseSent_top)
  with Suc.IH [OF k(1) Suc.prems(2,3)] closed_step [OF k(2)] loop_inv_step [OF k(2)] show ?case by auto
qed simp

lemma steps_left_le: "loop_inv l \<Longrightarrow> steps_left l \<le> 4"
  by (auto simp: loop_inv_def steps_left_def split: if_splits)

text \<open>A closed loop that has no step left has returned, unless its body never does.\<close>

lemma closed_stuck:
  assumes "loop_inv l" and "lp_closing l = CloseSent" and "\<nexists>l'. loop_step body l l'"
  shows "lp_phase l \<in> {LoopReturned, ProgramEnds} \<or> (\<exists>i. lp_phase l = InBody i \<and> body i (lp_state l) = BodyBlocks)"
proof (cases "lp_phase l")
  case AtSelect
  with assms(1,2) have "0 < lp_close l" by (simp add: loop_inv_def)
  from lp_takes_close [OF AtSelect this] assms(3) show ?thesis by blast
next
  case (InBody i)
  with assms(3) lp_continues [OF InBody] lp_ends [OF InBody] show ?thesis by (cases "body i (lp_state l)") blast+
qed simp_all

text \<open>
  What a loop asks of its body: \<open>good\<close> holds of the state between two runs, and only where
  \<open>blocks\<close> allows it a run does not return. A steady body never ends the program either.
\<close>

locale loop_body =
  fixes body :: "'i \<Rightarrow> 's \<Rightarrow> 's outcome" and good :: "'s \<Rightarrow> bool" and blocks :: bool
  assumes keeps: "good s \<Longrightarrow> body i s = Continues s' \<Longrightarrow> good s'"
    and returns: "good s \<Longrightarrow> body i s = BodyBlocks \<Longrightarrow> blocks"
begin

lemma good_steps: "(loop_step body)\<^sup>*\<^sup>* l l' \<Longrightarrow> good (lp_state l) \<Longrightarrow> good (lp_state l')"
proof (induction rule: rtranclp_induct)
  case (step k l')
  then show ?case by (elim loop_stepE) (auto intro: keeps)
qed

lemma closed_returns:
  assumes "good s" and "(loop_step body)\<^sup>*\<^sup>* (start_loop s) l" and "lp_closing l = CloseSent" and "(loop_step body ^^ n) l l'"
  shows "n \<le> 4 \<and> ((\<nexists>l''. loop_step body l' l'') \<longrightarrow>
    lp_phase l' \<in> {LoopReturned, ProgramEnds} \<or> (blocks \<and> (\<exists>i. lp_phase l' = InBody i)))"
proof -
  note inv = loop_inv_steps [OF assms(2)]
  have "good (lp_state l')"
    using good_steps [OF rtranclp_trans [OF assms(2) relpowp_imp_rtranclp [OF assms(4)]]] assms(1)
    by (simp add: start_loop_def)
  moreover have "lp_closing l' = CloseSent" using closing_steps [OF assms(4)] assms(3) by (simp add: CloseSent_top)
  ultimately show ?thesis
    using closed_steps [OF assms(4) inv assms(3)] steps_left_le [OF inv] closed_stuck [of l' body] returns
    by auto
qed

end

locale steady_body = loop_body +
  assumes never_ends: "good s \<Longrightarrow> body i s \<noteq> Ends"
begin

lemma runs_on: "(loop_step body)\<^sup>*\<^sup>* (start_loop s) l \<Longrightarrow> good s \<Longrightarrow> lp_phase l \<noteq> ProgramEnds"
proof (induction rule: rtranclp_induct)
  case (step k l)
  then have "good (lp_state k)" by (auto intro: good_steps [of "start_loop s"] simp: start_loop_def)
  with step never_ends show ?case by (elim loop_stepE) auto
qed (simp add: start_loop_def)

end

text \<open>With backups \<^verbatim>\<open>topicInfoLoop\<close> never waits for a partition's goroutines.\<close>

lemma remove_gones_returns:
  "remove_gones E gones pm disk = (LoopBlocks, pm', disk') \<Longrightarrow> \<not> env_BackupEnabled E"
proof (induction E gones pm disk rule: remove_gones.induct)
  case (2 E gonePart gones pm disk)
  obtain r pm1 disk1 where r: "RemovePartition E pm disk gonePart = (r, pm1, disk1)" by (metis prod.exhaust)
  then have "r = Blocks \<Longrightarrow> \<not> env_BackupEnabled E"
    by (auto simp: RemovePartition_def Let_def can_return_def action_defs split: option.splits prod.splits go.splits if_splits)
  with 2 r show ?case by (auto split: call.splits go.splits)
qed simp

lemma topic_body_returns: "topic_body E i st = BodyBlocks \<Longrightarrow> \<not> env_BackupEnabled E"
  by (auto simp: topic_body_def topicInfoLoop_def Let_def Difference_def dest: remove_gones_returns
      split: prod.splits status.splits sum.splits if_splits option.splits go.splits)

interpretation topic: loop_body "topic_body E" "\<lambda>_. True" "\<not> env_BackupEnabled E"
  by unfold_locales (auto dest: topic_body_returns)

text \<open>A broadcast loop with a queue never ends the program.\<close>

interpretation broadcasts: steady_body "broadcast_body L a rg" "\<lambda>gm. g_broadcasts gm \<noteq> None" False
  by unfold_locales (auto simp: broadcast_body_def broadcastAdvertiseMessage_def Let_def split: option.splits go.splits)

text \<open>\<^verbatim>\<open>Shutdown\<close> on a loop that has not ticked, and the loop's return.\<close>

lemma closed_at_once:
  fixes body :: "'i \<Rightarrow> 's \<Rightarrow> 's outcome"
  obtains l l' where "(loop_step body)\<^sup>*\<^sup>* (start_loop s) l" and "lp_closing l = CloseSent"
    and "loop_step body l l'" and "lp_phase l' = LoopReturned"
    and "\<exists>l0. (loop_step body)\<^sup>*\<^sup>* (start_loop s) l0 \<and> lp_closing l0 = TickerStopped"
proof -
  let ?start = "start_loop s :: ('i, 's) ticker_loop"
  let ?stopped = "?start\<lparr>lp_ticking := False, lp_closing := TickerStopped\<rparr>"
  let ?l = "?stopped\<lparr>lp_close := lp_close ?stopped + 1, lp_closing := CloseSent\<rparr>"
  have "loop_step body ?start ?stopped" using lp_stops [of ?start body] by (simp add: start_loop_def)
  moreover have "loop_step body ?stopped ?l" using lp_sends [of ?stopped body] by (simp add: start_loop_def)
  moreover have "loop_step body ?l (?l\<lparr>lp_phase := LoopReturned, lp_close := lp_close ?l - 1\<rparr>)"
    using lp_takes_close [of ?l body] by (simp add: start_loop_def)
  ultimately show ?thesis
    by (intro that [of ?l "?l\<lparr>lp_phase := LoopReturned, lp_close := lp_close ?l - 1\<rparr>"])
      (auto intro: converse_rtranclp_into_rtranclp)
qed

section \<open>Properties\<close>


definition demo_lc :: LogConsumer where
  "demo_lc = \<lparr>ConsumerGroup = ''g'', lc_Namespace = ''ns'', MutationTopic = ''t'', NumPartitions = 2,
     Ready = True, shuttingDown = False\<rparr>"


text \<open>
  Closing the gossip manager's loop: once the manager has its queue the loop never ends the
  program, and after \<^verbatim>\<open>Shutdown\<close> has sent its token it returns within four steps.
\<close>

theorem startBroadcastLoop_returns:
  assumes "g_broadcasts gm \<noteq> None" and "(startBroadcastLoop L a rg)\<^sup>*\<^sup>* (start_loop gm) l"
    and "lp_closing l = CloseSent" and "(startBroadcastLoop L a rg ^^ n) l l'"
  shows "n \<le> 4 \<and> ((\<nexists>l''. startBroadcastLoop L a rg l' l'') \<longrightarrow> lp_phase l' = LoopReturned)"
proof -
  have "(startBroadcastLoop L a rg)\<^sup>*\<^sup>* (start_loop gm) l'"
    using assms(2,4) by (meson relpowp_imp_rtranclp rtranclp_trans)
  with broadcasts.runs_on [of L a rg gm l'] broadcasts.closed_returns [OF assms [unfolded startBroadcastLoop_def]] assms(1)
  show ?thesis unfolding startBroadcastLoop_def by blast
qed

definition demo_queue :: "wire list GossipManager" where
  "demo_queue = \<lparr>g_Node = \<lparr>node_ID = ''b:1'', AdvertiseAddress = [], AdvertisePort = []\<rparr>,
     g_broadcasts = Some [], g_remotePartitions = [], g_items = []\<rparr>"

theorem startBroadcastLoop_returns_witness:
  "\<exists>l l' :: (mem PartitionManager, wire list GossipManager) ticker_loop.
     (startBroadcastLoop demo_memberlist ''b:1'' ''rg'')\<^sup>*\<^sup>* (start_loop demo_queue) l \<and>
     lp_closing l = CloseSent \<and> startBroadcastLoop demo_memberlist ''b:1'' ''rg'' l l' \<and> lp_phase l' = LoopReturned \<and>
     (\<forall>n k. (startBroadcastLoop demo_memberlist ''b:1'' ''rg'' ^^ n) l k \<longrightarrow> n \<le> 4)"
proof -
  obtain l l' :: "(mem PartitionManager, wire list GossipManager) ticker_loop" where
    l: "(startBroadcastLoop demo_memberlist ''b:1'' ''rg'')\<^sup>*\<^sup>* (start_loop demo_queue) l"
      "lp_closing l = CloseSent" "startBroadcastLoop demo_memberlist ''b:1'' ''rg'' l l'" "lp_phase l' = LoopReturned"
    unfolding startBroadcastLoop_def by (rule closed_at_once)
  have "g_broadcasts demo_queue \<noteq> None" by (simp add: demo_queue_def)
  from startBroadcastLoop_returns [OF this l(1,2)] l show ?thesis by blast
qed

text \<open>
  \<^verbatim>\<open>Shutdown\<close> never blocks on \<^verbatim>\<open>closeChan\<close>: whatever the loop is doing, also when a run of
  \<^verbatim>\<open>topicInfoLoop\<close> never returns, the channel has room for the token.
\<close>

theorem loop_Shutdown_never_blocks:
  assumes "(pollTopicInfo E)\<^sup>*\<^sup>* (start_loop s) l" and "lp_closing l = TickerStopped"
  shows "\<exists>l'. pollTopicInfo E l l' \<and> lp_closing l' = CloseSent \<and> lp_phase l' = lp_phase l"
proof -
  have "lp_close l < 1"
    using loop_inv_steps [OF assms(1) [unfolded pollTopicInfo_def]] assms(2) by (simp add: loop_inv_def)
  from lp_sends [OF assms(2) this, of "topic_body E"] show ?thesis unfolding pollTopicInfo_def by force
qed

theorem loop_Shutdown_never_blocks_witness:
  "\<exists>l l'. (pollTopicInfo (mem_env False False))\<^sup>*\<^sup>* (start_loop (demo_lc, demo_pm, Map.empty)) l \<and>
    lp_closing l = TickerStopped \<and> pollTopicInfo (mem_env False False) l l' \<and> lp_closing l' = CloseSent"
proof -
  obtain l where l: "(pollTopicInfo (mem_env False False))\<^sup>*\<^sup>* (start_loop (demo_lc, demo_pm, Map.empty)) l"
    "lp_closing l = TickerStopped"
    unfolding pollTopicInfo_def by (rule closed_at_once) blast
  from loop_Shutdown_never_blocks [OF this] l show ?thesis by blast
qed

end
