(* ===== verification/InFlight.thy ===== *)
theory InFlight
  imports LogConsumer Interleave
begin

text \<open>
  The two loops of the log consumer side by side: a fetch that \<^verbatim>\<open>PollFetches\<close> has returned is
  still being handled (\<open>Interleave\<close>) while \<^verbatim>\<open>topicInfoLoop\<close> opens the partition its records
  belong to. Pausing the partition keeps the client from returning further records, not from
  having returned these.
\<close>

section \<open>The two loops\<close>

text \<open>\<open>fl_calls\<close> are the calls to the client, once \<^verbatim>\<open>topicInfoLoop\<close> has run.\<close>

record 'db flight =
  fl_group :: "'db group"
  fl_disk :: "'db disk"
  fl_lc :: LogConsumer
  fl_calls :: "kgo_call list option"

inductive flight_step :: "('db, 'txn, 's3, 'bk) node_env \<Rightarrow> 'prog expr_lib \<Rightarrow> 's3 \<Rightarrow> group_info \<Rightarrow> string \<Rightarrow>
    'db flight \<Rightarrow> 'db flight \<Rightarrow> bool"
  for E X s resp memberID where
  handles: "group_step (env_B E) X (fl_group f) g \<Longrightarrow> flight_step E X s resp memberID f (f\<lparr>fl_group := g\<rparr>)"
| follows: "fl_calls f = None \<Longrightarrow> \<not> crashed (fl_group f) \<Longrightarrow>
    topicInfoLoop E s resp memberID (fl_lc f) (gr_pm (fl_group f)) (fl_disk f) = (Returned, calls, lc', pm', disk') \<Longrightarrow>
    flight_step E X s resp memberID f
      \<lparr>fl_group = (fl_group f)\<lparr>gr_pm := pm'\<rparr>, fl_disk = disk', fl_lc = lc', fl_calls = Some calls\<rparr>"

inductive_cases flight_stepE: "flight_step E X s resp memberID f f'"

definition start_flight :: "(int \<times> (wire \<times> int) list) list \<Rightarrow> 'db PartitionManager \<Rightarrow> 'db disk \<Rightarrow> LogConsumer \<Rightarrow> 'db flight" where
  "start_flight parts pm disk lc = \<lparr>fl_group = start_group parts pm, fl_disk = disk, fl_lc = lc, fl_calls = None\<rparr>"

section \<open>Lemmas\<close>

text \<open>
  The invariant: until \<^verbatim>\<open>topicInfoLoop\<close> runs the goroutine has not begun or has been turned away;
  then it has been turned away, or what it will make of the partition is decided.
\<close>

definition flight_inv :: "('db \<Rightarrow> bytes \<Rightarrow> wire option) \<Rightarrow> 'prog expr_lib \<Rightarrow> int \<Rightarrow> (wire \<times> int) list \<Rightarrow> node \<Rightarrow> 'db disk \<Rightarrow>
    kgo_call list \<Rightarrow> replica \<Rightarrow> replica \<Rightarrow> 'db flight \<Rightarrow> bool" where
  "flight_inv db_map X i ws n disk calls st0 st1 f \<longleftrightarrow> pm_ok db_map (gr_pm (fl_group f)) \<and>
     (\<exists>r. gr_routines (fl_group f) = [(i, r)] \<and> routine_ok r \<and>
        (if fl_calls f = None
         then fl_disk f = disk \<and> abs_node db_map (gr_pm (fl_group f)) = n \<and> r \<in> {Working ws, Ended (Err ErrPartitionNotFound)}
         else fl_calls f = Some calls \<and>
           fate X r (abs_node db_map (gr_pm (fl_group f)) i) \<in> {(Some st0, Err ErrPartitionNotFound), (Some st1, Ok ())}))"

lemma turned_away:
  assumes "abs_node db_map pm i = None" and "spec_batch X ws None = (None, Err ErrPartitionNotFound)"
    and "routine_step B X i (Working ws) pm = Some (r', pm')"
  shows "r' = Ended (Err ErrPartitionNotFound) \<and> pm' = pm"
proof (cases ws)
  case (Cons wo ws')
  obtain w off where wo: "wo = (w, off)" by fastforce
  have "Load (Partitions pm) i = None" using assms(1) by (simp add: abs_node_def)
  with assms(2,3) Cons wo show ?thesis
    by (cases "unmarshal_RecordMutation w zero_RecordMutation") (auto simp: pm_HandleMutation_def)
qed (use assms(2) in simp)

context badger_reliable
begin

lemma handles_inv:
  assumes inv: "flight_inv db_map X i ws n disk calls st0 st1 f" and none: "n i = None"
    and ws: "spec_batch X ws None = (None, Err ErrPartitionNotFound)" and step: "group_step B X (fl_group f) g"
  shows "flight_inv db_map X i ws n disk calls st0 st1 (f\<lparr>fl_group := g\<rparr>)"
  using step
proof cases
  case (turn k j r r' pm')
  obtain r0 where r0: "gr_routines (fl_group f) = [(i, r0)]" "routine_ok r0" using inv by (auto simp: flight_inv_def)
  with turn(3,4) have k: "k = 0" "j = i" "r = r0" by auto
  have pm: "pm_ok db_map (gr_pm (fl_group f))" using inv by (simp add: flight_inv_def)
  note step = turn(5) [unfolded k]
  note fate = routine_step_fate [OF pm r0(2) step]
  show ?thesis
  proof (cases "fl_calls f = None")
    case True
    with inv r0 have n: "abs_node db_map (gr_pm (fl_group f)) = n" and "r0 \<in> {Working ws, Ended (Err ErrPartitionNotFound)}"
      by (auto simp: flight_inv_def)
    with step have "routine_step B X i (Working ws) (gr_pm (fl_group f)) = Some (r', pm')" by auto
    from turned_away [OF _ ws this] n none have "r' = Ended (Err ErrPartitionNotFound)" "pm' = gr_pm (fl_group f)" by auto
    with r0 True turn(1) k inv show ?thesis by (auto simp: flight_inv_def)
  next
    case False
    with inv r0 have "fate X r0 (abs_node db_map (gr_pm (fl_group f)) i) \<in> {(Some st0, Err ErrPartitionNotFound), (Some st1, Ok ())}"
      "fl_calls f = Some calls" by (auto simp: flight_inv_def)
    with fate r0 turn(1) k show ?thesis by (auto simp: flight_inv_def)
  qed
qed

end

context node_disk
begin

lemma flight_inv_steps:
  fixes lc :: LogConsumer
  assumes env: "\<not> env_S3RestoreEnabled E" "env_session E = None"
    and me: "find (\<lambda>item. MemberID item = memberID) members = Some me" "Assigned me = Some ((topic, parts) # rest)" "distinct parts"
    and dirs: "\<forall>i \<in> set parts. \<forall>d. disk (getPartitionPath i) = Some d \<longrightarrow> store_ok (db_map d)"
    and ok: "pm_ok db_map pm" and new: "i \<in> set parts" "abs_node db_map pm i = None"
    and ws: "wires_ok ws" "spec_batch X ws None = (None, Err ErrPartitionNotFound)"
      "spec_batch X ws (Some (abs_store (stored db_map disk i))) = (Some st1, Ok ())"
    and run: "(flight_step E X s (Inr (members # groups)) memberID)\<^sup>*\<^sup>* (start_flight [(i, ws)] pm disk lc) f"
  shows "flight_inv db_map X i ws (abs_node db_map pm) disk
    (let t = formatMutationTopic (lc_Namespace lc); news = filter (\<lambda>i. abs_node db_map pm i = None) parts
     in [PauseFetchPartitions t news,
         SetOffsets t (map (\<lambda>i. (i, resetOffset (abs_offset (stored db_map disk i)))) news),
         ResumeFetchPartitions t news])
    (abs_store (stored db_map disk i)) st1 f \<and> (fl_calls f = None \<longrightarrow> fl_lc f = lc)"
    (is "flight_inv db_map X i ws ?n disk ?calls ?st0 st1 f \<and> _")
  using run
proof (induction rule: rtranclp_induct)
  case base
  show ?case using ok ws by (simp add: flight_inv_def start_flight_def start_group_def)
next
  case (step f f')
  from step(2) show ?case
  proof cases
    case (handles g)
    with handles_inv [OF conjunct1 [OF step(3)] new(2) ws(2)] step(3) show ?thesis by simp
  next
    case (follows calls lc' pm' disk')
    let ?pm = "gr_pm (fl_group f)"
    from step(3) follows(2) obtain r where inv: "pm_ok db_map ?pm" "gr_routines (fl_group f) = [(i, r)]" "routine_ok r" "fl_disk f = disk"
        "abs_node db_map ?pm = ?n" "r \<in> {Working ws, Ended (Err ErrPartitionNotFound)}" "fl_lc f = lc"
      by (auto simp: flight_inv_def)
    have dirs': "\<forall>i \<in> set parts. \<forall>d. abs_node db_map ?pm i = None \<longrightarrow> disk (getPartitionPath i) = Some d \<longrightarrow> store_ok (db_map d)"
      using dirs by blast
    have news: "filter (\<lambda>i. ?n i = None) parts \<noteq> []" using new by (force simp: filter_empty_conv)
    note R = topicInfoLoop_runs [OF inv(1) env me dirs', of s groups lc, unfolded inv(5)]
    from R follows(4) [unfolded inv(4,7)] obtain pm1 disk1 where
      t: "dom ?n - set parts = {} \<or> env_BackupEnabled E" "calls = ?calls" "drops db_map pm1 disk1 pm' disk'"
        "abs_node db_map pm' = (\<lambda>i. if i \<in> dom ?n - set parts then None else abs_node db_map pm1 i)"
        "abs_node db_map pm1 = (\<lambda>i. if i \<in> set (filter (\<lambda>i. ?n i = None) parts) then Some (abs_store (stored db_map disk i)) else ?n i)"
      using news by (auto simp: Let_def split: if_splits)
    have "abs_node db_map pm' i = Some ?st0" using new by (simp add: t(4,5))
    with inv(6) ws(3) have "fate X r (abs_node db_map pm' i) \<in> {(Some ?st0, Err ErrPartitionNotFound), (Some st1, Ok ())}" by auto
    moreover have "pm_ok db_map pm'" using t(3) by (simp add: drops_def)
    ultimately show ?thesis using inv(2,3) t(2) follows(1) by (simp add: flight_inv_def)
  qed
qed

lemma handles_steps:
  assumes "(group_step (env_B E) X)\<^sup>*\<^sup>* (fl_group f) g"
  shows "(flight_step E X s resp memberID)\<^sup>*\<^sup>* f (f\<lparr>fl_group := g\<rparr>)"
  using assms
proof (induction rule: rtranclp_induct)
  case (step g h)
  from handles [of E X "f\<lparr>fl_group := g\<rparr>" h s resp memberID] step show ?case by (simp add: rtranclp.rtrancl_into_rtrancl)
qed simp

lemma flight_ends:
  assumes inv: "flight_inv db_map X i ws n disk calls st0 st1 f" and "Wait (fl_group f) = Some r" and "fl_calls f = Some cs"
  shows "cs = calls \<and> abs_node db_map (gr_pm (fl_group f)) i \<in> {Some st0, Some st1} \<and>
    (gr_routines (fl_group f) = [(i, Ended (Err ErrPartitionNotFound))] \<longrightarrow> abs_node db_map (gr_pm (fl_group f)) i = Some st0)"
proof -
  obtain r0 where r0: "gr_routines (fl_group f) = [(i, r0)]" "cs = calls"
    "fate X r0 (abs_node db_map (gr_pm (fl_group f)) i) \<in> {(Some st0, Err ErrPartitionNotFound), (Some st1, Ok ())}"
    using inv assms(3) by (auto simp: flight_inv_def)
  from assms(2) r0(1) have "is_ended r0" by (auto simp: Wait_def crashed_def is_ended_def split: if_splits routine.splits)
  then obtain u where "r0 = Ended u" by (auto simp: is_ended_def split: routine.splits)
  with r0 show ?thesis by auto
qed

text \<open>Both orders can happen.\<close>

lemma flight_late:
  fixes lc :: LogConsumer
  assumes topic: "topicInfoLoop E s resp memberID lc pm disk = (Returned, calls, lc', pm', disk')"
    and ok: "pm_ok db_map pm'" and ws: "wires_ok ws" "spec_batch X ws (abs_node db_map pm' i) = (Some st1, Ok ())"
  shows "\<exists>f r cs. (flight_step E X s resp memberID)\<^sup>*\<^sup>* (start_flight [(i, ws)] pm disk lc) f \<and> Wait (fl_group f) = Some r \<and>
    fl_calls f = Some cs \<and> abs_node db_map (gr_pm (fl_group f)) i = Some st1"
proof -
  let ?f0 = "start_flight [(i, ws)] pm disk lc"
  let ?f1 = "\<lparr>fl_group = start_group [(i, ws)] pm', fl_disk = disk', fl_lc = lc', fl_calls = Some calls\<rparr>"
  have "flight_step E X s resp memberID ?f0 ?f1"
    using follows [where f = ?f0, of E s resp memberID calls lc' pm' disk' X] topic
    by (simp add: start_flight_def start_group_def crashed_def)
  moreover obtain g r where g: "(group_step (env_B E) X)\<^sup>*\<^sup>* (start_group [(i, ws)] pm') g" "Wait g = Some r"
    using group_returns by blast
  moreover have "(flight_step E X s resp memberID)\<^sup>*\<^sup>* ?f1 (?f1\<lparr>fl_group := g\<rparr>)"
    by (rule handles_steps) (simp add: g(1))
  ultimately have run: "(flight_step E X s resp memberID)\<^sup>*\<^sup>* ?f0 (?f1\<lparr>fl_group := g\<rparr>)" by simp
  note G = group_any_schedule [OF ok _ _ g]
  from G ws have "r \<noteq> Panic" by (auto simp: summary_def results_def)
  with G ws have "abs_node db_map (gr_pm g) i = Some st1" by (auto simp: run_parts_def)
  with run g(2) show ?thesis by (intro exI [of _ "?f1\<lparr>fl_group := g\<rparr>"]) auto
qed

lemma flight_early:
  fixes lc :: LogConsumer
  assumes topic: "topicInfoLoop E s resp memberID lc pm disk = (Returned, calls, lc', pm', disk')"
    and none: "abs_node db_map pm i = None" and ws: "spec_batch X ws None = (None, Err ErrPartitionNotFound)"
  shows "\<exists>f r cs. (flight_step E X s resp memberID)\<^sup>*\<^sup>* (start_flight [(i, ws)] pm disk lc) f \<and> Wait (fl_group f) = Some r \<and>
    fl_calls f = Some cs \<and> gr_routines (fl_group f) = [(i, Ended (Err ErrPartitionNotFound))]"
proof -
  let ?f0 = "start_flight [(i, ws)] pm disk lc"
  let ?g = "\<lparr>gr_routines = [(i, Ended (Err ErrPartitionNotFound))], gr_pm = pm, gr_err = Some ErrPartitionNotFound\<rparr>"
  let ?f2 = "\<lparr>fl_group = ?g\<lparr>gr_pm := pm'\<rparr>, fl_disk = disk', fl_lc = lc', fl_calls = Some calls\<rparr>"
  have "routine_step (env_B E) X i (Working ws) pm \<noteq> None" by (cases ws) auto
  then obtain r' pm1 where st: "routine_step (env_B E) X i (Working ws) pm = Some (r', pm1)" by fastforce
  from turned_away [OF none ws st] st
  have st': "routine_step (env_B E) X i (Working ws) pm = Some (Ended (Err ErrPartitionNotFound), pm)" by simp
  have "group_step (env_B E) X (start_group [(i, ws)] pm) ?g"
    using turn [of "start_group [(i, ws)] pm" 0 i "Working ws" "env_B E" X "Ended (Err ErrPartitionNotFound)" pm] st'
    by (simp add: start_group_def crashed_def keep_error_def)
  then have 1: "flight_step E X s resp memberID ?f0 (?f0\<lparr>fl_group := ?g\<rparr>)"
    by (intro handles) (simp add: start_flight_def)
  have 2: "flight_step E X s resp memberID (?f0\<lparr>fl_group := ?g\<rparr>) ?f2"
    using follows [where f = "?f0\<lparr>fl_group := ?g\<rparr>", of E s resp memberID calls lc' pm' disk' X] topic
    by (simp add: start_flight_def crashed_def)
  have "Wait (fl_group ?f2) = Some (Err ErrPartitionNotFound)" by (simp add: Wait_def crashed_def is_ended_def)
  with 1 2 show ?thesis
    by (intro exI [of _ ?f2]) (auto intro: converse_rtranclp_into_rtranclp)
qed

end

section \<open>Properties\<close>


definition overtaken_log :: log where
  "overtaken_log = [(demo_put ''a'' ''x'' None 7, 0), (demo_put ''a'' ''y'' None 9, 1)]"

lemma overtaken_log_ok: "log_ok overtaken_log" "log_ok (drop 1 overtaken_log)"
  by (simp_all add: overtaken_log_def demo_mutation_ok time_ok_def int64_range_def)
    (simp_all add: demo_put_def mutation_ok_def no_nul_def NUL_def data_ok_def time_ok_def)


end
