(* ===== verification/GossipNet.thy ===== *)
theory GossipNet
  imports Gossip
begin

text \<open>
  Nodes that gossip: every node queues advertisements (\<^verbatim>\<open>broadcastAdvertiseMessage\<close>), the
  membership library sends what it takes from the queue (\<^verbatim>\<open>GetBroadcasts\<close>) and hands it to other
  nodes (\<^verbatim>\<open>NotifyMsg\<close>), late, repeatedly, in any order or never; nodes come and go
  (\<^verbatim>\<open>NotifyJoin\<close>, \<^verbatim>\<open>NotifyLeave\<close>) and their partitions change. The handler of a message takes the
  lock of the table three times, so other callbacks can come in between.
\<close>

section \<open>The queue of broadcasts\<close>

text \<open>
  What the library promises of its queue: a broadcast that replaces no other one is added, what
  is taken was queued, and a limit that is large enough takes all. \<open>queued\<close> is what is in it.
\<close>

locale broadcast_queue =
  fixes L :: "'q memberlist_lib" and queued :: "'q \<Rightarrow> wire set"
  assumes queued_new: "queued (ml_new_queue L) = {}"
    and queued_add: "queued (ml_queue L q b) = insert b (queued q)"
    and queued_take: "ml_take L q overhead limit = (ms, q') \<Longrightarrow> set ms \<subseteq> queued q \<and> queued q' \<subseteq> queued q"
    and take_all: "\<exists>overhead limit. queued q \<subseteq> set (fst (ml_take L q overhead limit))"

section \<open>The handler in steps\<close>

text \<open>
  \<^verbatim>\<open>handleDelegateMsg\<close>: compare under the read lock, then remove, then add, each under the write
  lock.
\<close>

datatype handler = Idle | Removing "int list" "int list" string | Adding "int list" string

definition handler_begin :: "remotes \<Rightarrow> wire \<Rightarrow> handler" where
  "handler_begin rp b =
     (if b = Raw [] then Idle
      else case unmarshal_GossipMessage b of
        Ok msg \<Rightarrow>
          if MsgType msg = AdvertiseMessage then
            (case checkForPartitionDifference rp (msg_Partitions msg) (Addr msg) of
               (newParts, removedParts) \<Rightarrow> Removing newParts removedParts (Addr msg))
          else Idle
      | Err _ \<Rightarrow> Idle
      | Panic \<Rightarrow> Idle)"

fun handler_step :: "remotes \<Rightarrow> handler \<Rightarrow> remotes \<times> handler" where
  "handler_step rp Idle = (rp, Idle)"
| "handler_step rp (Removing newParts removedParts addr) =
     (if length removedParts > 0 then removeRemotePartitions rp removedParts addr else rp, Adding newParts addr)"
| "handler_step rp (Adding newParts addr) =
     (if length newParts > 0 then addRemotePartitions rp newParts addr else rp, Idle)"

lemma handler_undisturbed:
  "(case handler_step rp (handler_begin rp b) of (rp1, h1) \<Rightarrow> handler_step rp1 h1) = (handleDelegateMsg rp b, Idle)"
  by (auto simp: handler_begin_def handleDelegateMsg_def Let_def split: go.split prod.split)

section \<open>The network\<close>

text \<open>
  A node: its gossip manager, its partitions and its message handler. \<open>gn_sent\<close> is what has been
  handed to the network, with the sender; \<open>gn_held\<close> records the partitions that each node has held
  when it advertised.
\<close>

record ('q, 'db) peer =
  pe_gm :: "'q GossipManager"
  pe_pm :: "'db PartitionManager"
  pe_handler :: handler

record ('q, 'db) gossip_net =
  gn_peers :: "string \<Rightarrow> ('q, 'db) peer"
  gn_sent :: "(string \<times> wire) set"
  gn_held :: "string \<Rightarrow> int set"

abbreviation table :: "('q, 'db) gossip_net \<Rightarrow> string \<Rightarrow> remotes" where
  "table s u \<equiv> g_remotePartitions (pe_gm (gn_peers s u))"

abbreviation parts :: "('q, 'db) gossip_net \<Rightarrow> string \<Rightarrow> int list" where
  "parts s u \<equiv> GetPartitionIDs (pe_pm (gn_peers s u))"

definition partitions_ok :: "'db PartitionManager \<Rightarrow> bool" where
  "partitions_ok pm \<longleftrightarrow> list_all int32_range (GetPartitionIDs pm)"

text \<open>
  A node is known by the address it advertises. \<open>rg\<close> gives the replica groups. The two halves of
  \<^verbatim>\<open>NewGossipManager\<close> are steps of their own, between which the callbacks run.
\<close>

inductive gossip_step :: "'q memberlist_lib \<Rightarrow> (string \<Rightarrow> string) \<Rightarrow> ('q, 'db) gossip_net \<Rightarrow> ('q, 'db) gossip_net \<Rightarrow> bool"
  for L rg where
  create: "createManager L port debug u = Ok (Some gm) \<Longrightarrow>
    gossip_step L rg s (s\<lparr>gn_peers := (gn_peers s)(u := (gn_peers s u)\<lparr>pe_gm := gm, pe_handler := Idle\<rparr>)\<rparr>)"
| start: "joinCluster L u (rg u) seeds (pe_pm (gn_peers s u)) (pe_gm (gn_peers s u)) = Ok gm \<Longrightarrow>
    gossip_step L rg s (s\<lparr>gn_peers := (gn_peers s)(u := (gn_peers s u)\<lparr>pe_gm := gm\<rparr>),
      gn_held := (gn_held s)(u := gn_held s u \<union> set (parts s u))\<rparr>)"
| advertise: "broadcastAdvertiseMessage L u (rg u) (pe_pm (gn_peers s u)) (pe_gm (gn_peers s u)) = Ok gm \<Longrightarrow>
    gossip_step L rg s (s\<lparr>gn_peers := (gn_peers s)(u := (gn_peers s u)\<lparr>pe_gm := gm\<rparr>),
      gn_held := (gn_held s)(u := gn_held s u \<union> set (parts s u))\<rparr>)"
| join: "NotifyJoin L u (rg u) (pe_pm (gn_peers s u)) (pe_gm (gn_peers s u)) = Ok gm \<Longrightarrow>
    gossip_step L rg s (s\<lparr>gn_peers := (gn_peers s)(u := (gn_peers s u)\<lparr>pe_gm := gm\<rparr>),
      gn_held := (gn_held s)(u := gn_held s u \<union> set (parts s u))\<rparr>)"
| transmit: "GetBroadcasts L overhead limit (pe_gm (gn_peers s u)) = Ok (ms, gm) \<Longrightarrow>
    gossip_step L rg s (s\<lparr>gn_peers := (gn_peers s)(u := (gn_peers s u)\<lparr>pe_gm := gm\<rparr>),
      gn_sent := gn_sent s \<union> Pair u ` set ms\<rparr>)"
| receive: "(v, b) \<in> gn_sent s \<Longrightarrow> u \<noteq> v \<Longrightarrow> pe_handler (gn_peers s u) = Idle \<Longrightarrow>
    gossip_step L rg s (s\<lparr>gn_peers := (gn_peers s)(u := (gn_peers s u)\<lparr>pe_handler := handler_begin (table s u) b\<rparr>)\<rparr>)"
| handle: "handler_step (table s u) (pe_handler (gn_peers s u)) = (rp, h) \<Longrightarrow>
    gossip_step L rg s (s\<lparr>gn_peers := (gn_peers s)(u := (gn_peers s u)
      \<lparr>pe_gm := (pe_gm (gn_peers s u))\<lparr>g_remotePartitions := rp\<rparr>, pe_handler := h\<rparr>)\<rparr>)"
| leave: "gossip_step L rg s (s\<lparr>gn_peers := (gn_peers s)(u := (gn_peers s u)
      \<lparr>pe_gm := NotifyLeave name (pe_gm (gn_peers s u))\<rparr>)\<rparr>)"
| exchange: "gossip_step L rg s (s\<lparr>gn_peers := (gn_peers s)(u := (gn_peers s u)
      \<lparr>pe_gm := MergeRemoteState (LocalState (pe_gm (gn_peers s v)) join) join (pe_gm (gn_peers s u))\<rparr>)\<rparr>)"
| assign: "partitions_ok pm \<Longrightarrow>
    gossip_step L rg s (s\<lparr>gn_peers := (gn_peers s)(u := (gn_peers s u)\<lparr>pe_pm := pm\<rparr>)\<rparr>)"

text \<open>Nobody has started; a node that is not yet advertising has an empty table and no queue.\<close>

definition gossip_start :: "('q, 'db) gossip_net \<Rightarrow> bool" where
  "gossip_start s \<longleftrightarrow> gn_sent s = {} \<and> gn_held s = (\<lambda>_. {}) \<and>
     (\<forall>u. table s u = [] \<and> g_broadcasts (pe_gm (gn_peers s u)) = None \<and>
        node_ID (g_Node (pe_gm (gn_peers s u))) = u \<and> pe_handler (gn_peers s u) = Idle \<and>
        partitions_ok (pe_pm (gn_peers s u)))"

definition gossip_reach :: "'q memberlist_lib \<Rightarrow> (string \<Rightarrow> string) \<Rightarrow> ('q, 'db) gossip_net \<Rightarrow> bool" where
  "gossip_reach L rg s \<longleftrightarrow> (\<exists>s0. gossip_start s0 \<and> (gossip_step L rg)\<^sup>*\<^sup>* s0 s)"

section \<open>What a callback does to the table\<close>

text \<open>Removing: the same partitions, with some of their addresses.\<close>

definition shrinks :: "remotes \<Rightarrow> remotes \<Rightarrow> bool" where
  "shrinks rp rp' \<longleftrightarrow> (distinct (map fst rp) \<longrightarrow> distinct (map fst rp')) \<and>
     (\<forall>p. rel_option (\<lambda>addrs addrs'. set addrs' \<subseteq> set addrs \<and> (distinct addrs \<longrightarrow> distinct addrs')) (map_of rp p) (map_of rp' p))"

lemma shrinks_refl [intro, simp]: "shrinks rp rp"
  by (simp add: shrinks_def option.rel_refl)

lemma shrinks_Some:
  assumes "shrinks rp rp'" and "map_of rp' p = Some addrs'"
  obtains addrs where "map_of rp p = Some addrs" "set addrs' \<subseteq> set addrs" "distinct addrs \<Longrightarrow> distinct addrs'"
  using assms by (auto simp: shrinks_def option_rel_Some2 dest!: spec [of _ p])

lemma shrinks_None: "shrinks rp rp' \<Longrightarrow> map_of rp' p = None \<longleftrightarrow> map_of rp p = None"
  by (auto simp: shrinks_def dest!: spec [of _ p] elim: option.rel_cases)

lemma shrinks_trans: "shrinks a b \<Longrightarrow> shrinks b c \<Longrightarrow> shrinks a c"
proof -
  assume ab: "shrinks a b" and bc: "shrinks b c"
  have "rel_option (\<lambda>addrs addrs'. set addrs' \<subseteq> set addrs \<and> (distinct addrs \<longrightarrow> distinct addrs')) (map_of a p) (map_of c p)" for p
  proof (cases "map_of c p")
    case None
    with shrinks_None [OF ab, of p] shrinks_None [OF bc, of p] show ?thesis by simp
  next
    case (Some as)
    from shrinks_Some [OF bc Some] obtain bs where bs: "map_of b p = Some bs" "set as \<subseteq> set bs" "distinct bs \<Longrightarrow> distinct as"
      by blast
    from shrinks_Some [OF ab bs(1)] obtain cs where "map_of a p = Some cs" "set bs \<subseteq> set cs" "distinct cs \<Longrightarrow> distinct bs"
      by blast
    with Some bs show ?thesis by auto
  qed
  with ab bc show ?thesis by (simp add: shrinks_def)
qed

lemma shrinks_update: "map_of rp p = Some addrs \<Longrightarrow> shrinks rp (AList.update p (filter P addrs) rp)"
  by (auto simp: shrinks_def update_conv' intro: option.rel_refl)

lemma shrinks_remove: "shrinks rp (removeRemotePartitions rp ps addr)"
  by (induction rp ps addr rule: removeRemotePartitions.induct)
    (auto split: option.split intro: shrinks_trans shrinks_update)

lemma shrinks_leave:
  assumes "distinct (map fst rp)"
  shows "shrinks rp (removePartitionsForAddr rp addr)"
  using removeForAddr_map [OF assms] removeForAddr_distinct [OF assms]
  by (simp add: shrinks_def option.rel_map option.rel_refl)

lemma shrinks_view: "shrinks rp rp' \<Longrightarrow> view rp' a \<subseteq> view rp a"
  by (fastforce simp: view_def elim: shrinks_Some)

lemma shrinks_ok: "shrinks rp rp' \<Longrightarrow> remotes_ok rp \<Longrightarrow> remotes_ok rp'"
  unfolding remotes_ok_def by (metis shrinks_Some shrinks_def)

text \<open>
  Adding: up to the first partition that is not in the table none of the partitions has the
  address yet, and none comes twice.
\<close>

fun addable :: "remotes \<Rightarrow> int list \<Rightarrow> string \<Rightarrow> bool" where
  "addable rp [] addr = True"
| "addable rp (p # ps) addr =
     (case map_of rp p of None \<Rightarrow> True | Some addrs \<Rightarrow> addr \<notin> set addrs \<and> p \<notin> set ps \<and> addable rp ps addr)"

lemma addable_shrinks: "shrinks rp rp' \<Longrightarrow> addable rp ps addr \<Longrightarrow> addable rp' ps addr"
proof (induction ps)
  case (Cons p ps)
  then show ?case by (cases "map_of rp' p") (auto elim!: shrinks_Some)
qed simp

lemma addable_update: "p \<notin> set ps \<Longrightarrow> addable (AList.update p x rp) ps addr = addable rp ps addr"
  by (induction ps) (auto simp: update_conv' split: option.split)

lemma add_view: "view (addRemotePartitions rp ps addr) a \<subseteq> view rp a \<union> (if a = addr then set ps else {})"
  by (induction rp ps addr rule: addRemotePartitions.induct)
    (fastforce simp: view_def update_conv' split: option.splits if_splits)+

lemma add_view_grows: "view rp b \<subseteq> view (addRemotePartitions rp ps addr) b"
  by (induction rp ps addr rule: addRemotePartitions.induct)
    (fastforce simp: view_def update_conv' split: option.splits if_splits)+

lemma add_first: "p \<in> view (addRemotePartitions rp (p # ps) addr) addr"
proof (cases "map_of rp p")
  case (Some addrs)
  have "p \<in> view (AList.update p (addrs @ [addr]) rp) addr" by (simp add: view_def update_conv')
  with Some add_view_grows show ?thesis by fastforce
qed (simp add: view_def update_conv')

lemma remotes_ok_update: "remotes_ok rp \<Longrightarrow> distinct addrs \<Longrightarrow> remotes_ok (AList.update p addrs rp)"
  by (auto simp: remotes_ok_def update_conv')

lemma add_ok: "addable rp ps addr \<Longrightarrow> remotes_ok rp \<Longrightarrow> remotes_ok (addRemotePartitions rp ps addr)"
proof (induction rp ps addr rule: addRemotePartitions.induct)
  case (2 rp p ps addr)
  show ?case
  proof (cases "map_of rp p")
    case None
    with 2(3) show ?thesis by (simp add: remotes_ok_update)
  next
    case (Some addrs)
    with 2(2) have a: "addr \<notin> set addrs" "p \<notin> set ps" "addable rp ps addr" by auto
    have "distinct (addrs @ [addr])" using 2(3) Some a(1) by (simp add: remotes_ok_def)
    with 2(1) [OF Some] 2(3) a Some show ?thesis by (simp add: addable_update remotes_ok_update)
  qed
qed simp

lemma addable_append:
  "distinct ks \<Longrightarrow> set ks \<inter> set us = {} \<Longrightarrow> \<forall>k \<in> set ks. \<exists>addrs. map_of rp k = Some addrs \<and> addr \<notin> set addrs \<Longrightarrow>
    \<forall>u \<in> set us. map_of rp u = None \<Longrightarrow> addable rp (ks @ us) addr"
proof (induction ks)
  case Nil
  then show ?case by (cases us) auto
qed auto

lemma difference_addable:
  assumes "distinct (map fst rp)" and "checkForPartitionDifference rp ps addr = (newParts, removedParts)"
  shows "addable rp newParts addr \<and> set newParts \<subseteq> set ps"
proof -
  let ?known = "map fst (filter (\<lambda>(p, addrs). addr \<notin> set addrs \<and> p \<in> set ps) rp)"
  let ?unknown = "filter (\<lambda>p. map_of rp p = None) ps"
  have new: "newParts = ?known @ ?unknown"
    using assms(2) by (simp add: checkForPartitionDifference_def diff_loop_eq)
  have known: "\<exists>addrs. map_of rp k = Some addrs \<and> addr \<notin> set addrs \<and> k \<in> set ps" if "k \<in> set ?known" for k
    using that assms(1) by force
  have "addable rp (?known @ ?unknown) addr"
    by (rule addable_append [OF distinct_map_filter [OF assms(1)]]) (use known in fastforce)+
  with known show ?thesis unfolding new by auto
qed

section \<open>Invariant\<close>

definition own_message :: "(string \<Rightarrow> string) \<Rightarrow> string \<Rightarrow> int set \<Rightarrow> wire \<Rightarrow> bool" where
  "own_message rg u adv b \<longleftrightarrow> (\<exists>ps. b = marshal_GossipMessage
       \<lparr>MsgType = AdvertiseMessage, Addr = u, ReplicaGroup = rg u, msg_Partitions = ps\<rparr> \<and>
     list_all int32_range ps \<and> set ps \<subseteq> adv)"

fun handler_ok :: "string \<Rightarrow> (string \<Rightarrow> int set) \<Rightarrow> remotes \<Rightarrow> handler \<Rightarrow> bool" where
  "handler_ok u adv rp Idle = True"
| "handler_ok u adv rp (Removing newParts removedParts addr) =
     (addr \<noteq> u \<and> set newParts \<subseteq> adv addr \<and> addable rp newParts addr)"
| "handler_ok u adv rp (Adding newParts addr) = (addr \<noteq> u \<and> set newParts \<subseteq> adv addr \<and> addable rp newParts addr)"

definition table_ok :: "string \<Rightarrow> (string \<Rightarrow> int set) \<Rightarrow> remotes \<Rightarrow> bool" where
  "table_ok u adv rp \<longleftrightarrow> remotes_ok rp \<and> (\<forall>a. view rp a \<subseteq> (if a = u then {} else adv a))"

definition gm_ok :: "('q \<Rightarrow> wire set) \<Rightarrow> (string \<Rightarrow> string) \<Rightarrow> string \<Rightarrow> (string \<Rightarrow> int set) \<Rightarrow> 'q GossipManager \<Rightarrow> bool" where
  "gm_ok queued rg u adv gm \<longleftrightarrow> node_ID (g_Node gm) = u \<and> table_ok u adv (g_remotePartitions gm) \<and>
     (\<forall>q. g_broadcasts gm = Some q \<longrightarrow> (\<forall>b \<in> queued q. own_message rg u (adv u) b))"

definition net_ok :: "('q \<Rightarrow> wire set) \<Rightarrow> (string \<Rightarrow> string) \<Rightarrow> ('q, 'db) gossip_net \<Rightarrow> bool" where
  "net_ok queued rg s \<longleftrightarrow>
     (\<forall>u. gm_ok queued rg u (gn_held s) (pe_gm (gn_peers s u)) \<and> partitions_ok (pe_pm (gn_peers s u)) \<and>
        handler_ok u (gn_held s) (table s u) (pe_handler (gn_peers s u))) \<and>
     (\<forall>(v, b) \<in> gn_sent s. own_message rg v (gn_held s v) b)"

lemma own_message_mono: "own_message rg u adv b \<Longrightarrow> adv \<subseteq> adv' \<Longrightarrow> own_message rg u adv' b"
  by (auto simp: own_message_def)

lemma handler_ok_mono: "handler_ok u adv rp h \<Longrightarrow> adv \<le> adv' \<Longrightarrow> handler_ok u adv' rp h"
  by (cases h) (auto simp: le_fun_def)

lemma handler_ok_shrinks: "handler_ok u adv rp h \<Longrightarrow> shrinks rp rp' \<Longrightarrow> handler_ok u adv rp' h"
  by (cases h) (auto intro: addable_shrinks)

lemma table_ok_mono: "table_ok u adv rp \<Longrightarrow> adv \<le> adv' \<Longrightarrow> table_ok u adv' rp"
  by (fastforce simp: table_ok_def le_fun_def)

lemma table_ok_shrinks: "table_ok u adv rp \<Longrightarrow> shrinks rp rp' \<Longrightarrow> table_ok u adv rp'"
  unfolding table_ok_def by (meson order_trans shrinks_ok shrinks_view)

lemma gm_ok_mono: "gm_ok queued rg u adv gm \<Longrightarrow> adv \<le> adv' \<Longrightarrow> gm_ok queued rg u adv' gm"
  unfolding gm_ok_def using table_ok_mono own_message_mono by (metis le_fun_def)

lemma handler_begin_ok:
  assumes t: "table_ok u adv rp" and b: "own_message rg v (adv v) b" and uv: "u \<noteq> v"
  shows "handler_ok u adv rp (handler_begin rp b)"
proof -
  obtain ps where ps: "b = marshal_GossipMessage \<lparr>MsgType = AdvertiseMessage, Addr = v, ReplicaGroup = rg v, msg_Partitions = ps\<rparr>"
    "list_all int32_range ps" "set ps \<subseteq> adv v" using b by (auto simp: own_message_def)
  then have "unmarshal_GossipMessage b = Ok \<lparr>MsgType = AdvertiseMessage, Addr = v, ReplicaGroup = rg v, msg_Partitions = ps\<rparr>"
    "b \<noteq> Raw []" by (auto simp: list_all_iff intro!: unmarshal_marshal_GossipMessage marshal_not_empty)
  moreover obtain new rem where d: "checkForPartitionDifference rp ps v = (new, rem)" by fastforce
  moreover have "addable rp new v \<and> set new \<subseteq> set ps"
    using t by (intro difference_addable [OF _ d]) (simp add: table_ok_def remotes_ok_def)
  ultimately show ?thesis using ps(3) uv by (auto simp: handler_begin_def)
qed

lemma handler_step_ok:
  assumes "table_ok u adv rp" and "handler_ok u adv rp h" and "handler_step rp h = (rp', h')"
  shows "table_ok u adv rp' \<and> handler_ok u adv rp' h'"
proof (cases h)
  case (Removing new rem addr)
  then have "shrinks rp rp'" using assms(3) shrinks_remove by auto
  with Removing assms show ?thesis using table_ok_shrinks [OF assms(1)] addable_shrinks [of rp rp'] by auto
next
  case (Adding new addr)
  with assms(2,3) have a: "addr \<noteq> u" "set new \<subseteq> adv addr" "addable rp new addr" "h' = Idle"
    and rp': "rp' = (if length new > 0 then addRemotePartitions rp new addr else rp)" by auto
  have "view (addRemotePartitions rp new addr) b \<subseteq> (if b = u then {} else adv b)" for b
  proof -
    have "view rp b \<subseteq> (if b = u then {} else adv b)" using assms(1) by (simp add: table_ok_def)
    with add_view [of rp new addr b] a show ?thesis by (cases "b = addr") auto
  qed
  with assms(1) add_ok [OF a(3)] have "table_ok u adv (addRemotePartitions rp new addr)" by (simp add: table_ok_def)
  with assms(1) a rp' show ?thesis by simp
qed (use assms in auto)

lemma merge_table [simp]: "g_remotePartitions (MergeRemoteState w join gm) = g_remotePartitions gm"
  by (auto simp: MergeRemoteState_def split: wire.split json.split go.split)

context broadcast_queue
begin

lemma advertise_ok_net:
  assumes "gm_ok queued rg u adv gm" and "partitions_ok pm" and "broadcastAdvertiseMessage L u (rg u) pm gm = Ok gm'"
  shows "gm_ok queued rg u (adv(u := adv u \<union> set (GetPartitionIDs pm))) gm' \<and>
    g_remotePartitions gm' = g_remotePartitions gm"
proof -
  let ?adv = "adv(u := adv u \<union> set (GetPartitionIDs pm))"
  let ?b = "marshal_GossipMessage \<lparr>MsgType = AdvertiseMessage, Addr = u, ReplicaGroup = rg u, msg_Partitions = GetPartitionIDs pm\<rparr>"
  obtain q where q: "g_broadcasts gm = Some q" "gm' = gm\<lparr>g_broadcasts := Some (ml_queue L q ?b)\<rparr>"
    using assms(3) by (auto simp: broadcastAdvertiseMessage_def Let_def split: option.splits)
  have "gm_ok queued rg u ?adv gm" using assms(1) by (rule gm_ok_mono) (auto simp: le_fun_def)
  moreover have "own_message rg u (?adv u) ?b" using assms(2) by (auto simp: own_message_def partitions_ok_def)
  ultimately show ?thesis using q by (auto simp: gm_ok_def queued_add)
qed

lemma merge_gm_ok: "gm_ok queued rg u adv gm \<Longrightarrow> gm_ok queued rg u adv (MergeRemoteState w join gm)"
  by (auto simp: MergeRemoteState_def gm_ok_def split: wire.split json.split go.split)

lemma leave_gm_ok:
  assumes "gm_ok queued rg u adv gm"
  shows "gm_ok queued rg u adv (NotifyLeave name gm) \<and> shrinks (g_remotePartitions gm) (g_remotePartitions (NotifyLeave name gm))"
proof -
  have "shrinks (g_remotePartitions gm) (removePartitionsForAddr (g_remotePartitions gm) name)"
    using assms by (intro shrinks_leave) (simp add: gm_ok_def table_ok_def remotes_ok_def)
  with assms show ?thesis by (auto simp: NotifyLeave_def gm_ok_def intro: table_ok_shrinks)
qed

lemma take_gm_ok:
  assumes "gm_ok queued rg u adv gm" and "GetBroadcasts L overhead limit gm = Ok (ms, gm')"
  shows "gm_ok queued rg u adv gm' \<and> g_remotePartitions gm' = g_remotePartitions gm \<and>
    (\<forall>b \<in> set ms. own_message rg u (adv u) b)"
proof -
  obtain q q' where q: "g_broadcasts gm = Some q" "ml_take L q overhead limit = (ms, q')" "gm' = gm\<lparr>g_broadcasts := Some q'\<rparr>"
    using assms(2) by (auto simp: GetBroadcasts_def split: option.splits prod.splits)
  with queued_take [OF q(2)] assms(1) show ?thesis by (auto simp: gm_ok_def)
qed

lemma create_gm_ok:
  assumes "createManager L port debug u = Ok (Some gm)"
  shows "gm_ok queued rg u adv gm"
  using assms
  by (auto simp: createManager_def Let_def gm_ok_def table_ok_def remotes_ok_def view_def split: if_splits sum.splits option.splits)

lemma start_gm_ok:
  assumes "gm_ok queued rg u adv gm0" and "partitions_ok pm" and "joinCluster L u (rg u) seeds pm gm0 = Ok gm"
  shows "gm_ok queued rg u (adv(u := adv u \<union> set (GetPartitionIDs pm))) gm \<and> g_remotePartitions gm = g_remotePartitions gm0"
proof -
  have gm: "broadcastAdvertiseMessage L u (rg u) pm (gm0\<lparr>g_broadcasts := Some (ml_new_queue L)\<rparr>) = Ok gm"
    using assms(3) by (auto simp: joinCluster_def Let_def split: if_splits option.splits)
  from assms(1) have "gm_ok queued rg u adv (gm0\<lparr>g_broadcasts := Some (ml_new_queue L)\<rparr>)"
    by (simp add: gm_ok_def queued_new)
  from advertise_ok_net [where rg = rg and u = u, OF this assms(2) gm] show ?thesis by simp
qed

lemma net_ok_update:
  assumes ok: "net_ok queued rg s" and s': "\<And>v. v \<noteq> u \<Longrightarrow> gn_peers s' v = gn_peers s v" "gn_held s \<le> gn_held s'"
    and p: "gm_ok queued rg u (gn_held s') (pe_gm (gn_peers s' u))" "partitions_ok (pe_pm (gn_peers s' u))"
      "handler_ok u (gn_held s') (table s' u) (pe_handler (gn_peers s' u))"
    and sent: "\<And>v b. (v, b) \<in> gn_sent s' \<Longrightarrow> (v, b) \<notin> gn_sent s \<Longrightarrow> own_message rg v (gn_held s' v) b"
  shows "net_ok queued rg s'"
proof -
  have "own_message rg v (gn_held s' v) b" if "(v, b) \<in> gn_sent s'" for v b
  proof (cases "(v, b) \<in> gn_sent s")
    case True
    then have "own_message rg v (gn_held s v) b" using ok by (auto simp: net_ok_def)
    then show ?thesis by (rule own_message_mono) (use s'(2) in \<open>simp add: le_fun_def\<close>)
  qed (use sent that in blast)
  moreover have "gm_ok queued rg v (gn_held s') (pe_gm (gn_peers s' v)) \<and> partitions_ok (pe_pm (gn_peers s' v)) \<and>
      handler_ok v (gn_held s') (table s' v) (pe_handler (gn_peers s' v))" for v
  proof (cases "v = u")
    case False
    have "gm_ok queued rg v (gn_held s) (pe_gm (gn_peers s v))" "partitions_ok (pe_pm (gn_peers s v))"
      "handler_ok v (gn_held s) (table s v) (pe_handler (gn_peers s v))" using ok by (simp_all add: net_ok_def)
    with False s' show ?thesis by (auto intro: gm_ok_mono handler_ok_mono)
  qed (use p in simp)
  ultimately show ?thesis by (auto simp: net_ok_def)
qed

lemma net_ok_step:
  assumes step: "gossip_step L rg s s'" and ok: "net_ok queued rg s"
  shows "net_ok queued rg s'"
proof -
  have I: "gm_ok queued rg u (gn_held s) (pe_gm (gn_peers s u))" "partitions_ok (pe_pm (gn_peers s u))"
    "handler_ok u (gn_held s) (table s u) (pe_handler (gn_peers s u))" for u using ok by (auto simp: net_ok_def)
  have T: "table_ok u (gn_held s) (table s u)" for u using I(1) by (simp add: gm_ok_def)
  have le: "gn_held s \<le> (gn_held s)(u := gn_held s u \<union> A)" for u A by (auto simp: le_fun_def)
  note upd = net_ok_update [OF ok, where s' = s']
  from step show ?thesis
  proof cases
    case (create port debug u gm)
    show ?thesis by (rule upd [of u]) (simp_all add: create(1) create_gm_ok [OF create(2)] I(2))
  next
    case (start u seeds gm)
    show ?thesis
      by (rule upd [of u]) (use start start_gm_ok [where rg = rg and u = u, OF I(1,2) start(2)] handler_ok_mono [OF I(3) le] le I(2) in simp_all)
  next
    case (advertise u gm)
    show ?thesis
      by (rule upd [of u]) (use advertise advertise_ok_net [where rg = rg and u = u, OF I(1,2) advertise(2)] handler_ok_mono [OF I(3) le] le I(2) in simp_all)
  next
    case (join u gm)
    then have j: "gm_ok queued rg u ((gn_held s)(u := gn_held s u \<union> set (parts s u))) gm \<and> g_remotePartitions gm = table s u"
      using advertise_ok_net [OF I(1,2)] gm_ok_mono [OF I(1) le] by (auto simp: NotifyJoin_def split: if_splits)
    show ?thesis by (rule upd [of u]) (use join j handler_ok_mono [OF I(3) le] le I(2) in simp_all)
  next
    case (transmit overhead limit u ms gm)
    note t = take_gm_ok [OF I(1) transmit(2)]
    show ?thesis by (rule upd [of u]) (use transmit t I in auto)
  next
    case (receive v b u)
    have "own_message rg v (gn_held s v) b" using ok receive(2) by (auto simp: net_ok_def)
    note b = handler_begin_ok [OF T this receive(3)]
    show ?thesis by (rule upd [of u]) (use receive b I in simp_all)
  next
    case (handle u rp h)
    note h = handler_step_ok [OF T I(3) handle(2)]
    show ?thesis
      by (rule upd [of u]) (use handle h I(1) [of u] I(2) in \<open>simp_all add: gm_ok_def\<close>)
  next
    case (leave u name)
    note l = leave_gm_ok [OF I(1) [of u], of name]
    show ?thesis by (rule upd [of u]) (use leave l I handler_ok_shrinks [OF I(3) conjunct2 [OF l]] in simp_all)
  next
    case (exchange u v join)
    show ?thesis by (rule upd [of u]) (use exchange merge_gm_ok [OF I(1)] I in simp_all)
  next
    case (assign pm u)
    show ?thesis by (rule upd [of u]) (use assign I in simp_all)
  qed
qed

lemma net_ok_start: "gossip_start s \<Longrightarrow> net_ok queued rg s"
  by (auto simp: gossip_start_def net_ok_def gm_ok_def table_ok_def remotes_ok_def view_def)

lemma net_ok_steps: "(gossip_step L rg)\<^sup>*\<^sup>* s s' \<Longrightarrow> net_ok queued rg s \<Longrightarrow> net_ok queued rg s'"
  by (induction rule: rtranclp_induct) (auto intro: net_ok_step)

lemma net_ok_reach: "gossip_reach L rg s \<Longrightarrow> net_ok queued rg s"
  unfolding gossip_reach_def using net_ok_steps net_ok_start by blast

lemma table_sound:
  assumes "gossip_reach L rg s" and "p \<in> view (table s u) a"
  shows "a \<noteq> u \<and> p \<in> gn_held s a"
proof -
  have "view (table s u) a \<subseteq> (if a = u then {} else gn_held s a)"
    using net_ok_reach [OF assms(1)] by (simp add: net_ok_def gm_ok_def table_ok_def)
  with assms(2) show ?thesis by (auto split: if_splits)
qed

end

lemma getRemotePartitions_view: "a \<in> set (getRemotePartitions rp p) \<longleftrightarrow> p \<in> view rp a"
  by (cases "map_of rp p") (simp_all add: getRemotePartitions_def view_def)

section \<open>Convergence\<close>

text \<open>
  What it takes to inform a node: finish its handler, advertise, transmit everything that is
  queued, and deliver the advertisement as often as there are partitions.
\<close>

abbreviation put_gm :: "('q, 'db) gossip_net \<Rightarrow> string \<Rightarrow> remotes \<Rightarrow> handler \<Rightarrow> ('q, 'db) gossip_net" where
  "put_gm s u rp h \<equiv> s\<lparr>gn_peers := (gn_peers s)(u := (gn_peers s u)
      \<lparr>pe_gm := (pe_gm (gn_peers s u))\<lparr>g_remotePartitions := rp\<rparr>, pe_handler := h\<rparr>)\<rparr>"

lemma deliver_once:
  assumes "(v, b) \<in> gn_sent s" and "u \<noteq> v" and "pe_handler (gn_peers s u) = Idle"
  shows "(gossip_step L rg)\<^sup>*\<^sup>* s (put_gm s u (handleDelegateMsg (table s u) b) Idle)"
proof -
  let ?s1 = "s\<lparr>gn_peers := (gn_peers s)(u := (gn_peers s u)\<lparr>pe_handler := handler_begin (table s u) b\<rparr>)\<rparr>"
  obtain rp1 h1 where 1: "handler_step (table s u) (handler_begin (table s u) b) = (rp1, h1)" by fastforce
  have 2: "handler_step rp1 h1 = (handleDelegateMsg (table s u) b, Idle)"
    using handler_undisturbed [of "table s u" b] 1 by simp
  have "gossip_step L rg s ?s1" by (rule receive [OF assms])
  moreover have "gossip_step L rg ?s1 (put_gm s u rp1 h1)"
    using handle [of ?s1 u rp1 h1 L rg] 1 by simp
  moreover have "gossip_step L rg (put_gm s u rp1 h1) (put_gm s u (handleDelegateMsg (table s u) b) Idle)"
    using handle [of "put_gm s u rp1 h1" u "handleDelegateMsg (table s u) b" Idle L rg] 2 by simp
  ultimately show ?thesis by (meson converse_rtranclp_into_rtranclp rtranclp.rtrancl_refl)
qed

lemma deliver_many:
  assumes "(v, b) \<in> gn_sent s" and "u \<noteq> v" and "pe_handler (gn_peers s u) = Idle"
  shows "(gossip_step L rg)\<^sup>*\<^sup>* s (put_gm s u (((\<lambda>rp. handleDelegateMsg rp b) ^^ n) (table s u)) Idle)"
proof (induction n)
  case 0
  have "put_gm s u (table s u) Idle = s" using assms(3) by (cases s) (auto simp: fun_eq_iff)
  then show ?case by (simp only: funpow_0 rtranclp.rtrancl_refl)
next
  case (Suc n)
  let ?s = "put_gm s u (((\<lambda>rp. handleDelegateMsg rp b) ^^ n) (table s u)) Idle"
  let ?s' = "put_gm s u (((\<lambda>rp. handleDelegateMsg rp b) ^^ Suc n) (table s u)) Idle"
  have "put_gm ?s u (handleDelegateMsg (table ?s u) b) Idle = ?s'" by simp
  moreover have "(gossip_step L rg)\<^sup>*\<^sup>* ?s (put_gm ?s u (handleDelegateMsg (table ?s u) b) Idle)"
    by (rule deliver_once) (use assms in simp_all)
  ultimately have "(gossip_step L rg)\<^sup>*\<^sup>* ?s ?s'" by (simp only:)
  with Suc show ?case by (rule rtranclp_trans)
qed

text \<open>Nodes that have started and are between two messages.\<close>

definition calm :: "string set \<Rightarrow> ('q, 'db) gossip_net \<Rightarrow> bool" where
  "calm V s \<longleftrightarrow> (\<forall>u \<in> V. pe_handler (gn_peers s u) = Idle \<and> g_broadcasts (pe_gm (gn_peers s u)) \<noteq> None)"

definition undisturbed :: "('q, 'db) gossip_net \<Rightarrow> ('q, 'db) gossip_net \<Rightarrow> bool" where
  "undisturbed s s' \<longleftrightarrow> (\<forall>u. pe_pm (gn_peers s' u) = pe_pm (gn_peers s u) \<and>
     (g_broadcasts (pe_gm (gn_peers s u)) \<noteq> None \<longrightarrow> g_broadcasts (pe_gm (gn_peers s' u)) \<noteq> None))"

lemma undisturbed_refl [simp]: "undisturbed s s"
  by (simp add: undisturbed_def)

lemma undisturbed_trans: "undisturbed a b \<Longrightarrow> undisturbed b c \<Longrightarrow> undisturbed a c"
  by (simp add: undisturbed_def)

lemma undisturbed_put [simp]: "undisturbed s (put_gm s u rp h)"
  by (simp add: undisturbed_def)

lemma handler_finishes:
  "\<exists>rp. (gossip_step L rg)\<^sup>*\<^sup>* s (put_gm s u rp Idle)"
proof -
  obtain rp1 h1 where 1: "handler_step (table s u) (pe_handler (gn_peers s u)) = (rp1, h1)" by fastforce
  obtain rp2 h2 where 2: "handler_step rp1 h1 = (rp2, h2)" by fastforce
  have "h2 = Idle" using 1 2 by (cases "pe_handler (gn_peers s u)") auto
  moreover have "gossip_step L rg s (put_gm s u rp1 h1)" by (rule handle [OF 1])
  moreover have "gossip_step L rg (put_gm s u rp1 h1) (put_gm s u rp2 h2)"
    using handle [of "put_gm s u rp1 h1" u rp2 h2 L rg] 2 by simp
  ultimately show ?thesis by (meson converse_rtranclp_into_rtranclp rtranclp.rtrancl_refl)
qed

lemma calm_down:
  assumes "finite V" and "\<forall>u \<in> V. g_broadcasts (pe_gm (gn_peers s u)) \<noteq> None"
  shows "\<exists>s'. (gossip_step L rg)\<^sup>*\<^sup>* s s' \<and> calm V s' \<and> undisturbed s s'"
  using assms
proof (induction V)
  case empty
  then show ?case by (auto simp: calm_def intro: undisturbed_refl)
next
  case (insert u V)
  then obtain s1 where s1: "(gossip_step L rg)\<^sup>*\<^sup>* s s1" "calm V s1" "undisturbed s s1" by auto
  obtain rp where rp: "(gossip_step L rg)\<^sup>*\<^sup>* s1 (put_gm s1 u rp Idle)" using handler_finishes by blast
  have "g_broadcasts (pe_gm (gn_peers s1 u)) \<noteq> None" using insert.prems s1(3) by (simp add: undisturbed_def)
  then have "calm (insert u V) (put_gm s1 u rp Idle)" using s1(2) by (auto simp: calm_def)
  moreover have "(gossip_step L rg)\<^sup>*\<^sup>* s (put_gm s1 u rp Idle)" using s1(1) rp by (rule rtranclp_trans)
  moreover have "undisturbed s (put_gm s1 u rp Idle)" using s1(3) undisturbed_put by (rule undisturbed_trans)
  ultimately show ?case by blast
qed

context broadcast_queue
begin

lemma send_current:
  assumes "g_broadcasts (pe_gm (gn_peers s v)) \<noteq> None"
  shows "\<exists>s'. (gossip_step L rg)\<^sup>*\<^sup>* s s' \<and> (v, marshal_GossipMessage \<lparr>MsgType = AdvertiseMessage, Addr = v,
      ReplicaGroup = rg v, msg_Partitions = parts s v\<rparr>) \<in> gn_sent s' \<and> undisturbed s s' \<and>
    (\<forall>u. table s' u = table s u \<and> pe_handler (gn_peers s' u) = pe_handler (gn_peers s u))"
proof -
  let ?b = "marshal_GossipMessage \<lparr>MsgType = AdvertiseMessage, Addr = v, ReplicaGroup = rg v, msg_Partitions = parts s v\<rparr>"
  obtain q where q: "g_broadcasts (pe_gm (gn_peers s v)) = Some q" using assms by blast
  let ?gm = "(pe_gm (gn_peers s v))\<lparr>g_broadcasts := Some (ml_queue L q ?b)\<rparr>"
  let ?s1 = "s\<lparr>gn_peers := (gn_peers s)(v := (gn_peers s v)\<lparr>pe_gm := ?gm\<rparr>), gn_held := (gn_held s)(v := gn_held s v \<union> set (parts s v))\<rparr>"
  have 1: "gossip_step L rg s ?s1" by (rule advertise) (simp add: broadcastAdvertiseMessage_def Let_def q)
  obtain overhead limit ms q' where t: "ml_take L (ml_queue L q ?b) overhead limit = (ms, q')" "queued (ml_queue L q ?b) \<subseteq> set ms"
    using take_all by (metis prod.collapse)
  let ?gm2 = "?gm\<lparr>g_broadcasts := Some q'\<rparr>"
  let ?s2 = "?s1\<lparr>gn_peers := (gn_peers ?s1)(v := (gn_peers ?s1 v)\<lparr>pe_gm := ?gm2\<rparr>), gn_sent := gn_sent ?s1 \<union> Pair v ` set ms\<rparr>"
  have 2: "gossip_step L rg ?s1 ?s2" by (rule transmit [of L overhead limit]) (simp add: GetBroadcasts_def t(1))
  have "?b \<in> set ms" using t(2) by (auto simp: queued_add)
  then have "(v, ?b) \<in> gn_sent ?s2" by simp
  moreover have "undisturbed s ?s2" by (simp add: undisturbed_def)
  ultimately show ?thesis using 1 2 by (intro exI [of _ ?s2]) auto
qed

lemma inform:
  assumes ok: "net_ok queued rg s" and calm: "calm V s" and uv: "u \<in> V" "v \<in> V" "u \<noteq> v"
  shows "\<exists>s'. (gossip_step L rg)\<^sup>*\<^sup>* s s' \<and> calm V s' \<and> undisturbed s s' \<and>
    view (table s' u) = (view (table s u))(v := set (parts s v)) \<and> (\<forall>w. w \<noteq> u \<longrightarrow> table s' w = table s w)"
proof -
  let ?msg = "\<lparr>MsgType = AdvertiseMessage, Addr = v, ReplicaGroup = rg v, msg_Partitions = parts s v\<rparr>"
  obtain s1 where s1: "(gossip_step L rg)\<^sup>*\<^sup>* s s1" "(v, marshal_GossipMessage ?msg) \<in> gn_sent s1" "undisturbed s s1"
    "\<forall>u. table s1 u = table s u \<and> pe_handler (gn_peers s1 u) = pe_handler (gn_peers s u)"
    using send_current [of s v rg] calm uv by (auto simp: calm_def)
  have idle: "pe_handler (gn_peers s1 u) = Idle" using s1(4) calm uv by (simp add: calm_def)
  let ?n = "Suc (card (set (parts s v) - dom (map_of (table s u))))"
  let ?rp = "((\<lambda>rp. handleDelegateMsg rp (marshal_GossipMessage ?msg)) ^^ ?n) (table s1 u)"
  let ?s2 = "put_gm s1 u ?rp Idle"
  have 2: "(gossip_step L rg)\<^sup>*\<^sup>* s1 ?s2" by (rule deliver_many [OF s1(2) uv(3) idle])
  have rp: "remotes_ok (table s u)" "list_all int32_range (parts s v)"
    using ok by (simp_all add: net_ok_def gm_ok_def table_ok_def partitions_ok_def)
  have "unmarshal_GossipMessage (marshal_GossipMessage ?msg) = Ok ?msg" "marshal_GossipMessage ?msg \<noteq> Raw []"
    using rp(2) by (auto simp: list_all_iff intro!: unmarshal_marshal_GossipMessage marshal_not_empty)
  from advertise_repeated [OF this(1) _ this(2) rp(1), of "card (set (parts s v) - dom (map_of (table s u)))"]
  have "view ?rp = (view (table s u))(v := set (parts s v))" using s1(4) by (auto simp: fun_eq_iff)
  then have "view (table ?s2 u) = (view (table s u))(v := set (parts s v))" by simp
  moreover have "calm V ?s2" using calm s1(3,4) by (simp add: calm_def undisturbed_def)
  moreover have "undisturbed s ?s2" using s1(3) undisturbed_put by (rule undisturbed_trans)
  moreover have "(gossip_step L rg)\<^sup>*\<^sup>* s ?s2" using s1(1) 2 by (rule rtranclp_trans)
  moreover have "\<forall>w. w \<noteq> u \<longrightarrow> table ?s2 w = table s w" using s1(4) by simp
  ultimately show ?thesis by blast
qed

lemma inform_all:
  "net_ok queued rg s \<Longrightarrow> calm V s \<Longrightarrow> \<forall>(u, v) \<in> set ps. u \<in> V \<and> v \<in> V \<and> u \<noteq> v \<Longrightarrow>
    \<exists>s'. (gossip_step L rg)\<^sup>*\<^sup>* s s' \<and> undisturbed s s' \<and>
      (\<forall>u v. (u, v) \<in> set ps \<longrightarrow> view (table s' u) v = set (parts s v)) \<and>
      (\<forall>u v. (u, v) \<notin> set ps \<longrightarrow> view (table s' u) v = view (table s u) v)"
proof (induction ps arbitrary: s)
  case Nil
  then show ?case by (auto intro: undisturbed_refl)
next
  case (Cons uv ps)
  obtain u v where uv: "uv = (u, v)" by fastforce
  with Cons.prems obtain s1 where s1: "(gossip_step L rg)\<^sup>*\<^sup>* s s1" "calm V s1" "undisturbed s s1"
    "view (table s1 u) = (view (table s u))(v := set (parts s v))" "\<forall>w. w \<noteq> u \<longrightarrow> table s1 w = table s w"
    using inform [of rg s V u v] by auto
  from Cons.IH [OF net_ok_steps [OF s1(1) Cons.prems(1)] s1(2)] Cons.prems(3) obtain s2 where
    s2: "(gossip_step L rg)\<^sup>*\<^sup>* s1 s2" "undisturbed s1 s2"
      "\<forall>u v. (u, v) \<in> set ps \<longrightarrow> view (table s2 u) v = set (parts s1 v)"
      "\<forall>u v. (u, v) \<notin> set ps \<longrightarrow> view (table s2 u) v = view (table s1 u) v" by auto
  have same: "parts s1 w = parts s w" for w using s1(3) by (simp add: undisturbed_def)
  have "view (table s2 a) b = set (parts s b)" if "(a, b) \<in> set (uv # ps)" for a b
    using that s2(3,4) s1(4) uv same by (cases "(a, b) \<in> set ps") auto
  moreover have "view (table s2 a) b = view (table s a) b" if "(a, b) \<notin> set (uv # ps)" for a b
    using that s2(4) s1(4,5) uv by (cases "a = u") auto
  ultimately show ?case using rtranclp_trans [OF s1(1) s2(1)] undisturbed_trans [OF s1(3) s2(2)] by blast
qed

lemma all_informed:
  assumes reach: "gossip_reach L rg s" and V: "finite V" "\<forall>u \<in> V. g_broadcasts (pe_gm (gn_peers s u)) \<noteq> None"
  shows "\<exists>s'. (gossip_step L rg)\<^sup>*\<^sup>* s s' \<and> undisturbed s s' \<and>
    (\<forall>u \<in> V. \<forall>v \<in> V. view (table s' u) v = (if u = v then {} else set (parts s v)))"
proof -
  obtain s1 where s1: "(gossip_step L rg)\<^sup>*\<^sup>* s s1" "calm V s1" "undisturbed s s1" using calm_down [OF V] by blast
  obtain ps where ps: "set ps = {(u, v) \<in> V \<times> V. u \<noteq> v}"
    using finite_list [of "{(u, v) \<in> V \<times> V. u \<noteq> v}"] V(1) by (auto intro: finite_subset [of _ "V \<times> V"])
  obtain s2 where s2: "(gossip_step L rg)\<^sup>*\<^sup>* s1 s2" "undisturbed s1 s2" "\<forall>u v. (u, v) \<in> set ps \<longrightarrow> view (table s2 u) v = set (parts s1 v)"
    using inform_all [OF net_ok_steps [OF s1(1) net_ok_reach [OF reach]] s1(2), of ps] ps by blast
  have steps: "(gossip_step L rg)\<^sup>*\<^sup>* s s2" using s1(1) s2(1) by (rule rtranclp_trans)
  then have "gossip_reach L rg s2" using reach by (auto simp: gossip_reach_def intro: rtranclp_trans)
  then have own: "view (table s2 u) u = {}" for u using table_sound by blast
  have same: "parts s1 w = parts s w" for w using s1(3) by (simp add: undisturbed_def)
  have "view (table s2 u) v = (if u = v then {} else set (parts s v))" if "u \<in> V" "v \<in> V" for u v
    using s2(3) own same that ps by auto
  with steps undisturbed_trans [OF s1(3) s2(2)] show ?thesis by blast
qed

end

text \<open>A queue that is emptied whenever it is asked.\<close>

interpretation simple_queue: broadcast_queue demo_memberlist set
  by unfold_locales (auto simp: demo_memberlist_def)

section \<open>Leaving\<close>

text \<open>
  A node that leaves while an advertisement of it is being handled is forgotten and then entered
  again, and no later event of its departure will remove it.
\<close>

lemma leave_during_message_is_undone:
  assumes "pe_handler (gn_peers s u) = Adding (p # ps) a" and "node_ID (g_Node (pe_gm (gn_peers s u))) \<noteq> a"
    and "remotes_ok (table s u)"
  shows "\<exists>s1 s2. gossip_step L rg s s1 \<and> gossip_step L rg s1 s2 \<and> view (table s1 u) a = {} \<and> p \<in> view (table s2 u) a"
proof -
  let ?gm = "NotifyLeave a (pe_gm (gn_peers s u))"
  let ?s1 = "s\<lparr>gn_peers := (gn_peers s)(u := (gn_peers s u)\<lparr>pe_gm := ?gm\<rparr>)\<rparr>"
  let ?s2 = "put_gm ?s1 u (addRemotePartitions (table ?s1 u) (p # ps) a) Idle"
  have "distinct (map fst (table s u))" using assms(3) by (simp add: remotes_ok_def)
  then have "view (table ?s1 u) a = {}" using assms(2) by (auto simp: NotifyLeave_def view_def removeForAddr_map)
  moreover have "gossip_step L rg s ?s1" by (rule leave)
  moreover have "gossip_step L rg ?s1 ?s2" by (rule handle) (simp add: assms(1))
  moreover have "p \<in> view (table ?s2 u) a" by (simp add: add_first del: addRemotePartitions.simps)
  ultimately show ?thesis by blast
qed

section \<open>Properties\<close>

text \<open>The example: two nodes start, of which the first holds partition 0.\<close>

definition demo_peers :: "(wire list, mem) gossip_net" where
  "demo_peers = \<lparr>gn_peers = (\<lambda>u. \<lparr>pe_gm = \<lparr>g_Node = \<lparr>node_ID = u, AdvertiseAddress = [], AdvertisePort = []\<rparr>,
       g_broadcasts = None, g_remotePartitions = [], g_items = []\<rparr>,
       pe_pm = (if u = ''a'' then demo_pm else NewPartitionManager ''ns''), pe_handler = Idle\<rparr>),
     gn_sent = {}, gn_held = (\<lambda>_. {})\<rparr>"

lemma demo_parts_ok: "GetPartitionIDs demo_pm = [0]" "GetPartitionIDs (NewPartitionManager ns) = []"
  by (simp_all add: GetPartitionIDs_map demo_pm_def NewPartitionManager_def NewMap_def)

lemma demo_peers_start: "gossip_start demo_peers"
  by (simp add: gossip_start_def demo_peers_def partitions_ok_def demo_parts_ok int32_range_def)

lemma demo_starts: "\<exists>gm'. joinCluster demo_memberlist u rg [] pm gm = Ok gm' \<and> g_broadcasts gm' \<noteq> None"
  by (auto simp: joinCluster_def demo_memberlist_def broadcastAdvertiseMessage_def Let_def)

lemma demo_net:
  "\<exists>s :: (wire list, mem) gossip_net. gossip_reach demo_memberlist rg s \<and>
    (\<forall>u \<in> {''a'', ''b''}. g_broadcasts (pe_gm (gn_peers s u)) \<noteq> None) \<and> parts s ''a'' = [0] \<and> parts s ''b'' = []"
proof -
  let ?start = "\<lambda>s u gm. s\<lparr>gn_peers := (gn_peers s)(u := (gn_peers s u)\<lparr>pe_gm := gm\<rparr>),
      gn_held := (gn_held s)(u := gn_held s u \<union> set (parts s u))\<rparr> :: (wire list, mem) gossip_net"
  obtain g where g: "joinCluster demo_memberlist ''a'' (rg ''a'') [] (pe_pm (gn_peers demo_peers ''a'')) (pe_gm (gn_peers demo_peers ''a'')) = Ok g"
    "g_broadcasts g \<noteq> None" using demo_starts by blast
  let ?s1 = "?start demo_peers ''a'' g"
  have 1: "gossip_step demo_memberlist rg demo_peers ?s1" by (rule start) (rule g(1))
  obtain h where h: "joinCluster demo_memberlist ''b'' (rg ''b'') [] (pe_pm (gn_peers ?s1 ''b'')) (pe_gm (gn_peers ?s1 ''b'')) = Ok h"
    "g_broadcasts h \<noteq> None" using demo_starts by blast
  have 2: "gossip_step demo_memberlist rg ?s1 (?start ?s1 ''b'' h)" by (rule start) (rule h(1))
  have "gossip_reach demo_memberlist rg (?start ?s1 ''b'' h)"
    using demo_peers_start 1 2 unfolding gossip_reach_def by (meson converse_rtranclp_into_rtranclp rtranclp.rtrancl_refl)
  with g(2) h(2) show ?thesis
    by (intro exI [of _ "?start ?s1 ''b'' h"]) (simp add: demo_peers_def demo_parts_ok)
qed

lemma demo_informed:
  "\<exists>s :: (wire list, mem) gossip_net. gossip_reach demo_memberlist rg s \<and> view (table s ''b'') ''a'' = {0}"
proof -
  obtain s :: "(wire list, mem) gossip_net" where s: "gossip_reach demo_memberlist rg s"
    "\<forall>u \<in> {''a'', ''b''}. g_broadcasts (pe_gm (gn_peers s u)) \<noteq> None" "parts s ''a'' = [0]" using demo_net by blast
  from simple_queue.all_informed [OF s(1) _ s(2)] s(3) obtain s' where
    "(gossip_step demo_memberlist rg)\<^sup>*\<^sup>* s s'" "view (table s' ''b'') ''a'' = {0}" by auto
  with s(1) show ?thesis unfolding gossip_reach_def by (meson rtranclp_trans)
qed





end
