(* ===== verification/Metrics.thy ===== *)
theory Metrics
  imports Api
begin

text \<open>
  The metrics of \<^verbatim>\<open>internal/metrics.go\<close> and where the code feeds them: the two histograms of
  latencies, by operation, and the gauge of the number of partitions. A histogram is the list of
  its observations. What the operations themselves do is in the theories they come from; here
  each is paired with what it observes.
\<close>

section \<open>The metrics\<close>

record metrics =
  Metric_HTTPLatenciesMicro :: "(string \<times> int) list"
  Metric_LocalPartitionLatenciesMicro :: "(string \<times> int) list"
  Metric_Partitions :: int

definition no_metrics :: metrics where
  "no_metrics = \<lparr>Metric_HTTPLatenciesMicro = [], Metric_LocalPartitionLatenciesMicro = [], Metric_Partitions = 0\<rparr>"

definition HTTPLatencies_Buckets :: "int list" where
  "HTTPLatencies_Buckets = [100, 200, 300, 400, 500, 750, 1000, 1250, 1500, 2000, 2500, 3000, 4000, 5000, 6000, 10000, 15000]"

definition LocalPartitionLatencies_Buckets :: "int list" where
  "LocalPartitionLatencies_Buckets = [10, 15, 25, 50, 75, 100, 200, 300, 400, 500, 750, 1000, 1250, 1500, 2000, 2500, 3000]"

text \<open>The library panics, when the package is loaded, if the bounds do not increase.\<close>

lemma Buckets_increase:
  "sorted_wrt (<) HTTPLatencies_Buckets" "sorted_wrt (<) LocalPartitionLatencies_Buckets"
  by (simp_all add: HTTPLatencies_Buckets_def LocalPartitionLatencies_Buckets_def)

definition observe_local :: "string \<Rightarrow> int \<Rightarrow> metrics \<Rightarrow> metrics" where
  "observe_local operation micros M =
     M\<lparr>Metric_LocalPartitionLatenciesMicro := Metric_LocalPartitionLatenciesMicro M @ [(operation, micros)]\<rparr>"

definition observe_http :: "string \<Rightarrow> int \<Rightarrow> metrics \<Rightarrow> metrics" where
  "observe_http operation micros M =
     M\<lparr>Metric_HTTPLatenciesMicro := Metric_HTTPLatenciesMicro M @ [(operation, micros)]\<rparr>"

section \<open>Partitions\<close>

text \<open>\<open>micros\<close> is the time the operation took. A failed operation is not observed.\<close>

definition ReadRecords_observed :: "('db, 'txn) badger_api \<Rightarrow> 'db Partition \<Rightarrow> RecordKey list \<Rightarrow> int \<Rightarrow> metrics \<Rightarrow>
    Record list go \<times> metrics" where
  "ReadRecords_observed B p keys micros M =
     (case ReadRecords B p keys of
        Ok records \<Rightarrow> (Ok records, observe_local (if length records = 0 then ''get_full_miss'' else ''get'') micros M)
      | r \<Rightarrow> (r, M))"

definition ListRecords_observed :: "('db, 'txn) badger_api \<Rightarrow> 'prog expr_lib \<Rightarrow> 'db Partition \<Rightarrow> string \<Rightarrow> string \<Rightarrow>
    int \<Rightarrow> string option \<Rightarrow> bool \<Rightarrow> int \<Rightarrow> metrics \<Rightarrow> Record list go \<times> metrics" where
  "ListRecords_observed B X p pk skPrefix limit ifStmt ifStop micros M =
     (case ListRecords B X p pk skPrefix limit ifStmt ifStop of
        Ok records \<Rightarrow> (Ok records, observe_local (if length records = 0 then ''list_full_miss'' else ''list'') micros M)
      | r \<Rightarrow> (r, M))"

definition handlePut_observed :: "('db, 'txn) badger_api \<Rightarrow> 'prog expr_lib \<Rightarrow> 'db Partition \<Rightarrow> string \<Rightarrow> string \<Rightarrow>
    string option \<Rightarrow> data \<Rightarrow> int \<Rightarrow> int \<Rightarrow> int \<Rightarrow> metrics \<Rightarrow> (unit go \<times> 'db Partition) \<times> metrics" where
  "handlePut_observed B X p pk sk ifStmt data offset tsMs micros M =
     (let r = handlePut B X p pk sk ifStmt data offset tsMs
      in (r, if fst r = Ok () then observe_local ''put'' micros M else M))"

definition handleDelete_observed :: "('db, 'txn) badger_api \<Rightarrow> 'prog expr_lib \<Rightarrow> 'db Partition \<Rightarrow> string \<Rightarrow> string \<Rightarrow>
    string option \<Rightarrow> int \<Rightarrow> int \<Rightarrow> metrics \<Rightarrow> (unit go \<times> 'db Partition) \<times> metrics" where
  "handleDelete_observed B X p pk sk ifStmt offset micros M =
     (let r = handleDelete B X p pk sk ifStmt offset
      in (r, if fst r = Ok () then observe_local ''delete'' micros M else M))"

definition HandleMutation_observed :: "('db, 'txn) badger_api \<Rightarrow> 'prog expr_lib \<Rightarrow> 'db Partition \<Rightarrow> RecordMutation \<Rightarrow>
    int \<Rightarrow> int \<Rightarrow> metrics \<Rightarrow> (unit go \<times> 'db Partition) \<times> metrics" where
  "HandleMutation_observed B X p m offset micros M =
     (if m_Mutation m = OperationPut then
        handlePut_observed B X p (m_Pk m) (m_Sk m) (m_If m) (m_Data m) offset (m_TsMs m) micros M
      else if m_Mutation m = OperationDelete then
        handleDelete_observed B X p (m_Pk m) (m_Sk m) (m_If m) offset micros M
      else ((Err ErrUnknownOperation, p), M))"

section \<open>Requests and assignments\<close>

text \<open>
  A handler that returns no error is observed under the operation of the URL, also one that
  answers with a status of its own (400 for an unknown operation). One that panics or does not
  return is not.
\<close>

definition operationHandler_observed :: "('db, 'txn, 'prog, 'k) api_env \<Rightarrow> 'db PartitionManager \<Rightarrow> remotes option \<Rightarrow>
    string \<Rightarrow> int \<Rightarrow> string \<Rightarrow> wire option \<Rightarrow> 'k \<Rightarrow> int \<Rightarrow> metrics \<Rightarrow> (reply \<times> 'k) \<times> metrics" where
  "operationHandler_observed A pm gm topic nMS operation body k micros M =
     (let r = operationHandler A pm gm topic nMS operation body k
      in (r, case fst r of Text _ _ \<Rightarrow> observe_http operation micros M | JSON _ _ \<Rightarrow> observe_http operation micros M | _ \<Rightarrow> M))"

text \<open>The gauge is set at the end of \<^verbatim>\<open>topicInfoLoop\<close>, to the length of the assignment.\<close>

definition topicInfoLoop_observed :: "('db, 'txn, 's3, 'bk) node_env \<Rightarrow> 's3 \<Rightarrow> group_info \<Rightarrow> string \<Rightarrow>
    LogConsumer \<Rightarrow> 'db PartitionManager \<Rightarrow> 'db disk \<Rightarrow> metrics \<Rightarrow>
    (status \<times> kgo_call list \<times> LogConsumer \<times> 'db PartitionManager \<times> 'db disk) \<times> metrics" where
  "topicInfoLoop_observed E s resp memberID lc pm disk M =
     (let r = topicInfoLoop E s resp memberID lc pm disk
      in (r, case resp of
           Inl _ \<Rightarrow> M
         | Inr groups \<Rightarrow>
             (if length groups = 0 then M
              else case find (\<lambda>item. MemberID item = memberID) (groups ! 0) of
                None \<Rightarrow> M
              | Some member \<Rightarrow>
                  (case Assigned member of
                     None \<Rightarrow> M
                   | Some topics \<Rightarrow>
                       if length topics = 0 then M
                       else if fst r = Returned then M\<lparr>Metric_Partitions := int (length (snd (topics ! 0)))\<rparr>
                       else M))))"

section \<open>What the metrics tell\<close>

lemma HandleMutation_observed_fst [simp]: "fst (HandleMutation_observed B X p m offset micros M) = HandleMutation B X p m offset"
  by (simp add: HandleMutation_observed_def HandleMutation_def handlePut_observed_def handleDelete_observed_def Let_def)

lemma OperationPut_not_Delete: "OperationPut \<noteq> OperationDelete"
  by (simp add: operation_defs)

text \<open>The observations count the mutations that were applied, and nothing else.\<close>

lemma HandleMutation_counts:
  "Metric_LocalPartitionLatenciesMicro (snd (HandleMutation_observed B X p m offset micros M)) =
    Metric_LocalPartitionLatenciesMicro M @ (if fst (HandleMutation B X p m offset) = Ok () then [(m_Mutation m, micros)] else [])"
  by (simp add: HandleMutation_observed_def HandleMutation_def handlePut_observed_def handleDelete_observed_def Let_def
      observe_local_def operation_defs)

text \<open>
  After a run of \<^verbatim>\<open>topicInfoLoop\<close> that returns, the gauge is the number of partitions the node has.
\<close>

lemma gauge_counts_partitions:
  assumes node: "node_disk E db_map txn_map" and ok: "pm_ok db_map pm" and env: "\<not> env_S3RestoreEnabled E" "env_session E = None"
    and me: "find (\<lambda>item. MemberID item = memberID) ms = Some me" "Assigned me = Some ((topic, ps) # rest)" "distinct ps"
    and dirs: "\<forall>i \<in> set ps. \<forall>d. abs_node db_map pm i = None \<longrightarrow> disk (getPartitionPath i) = Some d \<longrightarrow> store_ok (db_map d)"
    and run: "topicInfoLoop_observed E s (Inr (ms # groups)) memberID lc pm disk M = ((Returned, calls, lc', pm', disk'), M')"
  shows "Metric_Partitions M' = int (length (GetPartitionIDs pm'))"
proof -
  let ?gones = "dom (abs_node db_map pm) - set ps"
  obtain pm1 disk1 pm2 disk2 lc2 calls2 where r: "topicInfoLoop E s (Inr (ms # groups)) memberID lc pm disk =
      (if ?gones = {} \<or> env_BackupEnabled E then Returned else LoopBlocks, calls2, lc2, pm2, disk2)"
    "abs_node db_map pm1 = (\<lambda>i. if i \<in> set (filter (\<lambda>i. abs_node db_map pm i = None) ps) then Some (abs_store (stored db_map disk i))
      else abs_node db_map pm i)"
    "drops db_map pm1 disk1 pm2 disk2"
    "?gones = {} \<or> env_BackupEnabled E \<longrightarrow> abs_node db_map pm2 = (\<lambda>i. if i \<in> ?gones then None else abs_node db_map pm1 i)"
    using node_disk.topicInfoLoop_runs [OF node ok env me dirs, of s groups lc] by blast
  from run r(1) have ret: "?gones = {} \<or> env_BackupEnabled E" and pm2: "pm' = pm2" and M': "Metric_Partitions M' = int (length ps)"
    using me(1,2) by (auto simp: topicInfoLoop_observed_def Let_def split: if_splits)
  have pm2': "abs_node db_map pm2 = (\<lambda>i. if i \<in> ?gones then None else abs_node db_map pm1 i)" using r(4) ret by (rule mp)
  have "abs_node db_map pm2 i \<noteq> None \<longleftrightarrow> i \<in> set ps" for i
    unfolding pm2' r(2) by (cases "abs_node db_map pm i") (simp_all add: dom_def)
  then have "dom (abs_node db_map pm2) = set ps" by (simp add: dom_def)
  moreover have m: "map_ok (Partitions pm2)" using r(3) by (simp add: drops_def pm_ok_def)
  ultimately have "set (GetPartitionIDs pm2) = set ps" by (auto simp: set_GetPartitionIDs abs_node_def dom_def)
  moreover have "distinct (GetPartitionIDs pm2)" using m by (simp add: GetPartitionIDs_map map_ok_def)
  ultimately have "length (GetPartitionIDs pm2) = length ps" using me(3) by (metis distinct_card)
  with M' pm2 show ?thesis by simp
qed

end
