(* ===== verification/Logger.thy ===== *)
theory Logger
  imports Murmur
begin

text \<open>
  \<^verbatim>\<open>gologger/gologger.go\<close>: how the loggers of the packages are made, what of \<^verbatim>\<open>zerolog\<close>'s global
  settings this changes, and the text of the caller of a message. Writing messages is the
  library's.
\<close>

section \<open>The caller of a message\<close>

text \<open>\<^verbatim>\<open>strings.LastIndex\<close> of a single character.\<close>

definition LastIndex :: "string \<Rightarrow> char \<Rightarrow> int" where
  "LastIndex s c = (if c \<in> set s then int (length s) - 1 - int (length (takeWhile (\<lambda>x. x \<noteq> c) (rev s))) else - 1)"

text \<open>\<open>func\<close> is the name that \<^verbatim>\<open>runtime.FuncForPC\<close> finds, if it finds one.\<close>

definition CallerMarshalFunc :: "string option \<Rightarrow> string \<Rightarrow> int \<Rightarrow> string" where
  "CallerMarshalFunc func file line =
     (let function = (case func of
          None \<Rightarrow> []
        | Some funName \<Rightarrow>
            (let slash = LastIndex funName (CHR ''/'')
             in '' '' @ (if slash > 0 then drop (nat slash + 1) funName else funName) @ ''()''))
      in file @ '':'' @ int_str line @ function)"

section \<open>Loggers\<close>

datatype level = TraceLevel | DebugLevel | InfoLevel | WarnLevel | ErrorLevel | FatalLevel

datatype log_output = Stdout | ConsoleStderr

text \<open>A hook is the number of stack frames that it skips (\<^verbatim>\<open>CallerHook.Run\<close>).\<close>

record logger =
  lg_Output :: log_output
  lg_Timestamp :: bool
  lg_Hooks :: "nat list"

record zerolog =
  TimeFieldFormat :: string
  TimestampFieldName :: string
  GlobalLevel :: level
  DefaultContextLogger :: "logger option"
  CallerMarshal :: "(string option \<Rightarrow> string \<Rightarrow> int \<Rightarrow> string) option"

definition RFC3339Nano :: string where
  "RFC3339Nano = ''2006-01-02T15:04:05.999999999Z07:00''"

definition CallerHook :: nat where
  "CallerHook = 3"

definition NewLogger :: "environ \<Rightarrow> zerolog \<Rightarrow> logger \<times> zerolog" where
  "NewLogger env z =
     (\<lparr>lg_Output = (if Getenv env ''PRETTY'' = ''1'' then ConsoleStderr else Stdout), lg_Timestamp = True, lg_Hooks = [CallerHook]\<rparr>,
      z\<lparr>TimeFieldFormat := RFC3339Nano, TimestampFieldName := ''time'',
        GlobalLevel := (if Getenv env ''DEBUG'' = ''1'' then DebugLevel else InfoLevel)\<rparr>)"

definition init_gologger :: "environ \<Rightarrow> zerolog \<Rightarrow> zerolog" where
  "init_gologger env z =
     (case NewLogger env z of (l, z') \<Rightarrow> z'\<lparr>DefaultContextLogger := Some l, CallerMarshal := Some CallerMarshalFunc\<rparr>)"

section \<open>Lemmas\<close>

text \<open>The packages make their loggers in any order and number: all are equal.\<close>

lemma NewLogger_again: "NewLogger env (snd (NewLogger env z)) = NewLogger env z"
  by (simp add: NewLogger_def)

lemma NewLogger_after_init:
  "NewLogger env (init_gologger env z) = (fst (NewLogger env z), init_gologger env z)"
  by (simp add: NewLogger_def init_gologger_def)

lemma drop_LastIndex:
  assumes "c \<in> set s"
  shows "\<exists>a b. s = a @ c # b \<and> c \<notin> set b \<and> LastIndex s c = int (length a) \<and> drop (nat (LastIndex s c) + 1) s = b"
proof -
  obtain a b where s: "s = a @ c # b" "c \<notin> set b" using split_list_last [OF assms] by blast
  have "takeWhile (\<lambda>x. x \<noteq> c) (rev b @ c # rev a) = rev b @ takeWhile (\<lambda>x. x \<noteq> c) (c # rev a)"
    by (rule takeWhile_append2) (use s(2) in auto)
  with s have "LastIndex s c = int (length a)" by (simp add: LastIndex_def)
  with s show ?thesis by auto
qed

text \<open>The directories of a function's package are cut off: what is left is the base name.\<close>

lemma CallerMarshalFunc_base:
  assumes "CHR ''/'' \<notin> set base" and "dirs \<noteq> []"
  shows "CallerMarshalFunc (Some (dirs @ CHR ''/'' # base)) file line = file @ '':'' @ int_str line @ '' '' @ base @ ''()''"
proof -
  obtain a b where d: "dirs @ CHR ''/'' # base = a @ CHR ''/'' # b" "CHR ''/'' \<notin> set b"
    "LastIndex (dirs @ CHR ''/'' # base) (CHR ''/'') = int (length a)"
    using drop_LastIndex [of "CHR ''/''" "dirs @ CHR ''/'' # base"] by auto
  have "a = dirs \<and> b = base"
    using d(1,2) assms(1) by (auto simp: append_eq_append_conv2 Cons_eq_append_conv append_eq_Cons_conv)
  with d(3) assms(2) show ?thesis by (simp add: CallerMarshalFunc_def Let_def)
qed

end
