(* ===== verification/Experiment.thy ===== *)
theory Experiment
  imports Prelude "HOL-Library.AList"
begin

text \<open>
  \<^verbatim>\<open>badger_test/main.go\<close>: the experiment that shows how transactions of the store interact, three
  groups of goroutines whose order is fixed by sleeping. The store is a parameter; the locale
  \<open>mvcc\<close> states what it documents: transactions read the state they began with and their own
  writes, and a commit fails if a key that was read has been committed by another transaction
  since. All schedules are explored in which sleeping is the only thing that takes time.
\<close>

section \<open>The store\<close>

definition badger_ErrConflict :: go_error where
  "badger_ErrConflict = External ''Transaction Conflict. Please retry''"

definition badger_ErrKeyNotFound :: go_error where
  "badger_ErrKeyNotFound = External ''Key not found''"

definition badger_ErrReadOnlyTxn :: go_error where
  "badger_ErrReadOnlyTxn = External ''No sets or deletes are allowed in a read-only transaction''"

record ('db, 'txn) mvcc_api =
  mv_begin :: "'db \<Rightarrow> bool \<Rightarrow> 'txn"
  mv_get :: "'txn \<Rightarrow> bytes \<Rightarrow> (go_error + bytes) \<times> 'txn"
  mv_set :: "'txn \<Rightarrow> bytes \<Rightarrow> bytes \<Rightarrow> go_error + 'txn"
  mv_commit :: "'db \<Rightarrow> 'txn \<Rightarrow> go_error + 'db"

text \<open>
  The documented behaviour as a reference store: the number of commits, and for each key its value
  and the commit it comes from.
\<close>

record mvcc_db =
  md_commits :: nat
  md_entries :: "(bytes \<times> bytes \<times> nat) list"

record mvcc_txn =
  mt_snapshot :: mvcc_db
  mt_update :: bool
  mt_reads :: "bytes list"
  mt_writes :: "(bytes \<times> bytes) list"

definition ref_begin :: "mvcc_db \<Rightarrow> bool \<Rightarrow> mvcc_txn" where
  "ref_begin d update = \<lparr>mt_snapshot = d, mt_update = update, mt_reads = [], mt_writes = []\<rparr>"

definition ref_get :: "mvcc_txn \<Rightarrow> bytes \<Rightarrow> (go_error + bytes) \<times> mvcc_txn" where
  "ref_get t k =
     (case map_of (mt_writes t) k of
        Some v \<Rightarrow> (Inr v, t)
      | None \<Rightarrow> (case map_of (md_entries (mt_snapshot t)) k of None \<Rightarrow> Inl badger_ErrKeyNotFound | Some (v, _) \<Rightarrow> Inr v,
          t\<lparr>mt_reads := k # mt_reads t\<rparr>))"

definition ref_set :: "mvcc_txn \<Rightarrow> bytes \<Rightarrow> bytes \<Rightarrow> go_error + mvcc_txn" where
  "ref_set t k v =
     (if mt_update t then Inr (t\<lparr>mt_writes := AList.update k v (mt_writes t)\<rparr>) else Inl badger_ErrReadOnlyTxn)"

definition ref_conflict :: "mvcc_db \<Rightarrow> mvcc_txn \<Rightarrow> bool" where
  "ref_conflict d t \<longleftrightarrow> list_ex (\<lambda>k. case map_of (md_entries d) k of
     None \<Rightarrow> False | Some (_, version) \<Rightarrow> md_commits (mt_snapshot t) < version) (mt_reads t)"

definition ref_commit :: "mvcc_db \<Rightarrow> mvcc_txn \<Rightarrow> go_error + mvcc_db" where
  "ref_commit d t =
     (if mt_writes t = [] then Inr d
      else if ref_conflict d t then Inl badger_ErrConflict
      else Inr \<lparr>md_commits = md_commits d + 1,
        md_entries = fold (\<lambda>(k, v). AList.update k (v, md_commits d + 1)) (mt_writes t) (md_entries d)\<rparr>)"

definition ref_api :: "(mvcc_db, mvcc_txn) mvcc_api" where
  "ref_api = \<lparr>mv_begin = ref_begin, mv_get = ref_get, mv_set = ref_set, mv_commit = ref_commit\<rparr>"

locale mvcc =
  fixes A :: "('db, 'txn) mvcc_api" and db_abs :: "'db \<Rightarrow> mvcc_db" and txn_abs :: "'txn \<Rightarrow> mvcc_txn"
  assumes begin_abs: "txn_abs (mv_begin A d u) = ref_begin (db_abs d) u"
    and get_abs: "map_prod id txn_abs (mv_get A t k) = ref_get (txn_abs t) k"
    and set_abs: "map_sum id txn_abs (mv_set A t k v) = ref_set (txn_abs t) k v"
    and commit_abs: "map_sum id db_abs (mv_commit A d t) = ref_commit (db_abs d) (txn_abs t)"

section \<open>Goroutines\<close>

text \<open>
  What the goroutines do, one statement at a time. \<open>Get\<close> keeps its error as the error of the
  closure; \<open>GetPrint\<close> prints the value of the item (a nil item panics); the last two are the ends of
  \<^verbatim>\<open>db.View\<close> and \<^verbatim>\<open>db.Update\<close>.
\<close>

datatype action = Sleep int | Begin bool | Get bytes | GetPrint bytes | Set bytes bytes | EndView | EndUpdate

text \<open>\<open>w_clock\<close> is the time, in milliseconds, at which the goroutine goes on.\<close>

record 'txn worker =
  w_clock :: int
  w_todo :: "action list"
  w_txn :: "'txn option"
  w_err :: "go_error option"
  w_done :: "unit go option"

datatype line = Println string | PrintlnBool bool | LogPrintln string go_error

definition new_worker :: "action list \<Rightarrow> 'txn worker" where
  "new_worker todo = \<lparr>w_clock = 0, w_todo = todo, w_txn = None, w_err = None, w_done = None\<rparr>"

fun act :: "('db, 'txn) mvcc_api \<Rightarrow> action \<Rightarrow> 'db \<Rightarrow> line list \<Rightarrow> 'txn worker \<Rightarrow> 'db \<times> line list \<times> 'txn worker" where
  "act A (Sleep ms) d out w = (d, out, w\<lparr>w_clock := w_clock w + ms\<rparr>)"
| "act A (Begin update) d out w = (d, out, w\<lparr>w_txn := Some (mv_begin A d update)\<rparr>)"
| "act A (Get k) d out w =
     (case w_txn w of
        None \<Rightarrow> (d, out, w\<lparr>w_done := Some Panic\<rparr>)
      | Some t \<Rightarrow>
          (case mv_get A t k of
             (Inl e, t') \<Rightarrow> (d, out, w\<lparr>w_txn := Some t', w_err := Some e\<rparr>)
           | (Inr v, t') \<Rightarrow> (d, out, w\<lparr>w_txn := Some t'\<rparr>)))"
| "act A (GetPrint k) d out w =
     (case w_txn w of
        None \<Rightarrow> (d, out, w\<lparr>w_done := Some Panic\<rparr>)
      | Some t \<Rightarrow>
          (case mv_get A t k of
             (Inl e, t') \<Rightarrow> (d, out, w\<lparr>w_done := Some Panic\<rparr>)
           | (Inr v, t') \<Rightarrow> (d, out @ [Println v], w\<lparr>w_txn := Some t'\<rparr>)))"
| "act A (Set k v) d out w =
     (case w_txn w of
        None \<Rightarrow> (d, out, w\<lparr>w_done := Some Panic\<rparr>)
      | Some t \<Rightarrow>
          (case mv_set A t k v of
             Inl e \<Rightarrow> (d, out, w\<lparr>w_err := Some e\<rparr>)
           | Inr t' \<Rightarrow> (d, out, w\<lparr>w_txn := Some t'\<rparr>)))"
| "act A EndView d out w = (d, out, w\<lparr>w_done := Some (case w_err w of Some e \<Rightarrow> Err e | None \<Rightarrow> Ok ())\<rparr>)"
| "act A EndUpdate d out w =
     (case w_txn w of
        None \<Rightarrow> (d, out, w\<lparr>w_done := Some Panic\<rparr>)
      | Some t \<Rightarrow>
          (case w_err w of
             Some e \<Rightarrow> (d, out, w\<lparr>w_done := Some (Err e)\<rparr>)
           | None \<Rightarrow>
               (case mv_commit A d t of
                  Inl e \<Rightarrow> (d, out, w\<lparr>w_done := Some (Err e)\<rparr>)
                | Inr d' \<Rightarrow> (d', out, w\<lparr>w_done := Some (Ok ())\<rparr>))))"

text \<open>
  A group: the goroutine whose time has come takes the next action; if there are several, each of
  them may be the one. \<^verbatim>\<open>Wait\<close> returns the error that was returned first; a panic ends the program.
\<close>

record ('db, 'txn) run =
  rn_db :: 'db
  rn_out :: "line list"
  rn_workers :: "'txn worker list"
  rn_result :: "unit go"

definition waiting :: "'txn worker \<Rightarrow> bool" where
  "waiting w \<longleftrightarrow> w_done w = None \<and> w_todo w \<noteq> []"

definition choices :: "'txn worker list \<Rightarrow> nat list" where
  "choices ws = filter (\<lambda>i. waiting (ws ! i) \<and> list_all (\<lambda>w. waiting w \<longrightarrow> w_clock (ws ! i) \<le> w_clock w) ws) [0..<length ws]"

definition keep_first :: "unit go \<Rightarrow> unit go option \<Rightarrow> unit go" where
  "keep_first r result = (case result of None \<Rightarrow> r | Some Panic \<Rightarrow> Panic
     | Some (Ok _) \<Rightarrow> r | Some (Err e) \<Rightarrow> if r = Ok () then Err e else r)"

definition turn :: "('db, 'txn) mvcc_api \<Rightarrow> ('db, 'txn) run \<Rightarrow> nat \<Rightarrow> ('db, 'txn) run" where
  "turn A r i =
     (let w = rn_workers r ! i
      in case act A (hd (w_todo w)) (rn_db r) (rn_out r) (w\<lparr>w_todo := tl (w_todo w)\<rparr>) of (d, out, w') \<Rightarrow>
        \<lparr>rn_db = d, rn_out = out, rn_workers = (rn_workers r)[i := w'], rn_result = keep_first (rn_result r) (w_done w')\<rparr>)"

fun explore :: "('db, 'txn) mvcc_api \<Rightarrow> nat \<Rightarrow> ('db, 'txn) run \<Rightarrow> ('db, 'txn) run list" where
  "explore A 0 r = [r]"
| "explore A (Suc n) r =
     (if rn_result r = Panic \<or> choices (rn_workers r) = [] then [r]
      else concat (map (\<lambda>i. explore A n (turn A r i)) (choices (rn_workers r))))"

text \<open>Every turn takes one of the actions: their number is enough.\<close>

definition run_group :: "('db, 'txn) mvcc_api \<Rightarrow> action list list \<Rightarrow> 'db \<Rightarrow> line list \<Rightarrow> ('db \<times> line list \<times> unit go) list" where
  "run_group A todos d out =
     map (\<lambda>r. (rn_db r, rn_out r, rn_result r))
       (explore A (length (concat todos)) \<lparr>rn_db = d, rn_out = out, rn_workers = map new_worker todos, rn_result = Ok ()\<rparr>)"

section \<open>The program\<close>

definition hey :: bytes where "hey = ''hey''"

definition read_during_update :: "action list list" where
  "read_during_update =
     [[Begin False, Get hey, Sleep 1000, EndView],
      [Sleep 500, Begin True, GetPrint hey, Set hey ''a new val'', EndUpdate]]"

definition update_during_read :: "action list list" where
  "update_during_read =
     [[Sleep 500, Begin False, Get hey, EndView],
      [Begin True, GetPrint hey, Sleep 1000, Set hey ''a new val 1'', EndUpdate]]"

definition two_updates :: "action list list" where
  "two_updates =
     [[Begin True, GetPrint hey, Sleep 500, Set hey ''a new val 3'', EndUpdate],
      [Sleep 250, Begin True, Set hey ''a new val 2'', EndUpdate]]"

definition print_value :: "action list" where
  "print_value = [Begin False, GetPrint hey, EndView]"

definition and_then :: "('db \<times> line list \<times> unit go) list \<Rightarrow> ('db \<Rightarrow> line list \<Rightarrow> unit go \<Rightarrow> ('db \<times> line list \<times> unit go) list) \<Rightarrow>
    ('db \<times> line list \<times> unit go) list" where
  "and_then rs f = concat (map (\<lambda>(d, out, r). f d out r) rs)"

definition sanity_check :: string where
  "sanity_check = ''This error should have happened, it'' @ [CHR 0x27] @ ''s a sanity check''"

text \<open>
  \<^verbatim>\<open>main\<close>, with the ways it can go: \<open>Err\<close> is an end by \<^verbatim>\<open>log.Fatalln\<close>. The results of the calls
  outside the groups are ignored, except for a panic.
\<close>

definition badger_main :: "('db, 'txn) mvcc_api \<Rightarrow> 'db \<Rightarrow> ('db \<times> line list \<times> unit go) list" where
  "badger_main A d =
     and_then (run_group A [[Begin True, Set hey ''ho'', EndUpdate]] d []) (\<lambda>d out _.
     and_then (run_group A read_during_update d out) (\<lambda>d out r.
     if r \<noteq> Ok () then [(d, out, r)]
     else and_then (run_group A [print_value] d out) (\<lambda>d out r.
     if r = Panic then [(d, out, r)]
     else and_then (run_group A update_during_read d out) (\<lambda>d out r.
     if r \<noteq> Ok () then [(d, out, r)]
     else and_then (run_group A two_updates d out) (\<lambda>d out r.
     if r = Panic then [(d, out, r)]
     else run_group A [print_value] d
       (case r of
          Err e \<Rightarrow> out @ [PrintlnBool (e = badger_ErrConflict), LogPrintln sanity_check e]
        | _ \<Rightarrow> out))))))"

section \<open>The store is all that matters\<close>

text \<open>What the program does with a store is what it does with the reference store.\<close>

definition abs_worker :: "('txn \<Rightarrow> mvcc_txn) \<Rightarrow> 'txn worker \<Rightarrow> mvcc_txn worker" where
  "abs_worker f w = \<lparr>w_clock = w_clock w, w_todo = w_todo w, w_txn = map_option f (w_txn w), w_err = w_err w, w_done = w_done w\<rparr>"

definition abs_run :: "('db \<Rightarrow> mvcc_db) \<Rightarrow> ('txn \<Rightarrow> mvcc_txn) \<Rightarrow> ('db, 'txn) run \<Rightarrow> (mvcc_db, mvcc_txn) run" where
  "abs_run g f r = \<lparr>rn_db = g (rn_db r), rn_out = rn_out r, rn_workers = map (abs_worker f) (rn_workers r), rn_result = rn_result r\<rparr>"

lemma abs_worker_simps [simp]:
  "w_clock (abs_worker f w) = w_clock w" "w_todo (abs_worker f w) = w_todo w" "w_txn (abs_worker f w) = map_option f (w_txn w)"
  "w_err (abs_worker f w) = w_err w" "w_done (abs_worker f w) = w_done w" "waiting (abs_worker f w) = waiting w"
  "abs_worker f (new_worker todo) = new_worker todo"
  by (simp_all add: abs_worker_def waiting_def new_worker_def)

lemma abs_worker_update:
  "abs_worker f (w\<lparr>w_clock := c\<rparr>) = (abs_worker f w)\<lparr>w_clock := c\<rparr>"
  "abs_worker f (w\<lparr>w_todo := todo\<rparr>) = (abs_worker f w)\<lparr>w_todo := todo\<rparr>"
  "abs_worker f (w\<lparr>w_txn := t\<rparr>) = (abs_worker f w)\<lparr>w_txn := map_option f t\<rparr>"
  "abs_worker f (w\<lparr>w_err := e\<rparr>) = (abs_worker f w)\<lparr>w_err := e\<rparr>"
  "abs_worker f (w\<lparr>w_done := r\<rparr>) = (abs_worker f w)\<lparr>w_done := r\<rparr>"
  by (simp_all add: abs_worker_def)

lemma choices_abs: "choices (map (abs_worker f) ws) = choices ws"
  by (auto simp: choices_def list.pred_map comp_def intro!: filter_cong)

lemma ref_api_simps [simp]:
  "mv_begin ref_api = ref_begin" "mv_get ref_api = ref_get" "mv_set ref_api = ref_set" "mv_commit ref_api = ref_commit"
  by (simp_all add: ref_api_def)

context mvcc
begin

lemma get_cases:
  "mv_get A t k = (Inl e, t') \<Longrightarrow> ref_get (txn_abs t) k = (Inl e, txn_abs t')"
  "mv_get A t k = (Inr v, t') \<Longrightarrow> ref_get (txn_abs t) k = (Inr v, txn_abs t')"
  using get_abs [of t k] by simp_all

lemma set_cases:
  "mv_set A t k v = Inl e \<Longrightarrow> ref_set (txn_abs t) k v = Inl e"
  "mv_set A t k v = Inr t' \<Longrightarrow> ref_set (txn_abs t) k v = Inr (txn_abs t')"
  using set_abs [of t k v] by simp_all

lemma commit_cases:
  "mv_commit A d t = Inl e \<Longrightarrow> ref_commit (db_abs d) (txn_abs t) = Inl e"
  "mv_commit A d t = Inr d' \<Longrightarrow> ref_commit (db_abs d) (txn_abs t) = Inr (db_abs d')"
  using commit_abs [of d t] by simp_all

lemma act_abs:
  "act ref_api a (db_abs d) out (abs_worker txn_abs w) = map_prod db_abs (map_prod id (abs_worker txn_abs)) (act A a d out w)"
  by (cases "(A, a, d, out, w)" rule: act.cases)
    (auto simp: abs_worker_update begin_abs get_cases set_cases commit_cases split: option.split sum.split prod.split)

lemma turn_abs:
  assumes "i < length (rn_workers r)"
  shows "abs_run db_abs txn_abs (turn A r i) = turn ref_api (abs_run db_abs txn_abs r) i"
proof -
  let ?w = "rn_workers r ! i"
  obtain d out w' where a: "act A (hd (w_todo ?w)) (rn_db r) (rn_out r) (?w\<lparr>w_todo := tl (w_todo ?w)\<rparr>) = (d, out, w')"
    by (metis prod_cases3)
  with act_abs [of "hd (w_todo ?w)" "rn_db r" "rn_out r" "?w\<lparr>w_todo := tl (w_todo ?w)\<rparr>"] assms show ?thesis
    by (simp add: turn_def Let_def abs_run_def abs_worker_update map_update)
qed

lemma explore_abs:
  "map (abs_run db_abs txn_abs) (explore A n r) = explore ref_api n (abs_run db_abs txn_abs r)"
proof (induction n arbitrary: r)
  case (Suc n)
  have c: "choices (rn_workers (abs_run db_abs txn_abs r)) = choices (rn_workers r)" by (simp add: abs_run_def choices_abs)
  have "map (abs_run db_abs txn_abs) (explore A n (turn A r i)) = explore ref_api n (turn ref_api (abs_run db_abs txn_abs r) i)"
    if "i \<in> set (choices (rn_workers r))" for i
    using that Suc turn_abs [of i r] by (simp add: choices_def)
  then show ?case
    by (simp add: c map_concat comp_def cong: map_cong) (simp add: abs_run_def)
qed simp

lemma run_group_abs:
  "map (map_prod db_abs id) (run_group A todos d out) = run_group ref_api todos (db_abs d) out"
proof -
  let ?r = "\<lparr>rn_db = d, rn_out = out, rn_workers = map new_worker todos, rn_result = Ok ()\<rparr>"
  have "abs_run db_abs txn_abs ?r = \<lparr>rn_db = db_abs d, rn_out = out, rn_workers = map new_worker todos, rn_result = Ok ()\<rparr>"
    by (simp add: abs_run_def comp_def)
  with explore_abs [of "length (concat todos)" ?r, symmetric] show ?thesis
    by (simp add: run_group_def comp_def) (simp add: abs_run_def)
qed

lemma and_then_abs:
  assumes "map (map_prod db_abs id) rs = rs'"
    and "\<And>d out r. map (map_prod db_abs id) (f d out r) = f' (db_abs d) out r"
  shows "map (map_prod db_abs id) (and_then rs f) = and_then rs' f'"
  by (simp add: and_then_def map_concat comp_def case_prod_unfold assms(1) [symmetric] assms(2))

lemma if_abs:
  assumes "map (map_prod db_abs id) rs = rs'" and "map (map_prod db_abs id) rs2 = rs2'"
  shows "map (map_prod db_abs id) (if b then rs else rs2) = (if b then rs' else rs2')"
  using assms by simp

lemma badger_main_abs: "map (map_prod db_abs id) (badger_main A d) = badger_main ref_api (db_abs d)"
  unfolding badger_main_def by (intro and_then_abs if_abs run_group_abs) simp_all

end

interpretation ref_store: mvcc ref_api id id
  by unfold_locales (simp_all add: prod.map_id0 sum.map_id0)

section \<open>What the program shows\<close>

definition new_store :: mvcc_db where
  "new_store = \<lparr>md_commits = 0, md_entries = []\<rparr>"

definition shown :: "line list" where
  "shown = [Println ''ho'', Println ''a new val'', Println ''a new val'', Println ''a new val 1'',
     PrintlnBool True, LogPrintln sanity_check badger_ErrConflict, Println ''a new val 2'']"

text \<open>Each group has one outcome, whatever the schedule.\<close>

definition always :: "('db \<times> line list \<times> unit go) list \<Rightarrow> 'db \<times> line list \<times> unit go \<Rightarrow> bool" where
  "always rs x \<longleftrightarrow> rs \<noteq> [] \<and> list_all (\<lambda>y. y = x) rs"

lemma always_and_then: "always rs (d, out, r) \<Longrightarrow> always (f d out r) x \<Longrightarrow> always (and_then rs f) x"
  by (cases rs) (force simp: always_def and_then_def list_all_iff)+

definition stored_hey :: "nat \<Rightarrow> bytes \<Rightarrow> mvcc_db" where
  "stored_hey n v = \<lparr>md_commits = n, md_entries = [(hey, v, n)]\<rparr>"

lemma group_outcomes:
  "always (run_group ref_api [[Begin True, Set hey ''ho'', EndUpdate]] new_store []) (stored_hey 1 ''ho'', [], Ok ())"
  "always (run_group ref_api read_during_update (stored_hey 1 ''ho'') []) (stored_hey 2 ''a new val'', take 1 shown, Ok ())"
  "always (run_group ref_api [print_value] (stored_hey 2 ''a new val'') (take 1 shown)) (stored_hey 2 ''a new val'', take 2 shown, Ok ())"
  "always (run_group ref_api update_during_read (stored_hey 2 ''a new val'') (take 2 shown))
     (stored_hey 3 ''a new val 1'', take 3 shown, Ok ())"
  "always (run_group ref_api two_updates (stored_hey 3 ''a new val 1'') (take 3 shown))
     (stored_hey 4 ''a new val 2'', take 4 shown, Err badger_ErrConflict)"
  "always (run_group ref_api [print_value] (stored_hey 4 ''a new val 2'')
       (take 4 shown @ [PrintlnBool True, LogPrintln sanity_check badger_ErrConflict]))
     (stored_hey 4 ''a new val 2'', shown, Ok ())"
  by code_simp+

lemma badger_main_ref: "always (badger_main ref_api new_store) (stored_hey 4 ''a new val 2'', shown, Ok ())"
  unfolding badger_main_def
  by ((rule always_and_then, rule group_outcomes, (simp only: simp_thms go.distinct go.case if_False)?)+, rule group_outcomes)



end
