(* ===== verification/Spec2Isabelle.thy ===== *)
theory Spec2Isabelle
  imports Node Remote Cluster Failures Loops InFlight GossipNet Metrics Logger Experiment
begin

text \<open>
  FireScroll is a replicated key-value store. Every node is one process (\<^verbatim>\<open>main.go\<close>). A write is
  not applied by the node that receives it: the API (\<^verbatim>\<open>api/\<close>) hashes the partition key and
  produces the mutation to the topic of mutations, at its partition. The log consumer
  (\<^verbatim>\<open>log_consumer/\<close>) of every node that holds the partition fetches it and hands it to the partition
  manager (\<^verbatim>\<open>partitions/partition_manager.go\<close>), whose partition (\<^verbatim>\<open>partitions/partition.go\<close>) applies
  it in one transaction of an embedded store and records its offset there. Reads are served from
  the local partitions or passed on to a node that the gossip layer (\<^verbatim>\<open>gossip/\<close>) knows to hold the
  partition. Partitions are backed up to, and restored from, a bucket
  (\<^verbatim>\<open>partitions/backup.go\<close>). A second loop of the log consumer follows the assignment of the
  consumer group: it opens and removes partitions and sets where the client resumes.

  \<^bold>\<open>Theories.\<close> In the order of the imports:

  \<^item> \<open>Prelude\<close>: byte strings, errors, the result type \<open>go\<close> (a value, an error or a panic), and the
    functions of Go's standard library that several components use.
  \<^item> \<open>Records\<close>: \<^verbatim>\<open>record.go\<close>, \<^verbatim>\<open>operation.go\<close>, \<^verbatim>\<open>if.go\<close>: the record types with their JSON forms and
    round trips, the \<^verbatim>\<open>if\<close> statements.
  \<^item> \<open>Keys\<close>: the storage keys of \<^verbatim>\<open>partition.go\<close> and the locale \<open>range_keys\<close> of what a range scan needs
    of them, interpreted on \<open>formatRecordKey\<close>.
  \<^item> \<open>Badger\<close>: the calls the partitions make to the store, as a record of functions, the locales
    \<open>badger\<close> (what calls that succeed do) and \<open>badger_reliable\<close> (none fails), and a reference store.
  \<^item> \<open>Partition\<close>, \<open>Refinement\<close>: \<^verbatim>\<open>ReadRecords\<close>, \<^verbatim>\<open>ListRecords\<close>, \<^verbatim>\<open>HandleMutation\<close> with \<^verbatim>\<open>handlePut\<close>,
    \<^verbatim>\<open>handleDelete\<close> and \<^verbatim>\<open>updateOffsetInTx\<close>; the abstract replica, a map of records with an offset
    (\<open>spec_mutation\<close>, \<open>spec_read\<close>, \<open>spec_list\<close>), and the proofs that the operations implement it.
  \<^item> \<open>Backup\<close>: the names of the backups, upload, search and restore, over the locales \<open>s3_bucket\<close> and
    \<open>badger_backup\<close>.
  \<^item> \<open>Lifecycle\<close>: opening, closing and deleting a partition on the directory of databases (locale
    \<open>node_disk\<close>); its two goroutines, \<^verbatim>\<open>closeChan\<close> and the caller of \<^verbatim>\<open>Shutdown\<close> as a step relation.
  \<^item> \<open>Restore\<close>: what a partition holds when it has been opened, from its directory or from the newest
    backup of a bucket that several nodes write (locale \<open>backup_node\<close>).
  \<^item> \<open>SyncMap\<close>, \<open>Manager\<close>: \<^verbatim>\<open>syncx/map.go\<close> (locale \<open>sync_map\<close>) and every method of
    \<^verbatim>\<open>PartitionManager\<close>; \<open>abs_node\<close> is the abstract node, a replica for each open partition.
  \<^item> \<open>Replay\<close>: \<^verbatim>\<open>pollRecords\<close>, \<^verbatim>\<open>launchPollRecordLoop\<close> and the resume offset; \<open>spec_run\<close>, the run of a
    log over a replica; what a restart and a restored backup lead to.
  \<^item> \<open>Interleave\<close>: the goroutines \<^verbatim>\<open>pollRecords\<close> starts for a fetch as a step relation, one record at a
    time in any order, with the error group that waits for them.
  \<^item> \<open>Murmur\<close>: \<^verbatim>\<open>utils/utils.go\<close>, the hash on 32-bit words, \<^verbatim>\<open>GetPartition\<close> and the readers of
    environment variables.
  \<^item> \<open>LogConsumer\<close>: \<^verbatim>\<open>NewLogConsumer\<close> with the options of its clients and its check of the number of
    partitions, \<^verbatim>\<open>topicInfoLoop\<close>, \<^verbatim>\<open>Shutdown\<close>.
  \<^item> \<open>InFlight\<close>: the two loops of the consumer together, a fetch being handled while \<^verbatim>\<open>topicInfoLoop\<close> opens
    its partition.
  \<^item> \<open>Gossip\<close>, \<open>GossipNet\<close>: messages, the table of remote partitions, the callbacks of the membership
    library, the start, and the read-write lock of the table; then all managers of a cluster and the
    messages between them as a step relation, over the locale \<open>broadcast_queue\<close>.
  \<^item> \<open>Loops\<close>: \<^verbatim>\<open>pollTopicInfo\<close> and \<^verbatim>\<open>startBroadcastLoop\<close>, each a \<^verbatim>\<open>select\<close> between a ticker and a
    channel, as one step relation; the locales \<open>loop_body\<close> and \<open>steady_body\<close> say what it asks of its
    body and are interpreted on both bodies.
  \<^item> \<open>Api\<close>, \<open>Remote\<close>: \<^verbatim>\<open>handler.go\<close>, the four operations with decoding and validation, and the
    composition of the node that asks another one with the node that answers.
  \<^item> \<open>Metrics\<close>: \<^verbatim>\<open>internal/metrics.go\<close> and what the operations of the other theories observe.
  \<^item> \<open>Server\<close>: the two HTTP servers, their routes and middleware, the deadline of a request.
  \<^item> \<open>Node\<close>: \<^verbatim>\<open>utils/env.go\<close>, and \<^verbatim>\<open>main.go\<close> from the start of the parts to the exit code.
  \<^item> \<open>Logger\<close>: \<^verbatim>\<open>gologger/gologger.go\<close>.
  \<^item> \<open>Experiment\<close>: \<^verbatim>\<open>badger_test/main.go\<close> under every schedule, over the locale \<open>mvcc\<close> of what the
    store documents of transactions that overlap.
  \<^item> \<open>System\<close>: all nodes, the log and the bucket: producing, polling, assignments, backups and
    restores, restarts, kills and replacements in any order, as an inductive step relation over the
    functions of the other theories; the locale \<open>system_env\<close> of what the nodes call, and the locale
    \<open>replica_invariant\<close> of what makes a claim about replicas an invariant of the system.
  \<^item> \<open>Cluster\<close>, \<open>Failures\<close>: its two interpretations, for logs whose mutations do not fail and for all
    logs, with what follows of them.
  \<^item> This theory: the way of a record from a put request to a read, on one node and to every replica
    of a cluster.

  \<^bold>\<open>What the lemmas show.\<close> Each operation of a partition takes the step of the abstract replica or
  reports the error and changes nothing (\<open>Refinement\<close>); the manager lifts this to the addressed
  partition of a node (\<open>Manager\<close>), polling to a run of the log (\<open>Replay\<close>), and \<open>Cluster\<close> to an
  invariant of all reachable states: a node's partition, open or closed, is the run of its log up
  to the offset it has recorded, and so is every backup. Hence replicas never diverge, and polling
  can always bring them to the end of their logs; what is read there is what the log says, on
  whichever node, and a put that is accepted can be read on all of them (this theory).
  With mutations that fail, \<open>Failures\<close> shows what is left: nothing is applied twice or out of order,
  but replicas can differ for good.
  \<open>Api\<close> and \<open>Remote\<close> relate what clients see to these replicas, for local keys and through other
  nodes. \<open>Interleave\<close> shows that every order of the goroutines of a fetch gives the result of running
  them one after the other, which the other theories use. \<open>Lifecycle\<close> and \<open>Loops\<close> show which
  goroutines end and which calls can block; \<open>GossipNet\<close> that a table only lists what was advertised
  and that the tables come to list what the nodes hold; \<open>Murmur\<close> the range of \<^verbatim>\<open>GetPartition\<close> and
  when it agrees with Kafka's partitioner; \<open>Node\<close> that a configuration is well typed and that a run
  of the program ends with its partitions on disk; \<open>Server\<close> what the deadline of a request bounds
  and what it does not; \<open>Metrics\<close> that the gauge counts the partitions. Several theorems state a behaviour
  that is not what the code means to do, with the condition under which it occurs: a failed mutation
  that loses the rest of its batch, a restored backup that diverges, a fetch that overtakes the
  assignment, calls that never return, replicas that a failed mutation splits.

  \<^bold>\<open>How the code is represented.\<close> A \<^verbatim>\<open>string\<close> or \<^verbatim>\<open>[]byte\<close> is a list of bytes. A JSON text is the
  document it denotes (\<open>wire\<close>: a document, or other bytes); what \<^verbatim>\<open>encoding/json\<close> does with field
  names, null, missing fields and type mismatches is written out. Times are Unix milliseconds.
  Integers are \<open>int\<close> with the range or the wrap-around of \<^verbatim>\<open>int64\<close> written out, or 32-bit words in
  the hash; numbers in the data of a record are decoded to 64-bit floating point. Functions that can fail return \<open>go\<close>; wrapped errors are their root cause. Mutable state
  is passed explicitly. A Go map is an association list, whose order stands for one that can happen.
  Libraries that are not part of the repository (the store, the expression evaluator, the Kafka
  clients, S3, memberlist, the HTTP client) are parameters: a record of the calls the code makes, with
  locales for the documented behaviour that is used, and a reference instance in which it holds.
  Goroutines that work on different data and are waited for run one after the other; where their
  interleaving matters (a partition's goroutines, those of a fetch, the timer loops, the lock of the
  gossip table, the managers of a gossip cluster, the nodes of a cluster) there is a step relation;
  the experiment enumerates its schedules. In \<open>System\<close> a poll and a run of \<^verbatim>\<open>topicInfoLoop\<close> are
  single steps (\<open>InFlight\<close> has what else can happen), a backup is taken while no mutation is applied
  to its partition (\<open>replay_conditional_diverges\<close> has what else can happen), a node that restores
  does not load a backup over an older database it still has (what that does the store does not
  document), and the client moves the position of an open partition only when it is told to or when
  records are fetched. Only \<open>Experiment\<close>
  uses fuel, the number of statements of its goroutines, one of which every step takes; other loops
  run over the finite data they are given (a polling loop over the list of its fetches).
  The constants in \<open>Loops\<close> are the capacities of the code's channels: a ticker's is one, \<^verbatim>\<open>closeChan\<close>'s
  one; that of a partition's \<^verbatim>\<open>closeChan\<close> in \<open>Lifecycle\<close> is two.

  \<^bold>\<open>Not modelled.\<close> The messages that are logged; the router of the HTTP servers, their logging, CORS
  and compression, and the handlers of the profiler and of the metrics, which are library code; how
  a signal reaches \<^verbatim>\<open>main\<close>, which is the end of what a node serves; the time limits of the calls to
  Kafka and S3, which appear as errors of these calls; the value log collection of the store, which
  does not change its content (its phases are in \<open>Lifecycle\<close>); the test of the partitioner, which
  prints two numbers; and the SQL files, which no code uses.
\<close>

section \<open>From the API to the store and back\<close>

lemma map_filter_single: "List.map_filter f [x] = (case f x of None \<Rightarrow> [] | Some y \<Rightarrow> [y])"
  by (simp add: List.map_filter_def split: option.split)

lemma mutation_loop_single:
  assumes "0 < a_NumPartitions A" and "a_NumPartitions A \<le> 2 ^ 31" and "m_If m = None"
  shows "mutation_loop A op topic nMS [m] [] =
    Inr [(part_of (a_NumPartitions A) (m_Pk m), [produced op topic nMS m])]"
  using assms by (simp add: GetPartition_pos part_of_def produced_def Let_def)

text \<open>The record an unconditional put leaves, and the request that asks for it.\<close>

definition put_record :: "records \<Rightarrow> RecordMutation \<Rightarrow> int \<Rightarrow> StoredRecord" where
  "put_record s m nMS = \<lparr>Data = m_Data m,
     CreatedAt = (case s (m_Pk m, m_Sk m) of None \<Rightarrow> nMS | Some r \<Rightarrow> CreatedAt r), UpdatedAt = nMS\<rparr>"

lemma spec_mutation_put:
  "m_If m = None \<Longrightarrow> spec_mutation X st (m\<lparr>m_TsMs := nMS, m_Mutation := OperationPut\<rparr>) off =
    Ok ((fst st)((m_Pk m, m_Sk m) \<mapsto> put_record (fst st) m nMS), Some off)"
  by (cases st) (auto simp: spec_mutation_def spec_put_def check_if_def loaded_def put_record_def split: option.split)

lemma handleMutation_put:
  assumes "0 < a_NumPartitions A" and "a_NumPartitions A \<le> 2 ^ 31"
    and "dec_struct (Records_field RecordMutation_field zero_RecordMutation) w [] = Ok [m]" and "m_If m = None"
    and "a_produce A k [produced OperationPut topic nMS m] = (None, k')"
  shows "handleMutation A OperationPut topic nMS (Some w) k = (Text 200 ''ok'', k')"
  using assms by (simp add: handleMutation_def ValidateRequest_def mutation_loop_single del: mutation_loop.simps)

text \<open>
  C2. What is put is what is read. A put request of one record without a condition, whose
  record the log delivers to the partition of its key, makes a later read of that key on the
  node return exactly the data that was put, with the server's time as its update time and
  the creation time of the record it replaced, if there was one.
\<close>

theorem put_then_get:
  assumes B: "badger_reliable (a_B A) db_map txn_map" and ok: "pm_ok db_map pm"
    and n: "0 < a_NumPartitions A" "a_NumPartitions A \<le> 2 ^ 31"
    and put: "dec_struct (Records_field RecordMutation_field zero_RecordMutation) w [] = Ok [m]" "m_If m = None"
    and m: "no_nul (m_Pk m)" "time_ok nMS" "int64_range nMS" "int64_range off"
    and log: "a_produce A k [produced OperationPut topic nMS m] = (None, k')"
    and here: "abs_node db_map pm (part_of (a_NumPartitions A) (m_Pk m)) = Some st"
    and get: "dec_struct (Records_field RecordKey_field zero_RecordKey) w' [] = Ok [\<lparr>Pk = m_Pk m, Sk = m_Sk m\<rparr>]"
  shows "handleMutation A OperationPut topic nMS (Some w) k = (Text 200 ''ok'', k') \<and>
    (\<exists>pm'. consume_batch (a_B A) (a_X A) (part_of (a_NumPartitions A) (m_Pk m))
        [(kr_Value (produced OperationPut topic nMS m), off)] pm = (Ok (), pm') \<and>
      handleGet A pm' gm (Some w') = JSON 200 [\<lparr>r_Pk = m_Pk m, r_Sk = m_Sk m, r_Data = m_Data m,
        r_CreatedAt = (case fst st (m_Pk m, m_Sk m) of None \<Rightarrow> nMS | Some r \<Rightarrow> CreatedAt r),
        r_UpdatedAt = nMS\<rparr>])"
proof
  show "handleMutation A OperationPut topic nMS (Some w) k = (Text 200 ''ok'', k')"
    by (rule handleMutation_put [OF n put log])
  let ?n = "a_NumPartitions A"
  let ?p = "part_of ?n (m_Pk m)"
  let ?m = "m\<lparr>m_TsMs := nMS, m_Mutation := OperationPut\<rparr>"
  let ?key = "(m_Pk m, m_Sk m)"
  obtain s off0 where st: "st = (s, off0)" by fastforce
  let ?r = "put_record s m nMS"
  have run: "spec_run (a_X A) [(?m, off)] st = Ok (s(?key \<mapsto> ?r), Some off)"
    by (simp add: st spec_mutation_put [OF put(2)])
  have "data_ok (m_Data m)" using decoded_mutations [OF put(1)] by simp
  with m have lok: "log_ok [(?m, off)]" by (simp add: mutation_ok_def)
  obtain pm' where pm': "consume_batch (a_B A) (a_X A) ?p (wire_log [(?m, off)]) pm = (Ok (), pm')"
      "pm_ok db_map pm'" "abs_node db_map pm' = (abs_node db_map pm)(?p \<mapsto> (s(?key \<mapsto> ?r), Some off))"
    using badger_reliable.consume_batch_Ok [OF B ok lok here run] by blast
  have "abs_node db_map pm' ?p \<noteq> None" by (simp add: pm'(3))
  then have "Load (Partitions pm') ?p \<noteq> None" by (auto simp: abs_node_def)
  then have loc: "?p \<in> set (GetPartitionIDs pm')" using pm'(2) by (simp add: GetPartitionIDs_iff pm_ok_def)
  have "\<exists>rs. handleGet A pm' gm (Some w') = JSON 200 rs \<and>
      mset rs = mset (List.map_filter (node_lookup ?n (abs_node db_map pm')) [\<lparr>Pk = m_Pk m, Sk = m_Sk m\<rparr>])"
    by (rule handleGet_local_reads [OF B pm'(2) n get]) (use loc m(1) in simp_all)
  moreover have "node_lookup ?n (abs_node db_map pm') \<lparr>Pk = m_Pk m, Sk = m_Sk m\<rparr> = Some (Record_of ?r (m_Pk m) (m_Sk m))"
    by (simp add: node_lookup_def pm'(3))
  ultimately have "handleGet A pm' gm (Some w') = JSON 200 [Record_of ?r (m_Pk m) (m_Sk m)]"
    by (auto simp: map_filter_single)
  with pm'(1) show "\<exists>pm'. consume_batch (a_B A) (a_X A) ?p [(kr_Value (produced OperationPut topic nMS m), off)] pm = (Ok (), pm') \<and>
      handleGet A pm' gm (Some w') = JSON 200 [\<lparr>r_Pk = m_Pk m, r_Sk = m_Sk m, r_Data = m_Data m,
        r_CreatedAt = (case fst st (m_Pk m, m_Sk m) of None \<Rightarrow> nMS | Some r \<Rightarrow> CreatedAt r), r_UpdatedAt = nMS\<rparr>]"
    by (auto simp: produced_def Record_of_def st put_record_def)
qed

theorem put_then_get_witness:
  "handleMutation demo_api OperationPut ''t'' 9 (Some (demo_put_body None)) [] =
     (Text 200 ''ok'', [produced OperationPut ''t'' 9 (zero_RecordMutation\<lparr>m_Pk := ''pk1'', m_Sk := ''a''\<rparr>)]) \<and>
   (\<exists>pm'. consume_batch mem_badger demo_expr 0
       [(kr_Value (produced OperationPut ''t'' 9 (zero_RecordMutation\<lparr>m_Pk := ''pk1'', m_Sk := ''a''\<rparr>)), 3)] demo_db_pm = (Ok (), pm') \<and>
     handleGet demo_api pm' None (Some (marshal_GetReq [\<lparr>Pk = ''pk1'', Sk = ''a''\<rparr>])) =
       JSON 200 [\<lparr>r_Pk = ''pk1'', r_Sk = ''a'', r_Data = None, r_CreatedAt = 5, r_UpdatedAt = 9\<rparr>])"
proof -
  let ?m = "zero_RecordMutation\<lparr>m_Pk := ''pk1'', m_Sk := ''a''\<rparr>"
  have A: "a_B demo_api = mem_badger" "a_X demo_api = demo_expr" "a_NumPartitions demo_api = 1"
    "\<And>k rs. a_produce demo_api k rs = (None, k @ rs)" by (simp_all add: demo_api_def)
  have m: "m_Pk ?m = ''pk1''" "m_Sk ?m = ''a''" "m_Data ?m = None" "m_If ?m = None"
    by (simp_all add: zero_RecordMutation_def)
  have put: "dec_struct (Records_field RecordMutation_field zero_RecordMutation) (demo_put_body None) [] = Ok [?m]"
    by code_simp
  have get: "dec_struct (Records_field RecordKey_field zero_RecordKey) (marshal_GetReq [\<lparr>Pk = ''pk1'', Sk = ''a''\<rparr>]) [] =
      Ok [\<lparr>Pk = m_Pk ?m, Sk = m_Sk ?m\<rparr>]" by code_simp
  have node: "abs_node map_of demo_db_pm (part_of (a_NumPartitions demo_api) (m_Pk ?m)) = Some (abs_store (map_of demo_db))"
    by (simp add: abs_node_def demo_db_pm_def Load_def demo_part_def part_of_def A)
  have B: "badger_reliable (a_B demo_api) map_of map_of" unfolding A by (rule mem.badger_reliable_axioms)
  have p: "part_of 1 ''pk1'' = 0" by (simp add: part_of_def)
  have log: "a_produce demo_api [] [produced OperationPut ''t'' 9 ?m] = (None, [produced OperationPut ''t'' 9 ?m])"
    by (simp add: A)
  have look: "fst (abs_store (map_of demo_db)) (''pk1'', ''a'') = Some \<lparr>Data = Some [(''v'', JStr ''1'')], CreatedAt = 5, UpdatedAt = 5\<rparr>"
    by (simp add: abs_store_def demo_db_lookup)
  show ?thesis
    using put_then_get [OF B demo_db_pm_ok _ _ put m(4) _ _ _ _ log node get, of 3 None]
    by (simp add: A m p look no_nul_def NUL_def time_ok_def int64_range_def)
qed

section \<open>Reads of nodes that have caught up\<close>

text \<open>What the whole log of its partition makes of the record of a key.\<close>

definition logged :: "int \<Rightarrow> 'prog expr_lib \<Rightarrow> (int \<Rightarrow> log) \<Rightarrow> RecordKey \<Rightarrow> Record option" where
  "logged n X logs k = (case spec_run X (logs (part_of n (Pk k))) (Map.empty, None) of
     Ok st \<Rightarrow> map_option (\<lambda>r. Record_of r (Pk k) (Sk k)) (fst st (Pk k, Sk k)) | _ \<Rightarrow> None)"

lemma caught_up_lookup:
  "caught_up db_map X c (v, part_of n (Pk k)) \<Longrightarrow>
    node_lookup n (abs_node db_map (pr_pm (cl_nodes c v))) k = logged n X (cl_logs c) k"
  by (auto simp: caught_up_def node_lookup_def logged_def split: option.splits)

text \<open>A read of what has caught up.\<close>

lemma caught_up_reads:
  assumes sys: "system_env E db_map txn_map s3_map bk_map"
    and reach: "cluster_reach E (a_X A) ns c" and A: "a_B A = env_B (E v)"
    and n: "0 < a_NumPartitions A" "a_NumPartitions A \<le> 2 ^ 31"
    and dec: "dec_struct (Records_field RecordKey_field zero_RecordKey) w [] = Ok keys" "keys \<noteq> []"
    and here: "\<forall>k \<in> set keys. no_nul (Pk k) \<and> caught_up db_map (a_X A) c (v, part_of (a_NumPartitions A) (Pk k))"
  shows "\<exists>rs. handleGet A (pr_pm (cl_nodes c v)) gm (Some w) = JSON 200 rs \<and>
    mset rs = mset (List.map_filter (logged (a_NumPartitions A) (a_X A) (cl_logs c)) keys)"
proof -
  let ?n = "a_NumPartitions A"
  let ?pm = "pr_pm (cl_nodes c v)"
  have pm: "pm_ok db_map ?pm"
    using cluster_ok_reach [OF sys reach] by (simp add: cluster_ok_def process_inv_def)
  have B: "badger_reliable (a_B A) db_map txn_map" unfolding A by (rule node_disk.axioms(1) [OF system_env.nodes [OF sys]])
  have "part_of ?n (Pk k) \<in> set (GetPartitionIDs ?pm)" if "k \<in> set keys" for k
  proof -
    have "abs_node db_map ?pm (part_of ?n (Pk k)) \<noteq> None"
      using here that by (auto simp: caught_up_def split: option.splits)
    then show ?thesis using pm by (auto simp: GetPartitionIDs_iff pm_ok_def abs_node_def)
  qed
  with here have "\<forall>k \<in> set keys. no_nul (Pk k) \<and> part_of ?n (Pk k) \<in> set (GetPartitionIDs ?pm)" by blast
  from handleGet_local_reads [OF B pm n dec this, of gm] obtain rs where
    rs: "handleGet A ?pm gm (Some w) = JSON 200 rs" "mset rs = mset (List.map_filter (node_lookup ?n (abs_node db_map ?pm)) keys)"
    by blast
  have "List.map_filter (node_lookup ?n (abs_node db_map ?pm)) keys = List.map_filter (logged ?n (a_X A) (cl_logs c)) keys"
    using here by (intro map_filter_eq caught_up_lookup) blast
  with rs show ?thesis by auto
qed



section \<open>From a put to every replica\<close>

lemma safe_log_append:
  assumes "safe_log X log" and "log_ok [(m, off)]" and "mutation_safe X m"
    and "\<forall>(m', k) \<in> set log. k < off" and "0 \<le> off" and "off < 2 ^ 63 - 1"
  shows "safe_log X (log @ [(m, off)])"
  using assms by (auto simp: safe_log_def offsets_ok_def sorted_wrt_append resetOffset_def)

lemma safe_run: "\<forall>(m, k) \<in> set ms. mutation_safe X m \<Longrightarrow> \<exists>st'. spec_run X ms st = Ok st'"
proof (induction ms arbitrary: st)
  case (Cons mk ms)
  obtain m k where mk: "mk = (m, k)" by fastforce
  with Cons.prems have "mutation_safe X m" by auto
  then obtain st1 where "spec_mutation X st m k = Ok st1" unfolding mutation_safe_def by blast
  with Cons mk show ?case by simp
qed simp

text \<open>
  C1. A put reaches every replica. In any state the cluster can reach, whatever has happened to its
  nodes, a put of one record without a condition is answered with 200; when its record has
  been appended to the log of the partition of its key, polling alone leads to a state in which all
  nodes that have this partition open answer a read of the key alike, with the data that was put
  and the server's time as its update time.
\<close>

theorem put_reaches_every_replica:
  assumes sys: "system_env E db_map txn_map s3_map bk_map" and reach: "cluster_reach E (a_X A) ns c"
    and n: "0 < a_NumPartitions A" "a_NumPartitions A \<le> 2 ^ 31" and p: "part_of (a_NumPartitions A) (m_Pk m) = p"
    and V: "finite V" "\<forall>v \<in> V. a_B A = env_B (E v) \<and> abs_node db_map (pr_pm (cl_nodes c v)) p \<noteq> None"
    and put: "dec_struct (Records_field RecordMutation_field zero_RecordMutation) w [] = Ok [m]" "m_If m = None"
    and m: "no_nul (m_Pk m)" "time_ok nMS" "int64_range nMS"
    and log: "a_produce A k [produced OperationPut topic nMS m] = (None, k')"
    and off: "\<forall>(m', k) \<in> set (cl_logs c p). k < off" "0 \<le> off" "off < 2 ^ 63 - 1"
    and get: "dec_struct (Records_field RecordKey_field zero_RecordKey) w' [] = Ok [\<lparr>Pk = m_Pk m, Sk = m_Sk m\<rparr>]"
  shows "handleMutation A OperationPut topic nMS (Some w) k = (Text 200 ''ok'', k') \<and>
    (\<exists>c' r. (cluster_step E (a_X A))\<^sup>*\<^sup>*
        (c\<lparr>cl_logs := (cl_logs c)(p := cl_logs c p @ [(m\<lparr>m_TsMs := nMS, m_Mutation := OperationPut\<rparr>, off)])\<rparr>) c' \<and>
      cluster_reach E (a_X A) ns c' \<and> r_Pk r = m_Pk m \<and> r_Sk r = m_Sk m \<and> r_Data r = m_Data m \<and> r_UpdatedAt r = nMS \<and>
      (\<forall>v \<in> V. handleGet A (pr_pm (cl_nodes c' v)) gm (Some w') = JSON 200 [r]))"
proof
  show "handleMutation A OperationPut topic nMS (Some w) k = (Text 200 ''ok'', k')"
    by (rule handleMutation_put [OF n put log])
  let ?n = "a_NumPartitions A" and ?X = "a_X A" and ?k = "\<lparr>Pk = m_Pk m, Sk = m_Sk m\<rparr>"
  let ?m = "m\<lparr>m_TsMs := nMS, m_Mutation := OperationPut\<rparr>"
  let ?c = "c\<lparr>cl_logs := (cl_logs c)(p := cl_logs c p @ [(?m, off)])\<rparr>"
  have logs: "\<forall>i. safe_log ?X (cl_logs c i)" using cluster_ok_reach [OF sys reach] by (simp add: cluster_ok_def)
  have "data_ok (m_Data m)" using decoded_mutations [OF put(1)] by simp
  with m off(2,3) have "log_ok [(?m, off)]" by (simp add: mutation_ok_def int64_range_def)
  moreover have "mutation_safe ?X ?m" by (simp add: mutation_safe_def spec_mutation_put [OF put(2)])
  ultimately have "safe_log ?X (cl_logs ?c i)" for i using logs off by (auto intro: safe_log_append)
  then have "cluster_step E ?X c ?c" by (intro produced) auto
  with reach have reach1: "cluster_reach E ?X ns ?c" by (rule reach_step)
  have "\<forall>(v, i) \<in> (\<lambda>v. (v, p)) ` V. abs_node db_map (pr_pm (cl_nodes ?c v)) i \<noteq> None" using V(2) by auto
  from all_catch_up [OF sys reach1 finite_imageI [OF V(1)] this] obtain c' where
    c': "(cluster_step E ?X)\<^sup>*\<^sup>* ?c c'" "cl_logs c' = cl_logs ?c" "\<forall>r \<in> (\<lambda>v. (v, p)) ` V. caught_up db_map ?X c' r" by blast
  have reach': "cluster_reach E ?X ns c'" by (rule cluster_reach_steps [OF c'(1) reach1])
  from logs obtain st where "spec_run ?X (cl_logs c p) (Map.empty, None) = Ok st"
    using safe_run [of "cl_logs c p" ?X "(Map.empty, None)"] by (auto simp: safe_log_def)
  then have run: "spec_run ?X (cl_logs c' p) (Map.empty, None) = Ok ((fst st)((m_Pk m, m_Sk m) \<mapsto> put_record (fst st) m nMS), Some off)"
    by (simp add: c'(2) spec_run_append spec_mutation_put [OF put(2)])
  let ?r = "Record_of (put_record (fst st) m nMS) (m_Pk m) (m_Sk m)"
  have look: "List.map_filter (logged ?n ?X (cl_logs c')) [?k] = [?r]"
    by (simp add: map_filter_single logged_def p run)
  have "handleGet A (pr_pm (cl_nodes c' v)) gm (Some w') = JSON 200 [?r]" if v: "v \<in> V" for v
  proof -
    have "\<forall>k \<in> set [?k]. no_nul (Pk k) \<and> caught_up db_map ?X c' (v, part_of ?n (Pk k))" using c'(3) v m(1) p by simp
    from caught_up_reads [OF sys reach' _ n get _ this, of gm, unfolded look] V(2) v show ?thesis by auto
  qed
  moreover have "r_Pk ?r = m_Pk m \<and> r_Sk ?r = m_Sk m \<and> r_Data ?r = m_Data m \<and> r_UpdatedAt ?r = nMS"
    by (simp add: Record_of_def put_record_def)
  ultimately show "\<exists>c' r. (cluster_step E ?X)\<^sup>*\<^sup>* ?c c' \<and> cluster_reach E ?X ns c' \<and> r_Pk r = m_Pk m \<and> r_Sk r = m_Sk m \<and>
      r_Data r = m_Data m \<and> r_UpdatedAt r = nMS \<and> (\<forall>v \<in> V. handleGet A (pr_pm (cl_nodes c' v)) gm (Some w') = JSON 200 [r])"
    using c'(1) reach' by blast
qed

text \<open>Two nodes with a log of three mutations: the put is the fourth one, and both answer with it.\<close>

theorem put_reaches_every_replica_witness:
  "\<exists>c r. cluster_reach (demo_envs False False) demo_expr ''ns'' c \<and>
    handleMutation demo_api OperationPut ''t'' 9 (Some (demo_put_body None)) [] =
      (Text 200 ''ok'', [produced OperationPut ''t'' 9 (zero_RecordMutation\<lparr>m_Pk := ''pk1'', m_Sk := ''a''\<rparr>)]) \<and>
    r_Pk r = ''pk1'' \<and> r_Sk r = ''a'' \<and> r_Data r = None \<and> r_UpdatedAt r = 9 \<and>
    handleGet demo_api (pr_pm (cl_nodes c 0)) None (Some (marshal_GetReq [\<lparr>Pk = ''pk1'', Sk = ''a''\<rparr>])) = JSON 200 [r] \<and>
    handleGet demo_api (pr_pm (cl_nodes c 1)) None (Some (marshal_GetReq [\<lparr>Pk = ''pk1'', Sk = ''a''\<rparr>])) = JSON 200 [r]"
proof -
  let ?m = "zero_RecordMutation\<lparr>m_Pk := ''pk1'', m_Sk := ''a''\<rparr>"
  have A: "a_B demo_api = env_B (demo_envs False False v)" "a_X demo_api = demo_expr" "a_NumPartitions demo_api = 1"
    "a_produce demo_api [] rs = (None, rs)" for v rs by (simp_all add: demo_api_def mem_env_def)
  have n: "0 < a_NumPartitions demo_api" "a_NumPartitions demo_api \<le> 2 ^ 31" by (simp_all add: A)
  have m: "m_Pk ?m = ''pk1''" "m_Sk ?m = ''a''" "m_Data ?m = None" "m_If ?m = None" by (simp_all add: zero_RecordMutation_def)
  have p: "part_of (a_NumPartitions demo_api) (m_Pk ?m) = 0" by (simp add: part_of_def A)
  have put: "dec_struct (Records_field RecordMutation_field zero_RecordMutation) (demo_put_body None) [] = Ok [?m]" by code_simp
  have get: "dec_struct (Records_field RecordKey_field zero_RecordKey) (marshal_GetReq [\<lparr>Pk = ''pk1'', Sk = ''a''\<rparr>]) [] =
      Ok [\<lparr>Pk = m_Pk ?m, Sk = m_Sk ?m\<rparr>]" by code_simp
  have t: "no_nul (m_Pk ?m)" "time_ok 9" "int64_range 9" by (simp_all add: m no_nul_def NUL_def time_ok_def int64_range_def)
  obtain c where c: "cluster_reach (demo_envs False False) (a_X demo_api) ''ns'' c" "cl_logs c = demo_logs"
    "abs_node map_of (pr_pm (cl_nodes c 0)) 0 \<noteq> None" "abs_node map_of (pr_pm (cl_nodes c 1)) 0 \<noteq> None"
    using demo_cluster [of False False] by (auto simp: A)
  have V: "finite {0, 1 :: nat}" "\<forall>v \<in> {0, 1}. a_B demo_api = env_B (demo_envs False False v) \<and> abs_node map_of (pr_pm (cl_nodes c v)) 0 \<noteq> None"
    using c(3,4) A(1) by simp_all
  have off: "\<forall>(m', k) \<in> set (cl_logs c 0). k < 3" by (simp add: c(2) demo_logs_def demo_log_def)
  from put_reaches_every_replica [OF demo.system_env_axioms c(1) n p V put m(4) t A(4) off _ _ get, where gm = None and topic = "''t''"] show ?thesis
    by (auto simp: m A(2))
qed

end
